(* ===== verification/Prelude.thy ===== *)
theory Prelude
  imports Main "HOL-Library.Word" "HOL-Library.Code_Target_Nat"
begin

text \<open>
  Shared vocabulary of the development.

  \<^item> \<open>('e, 'a) res\<close> is a Rust computation that returns \<open>Ok\<close> or \<open>Err\<close>
    (a \<open>Result<A, E>\<close>) or panics; \<open>and_then\<close> is the \<open>?\<close> operator.
  \<^item> \<open>('w, 'e, 'a) io\<close> is such a computation over an explicit world \<open>'w\<close>, composed by
    \<open>io_bind\<close>.
  \<^item> \<open>add64\<close>, \<open>sub64\<close> and \<open>mul64\<close> are Rust's \<open>u64\<close>/\<open>usize\<close>
    operators (64-bit host).  Their first argument \<open>oc\<close> is the build's
    \<open>overflow-checks\<close> setting: on (the dev profile) an overflow panics, off (the release
    profile) it wraps.  Values are natural numbers below \<open>2 ^ 64\<close>.
  \<^item> \<open>le_nat\<close> / \<open>be_nat\<close> are \<open>from_le_bytes\<close> / \<open>from_be_bytes\<close>,
    \<open>le_bytes\<close> / \<open>be_bytes\<close> their inverses, \<open>subrange\<close> and \<open>get_range\<close>
    the slice expressions.
\<close>

named_theorems res_simps "equations of the result and world combinators"
named_theorems arith_simps "the checked machine operations"
named_theorems slice_simps "slices, splices and their lengths"

type_synonym byte = "8 word"
type_synonym bytes = "byte list"

section \<open>Results and world computations\<close>

datatype ('e, 'a) res = Ok 'a | Err 'e | Panic

type_synonym ('w, 'e, 'a) io = "'w \<Rightarrow> ('e, 'a) res \<times> 'w"

fun and_then :: "('e, 'a) res \<Rightarrow> ('a \<Rightarrow> ('e, 'b) res) \<Rightarrow> ('e, 'b) res" where
  "and_then (Ok a) f = f a"
| "and_then (Err e) f = Err e"
| "and_then Panic f = Panic"

fun map_err :: "('e \<Rightarrow> 'f) \<Rightarrow> ('e, 'a) res \<Rightarrow> ('f, 'a) res" where
  "map_err g (Ok a) = Ok a"
| "map_err g (Err e) = Err (g e)"
| "map_err g Panic = Panic"

fun ok_or_none :: "('e, 'a) res \<Rightarrow> 'a option" where
  "ok_or_none (Ok a) = Some a"
| "ok_or_none _ = None"

definition is_ok :: "('e, 'a) res \<Rightarrow> bool" where
  "is_ok r = (case r of Ok _ \<Rightarrow> True | _ \<Rightarrow> False)"

definition io_ret :: "'a \<Rightarrow> ('w, 'e, 'a) io" where
  "io_ret a = (\<lambda>w. (Ok a, w))"

definition io_err :: "'e \<Rightarrow> ('w, 'e, 'a) io" where
  "io_err e = (\<lambda>w. (Err e, w))"

definition io_lift :: "('e, 'a) res \<Rightarrow> ('w, 'e, 'a) io" where
  "io_lift r = (\<lambda>w. (r, w))"

definition io_bind :: "('w, 'e, 'a) io \<Rightarrow> ('a \<Rightarrow> ('w, 'e, 'b) io) \<Rightarrow> ('w, 'e, 'b) io" where
  "io_bind m f = (\<lambda>w. case m w of
       (Ok a, w') \<Rightarrow> f a w'
     | (Err e, w') \<Rightarrow> (Err e, w')
     | (Panic, w') \<Rightarrow> (Panic, w'))"

definition io_map_err :: "('e \<Rightarrow> 'f) \<Rightarrow> ('w, 'e, 'a) io \<Rightarrow> ('w, 'f, 'a) io" where
  "io_map_err g m = (\<lambda>w. case m w of (r, w') \<Rightarrow> (map_err g r, w'))"

section \<open>Machine integers\<close>

definition add64 :: "bool \<Rightarrow> nat \<Rightarrow> nat \<Rightarrow> ('e, nat) res" where
  "add64 oc a b = (if a + b < 2 ^ 64 then Ok (a + b)
     else if oc then Panic else Ok ((a + b) mod 2 ^ 64))"

definition sub64 :: "bool \<Rightarrow> nat \<Rightarrow> nat \<Rightarrow> ('e, nat) res" where
  "sub64 oc a b = (if b \<le> a then Ok (a - b)
     else if oc then Panic else Ok ((a + 2 ^ 64 - b) mod 2 ^ 64))"

definition mul64 :: "bool \<Rightarrow> nat \<Rightarrow> nat \<Rightarrow> ('e, nat) res" where
  "mul64 oc a b = (if a * b < 2 ^ 64 then Ok (a * b)
     else if oc then Panic else Ok (a * b mod 2 ^ 64))"

text \<open>\<open>u64::div_ceil\<close>: a zero divisor panics in every build.\<close>

definition div_ceil64 :: "nat \<Rightarrow> nat \<Rightarrow> ('e, nat) res" where
  "div_ceil64 a b = (if b = 0 then Panic
     else Ok (a div b + (if a mod b > 0 then 1 else 0)))"

section \<open>Byte sequences\<close>

fun le_nat :: "bytes \<Rightarrow> nat" where
  "le_nat [] = 0"
| "le_nat (b # bs) = unat b + 256 * le_nat bs"

definition be_nat :: "bytes \<Rightarrow> nat" where
  "be_nat bs = le_nat (rev bs)"

fun le_bytes :: "nat \<Rightarrow> nat \<Rightarrow> bytes" where
  "le_bytes 0 v = []"
| "le_bytes (Suc n) v = of_nat (v mod 256) # le_bytes n (v div 256)"

definition be_bytes :: "nat \<Rightarrow> nat \<Rightarrow> bytes" where
  "be_bytes n v = rev (le_bytes n v)"

text \<open>The expression \<open>xs[a..b]\<close>, for bounds known to be in range.\<close>

definition subrange :: "'a list \<Rightarrow> nat \<Rightarrow> nat \<Rightarrow> 'a list" where
  "subrange xs a b = take (b - a) (drop a xs)"

text \<open>\<open>xs.get(a..b)\<close>.\<close>

definition get_range :: "'a list \<Rightarrow> nat \<Rightarrow> nat \<Rightarrow> 'a list option" where
  "get_range xs a b = (if a \<le> b \<and> b \<le> length xs then Some (subrange xs a b) else None)"

text \<open>\<open>xs.get(i)\<close>.\<close>

definition get_at :: "'a list \<Rightarrow> nat \<Rightarrow> 'a option" where
  "get_at xs i = (if i < length xs then Some (xs ! i) else None)"

text \<open>\<open>buf[at..at + n].copy_from_slice(bs)\<close>.\<close>

definition splice :: "'a list \<Rightarrow> nat \<Rightarrow> 'a list \<Rightarrow> 'a list" where
  "splice buf at bs = take at buf @ bs @ drop (at + length bs) buf"

fun chunks4 :: "bytes \<Rightarrow> nat list" where
  "chunks4 (a # b # c # d # rest) = le_nat [a, b, c, d] # chunks4 rest"
| "chunks4 _ = []"

fun chunks2 :: "bytes \<Rightarrow> nat list" where
  "chunks2 (a # b # rest) = le_nat [a, b] # chunks2 rest"
| "chunks2 _ = []"

section \<open>Laws of the combinators\<close>

lemma and_then_eq_Ok [res_simps]:
  "and_then r f = Ok b \<longleftrightarrow> (\<exists>a. r = Ok a \<and> f a = Ok b)"
  by (cases r) auto

lemma map_err_eq_Ok [res_simps]: "map_err g r = Ok a \<longleftrightarrow> r = Ok a"
  by (cases r) auto

lemma map_err_eq_Panic [res_simps]: "map_err g r = Panic \<longleftrightarrow> r = Panic"
  by (cases r) auto

lemma io_ret_app [simp]: "io_ret a w = (Ok a, w)"
  by (simp add: io_ret_def)

lemma io_err_app [simp]: "io_err e w = (Err e, w)"
  by (simp add: io_err_def)

lemma io_lift_app [simp]: "io_lift r w = (r, w)"
  by (simp add: io_lift_def)

lemma io_bind_Ok [simp]: "m w = (Ok a, w') \<Longrightarrow> io_bind m f w = f a w'"
  by (simp add: io_bind_def)

lemma io_bind_Err [simp]: "m w = (Err e, w') \<Longrightarrow> io_bind m f w = (Err e, w')"
  by (simp add: io_bind_def)

lemma io_bind_Panic [simp]: "m w = (Panic, w') \<Longrightarrow> io_bind m f w = (Panic, w')"
  by (simp add: io_bind_def)

lemma io_bind_eq_Ok [res_simps]:
  "io_bind m f w = (Ok b, w'') \<longleftrightarrow> (\<exists>a w'. m w = (Ok a, w') \<and> f a w' = (Ok b, w''))"
  by (auto simp: io_bind_def split: prod.splits res.splits)

lemma io_map_err_eq_Ok [res_simps]:
  "io_map_err g m w = (Ok a, w') \<longleftrightarrow> m w = (Ok a, w')"
  by (auto simp: io_map_err_def res_simps split: prod.splits)

text \<open>Leaving a world computation with its last world.\<close>

lemma io_run_eq_Ok [res_simps]:
  "(case x of (Ok a, w) \<Rightarrow> Ok (g a w) | (Err e, w) \<Rightarrow> Err e | (Panic, w) \<Rightarrow> Panic) = Ok y
    \<longleftrightarrow> (\<exists>a w. x = (Ok a, w) \<and> y = g a w)"
  by (auto split: prod.splits res.splits)

section \<open>Laws of the machine operations\<close>

lemma add64_ok [simp]: "a + b < 2 ^ 64 \<Longrightarrow> add64 oc a b = Ok (a + b)"
  by (simp add: add64_def)

lemma mul64_ok [simp]: "a * b < 2 ^ 64 \<Longrightarrow> mul64 oc a b = Ok (a * b)"
  by (simp add: mul64_def)

lemma sub64_ok [simp]: "b \<le> a \<Longrightarrow> sub64 oc a b = Ok (a - b)"
  by (simp add: sub64_def)

lemma add64_no_err [simp]: "add64 oc a b \<noteq> Err e"
  by (simp add: add64_def)

lemma mul64_no_err [simp]: "mul64 oc a b \<noteq> Err e"
  by (simp add: mul64_def)

lemma sub64_no_err [simp]: "sub64 oc a b \<noteq> Err e"
  by (simp add: sub64_def)

lemma add64_release: "add64 False a b = Ok ((a + b) mod 2 ^ 64)"
  by (simp add: add64_def)

lemma mul64_release: "mul64 False a b = Ok (a * b mod 2 ^ 64)"
  by (simp add: mul64_def)

lemma add64_bound: "add64 oc a b = Ok c \<Longrightarrow> c < 2 ^ 64"
  by (auto simp: add64_def split: if_splits)

lemma mul64_mod: "mul64 oc a b = Ok c \<Longrightarrow> c = a * b mod 2 ^ 64"
  by (auto simp: mul64_def split: if_splits)

lemma mul64_bound: "mul64 oc a b = Ok c \<Longrightarrow> c < 2 ^ 64"
  by (auto simp: mul64_def split: if_splits)

lemma div_ceil64_covers:
  assumes "div_ceil64 a b = Ok n" and "p < a"
  shows "p div b < n"
proof -
  from assms have b: "0 < b" and n: "n = a div b + (if a mod b > 0 then 1 else 0)"
    by (auto simp: div_ceil64_def split: if_splits)
  have le: "p div b \<le> a div b" using assms(2) by (simp add: div_le_mono)
  show ?thesis
  proof (cases "a mod b > 0")
    case True
    then show ?thesis using le n by simp
  next
    case False
    then have "a = b * (a div b)" using mult_div_mod_eq [of b a] by simp
    then have "p < (a div b) * b" using assms(2) by (simp add: mult.commute)
    then show ?thesis using False n by (simp add: less_mult_imp_div_less)
  qed
qed

section \<open>Laws of byte sequences\<close>

lemma le_nat_append: "le_nat (xs @ ys) = le_nat xs + 256 ^ length xs * le_nat ys"
  by (induction xs) (simp_all add: algebra_simps)

lemma unat_byte_less: "unat (b :: byte) < 256"
  using unsigned_less [of b, where ?'a = nat] by simp

lemma le_nat_bound: "le_nat bs < 256 ^ length bs"
proof (induction bs)
  case (Cons b bs)
  have "unat b + 256 * le_nat bs < 256 * (le_nat bs + 1)" using unat_byte_less [of b] by simp
  also have "\<dots> \<le> 256 * 256 ^ length bs" using Cons by (intro mult_le_mono2) simp
  finally show ?case by simp
qed simp

lemma length_le_bytes [simp]: "length (le_bytes n v) = n"
  by (induction n arbitrary: v) simp_all

lemma length_be_bytes [simp]: "length (be_bytes n v) = n"
  by (simp add: be_bytes_def)

lemma le_nat_le_bytes: "le_nat (le_bytes n v) = v mod 256 ^ n"
proof (induction n arbitrary: v)
  case (Suc n)
  have "unat (of_nat (v mod 256) :: byte) = v mod 256" by (simp add: unat_of_nat)
  then show ?case using Suc [of "v div 256"] by (simp add: mod_mult2_eq)
qed simp

lemma le_bytes_le_nat: "le_bytes (length bs) (le_nat bs) = bs"
proof (induction bs)
  case (Cons b bs)
  have "(unat b + 256 * le_nat bs) mod 256 = unat b" using unat_byte_less [of b] by simp
  moreover have "(unat b + 256 * le_nat bs) div 256 = le_nat bs" using unat_byte_less [of b] by simp
  ultimately show ?case using Cons by simp
qed simp

lemma le_nat_inj: "length xs = length ys \<Longrightarrow> le_nat xs = le_nat ys \<longleftrightarrow> xs = ys"
  by (metis le_bytes_le_nat)

lemma be_nat_be_bytes: "be_nat (be_bytes n v) = v mod 256 ^ n"
  by (simp add: be_nat_def be_bytes_def le_nat_le_bytes)

lemma be_nat_bound: "be_nat bs < 256 ^ length bs"
  using le_nat_bound [of "rev bs"] by (simp add: be_nat_def)

lemma length_subrange [slice_simps]: "length (subrange xs a b) = min (b - a) (length xs - a)"
  by (simp add: subrange_def min.commute)

lemma get_range_Some [slice_simps]:
  "get_range xs a b = Some ys \<longleftrightarrow> a \<le> b \<and> b \<le> length xs \<and> ys = subrange xs a b"
  by (auto simp: get_range_def)

lemma get_at_Some [slice_simps]: "get_at xs i = Some x \<longleftrightarrow> i < length xs \<and> x = xs ! i"
  by (auto simp: get_at_def)

lemma length_splice [slice_simps]:
  "at + length bs \<le> length buf \<Longrightarrow> length (splice buf at bs) = length buf"
  by (simp add: splice_def)

lemma take_splice_end [slice_simps]:
  "at + length bs \<le> length buf \<Longrightarrow> take (at + length bs) (splice buf at bs) = take at buf @ bs"
  by (simp add: splice_def)

lemma drop_splice [slice_simps]:
  "at + length bs \<le> k \<Longrightarrow> at + length bs \<le> length buf \<Longrightarrow>
    drop k (splice buf at bs) = drop k buf"
  by (simp add: splice_def min_def)

lemma length_chunks4 [simp]: "length (chunks4 bs) = length bs div 4"
  by (induction bs rule: chunks4.induct) auto

lemma chunks4_nth: "i < length bs div 4 \<Longrightarrow> chunks4 bs ! i = le_nat (subrange bs (4 * i) (4 * i + 4))"
proof (induction bs arbitrary: i rule: chunks4.induct)
  case (1 a b c d rest)
  show ?case
  proof (cases i)
    case 0
    then show ?thesis by (simp add: subrange_def)
  next
    case (Suc j)
    then have "j < length rest div 4" using 1 by simp
    then have "chunks4 rest ! j = le_nat (subrange rest (4 * j) (4 * j + 4))" by (rule 1)
    moreover have "drop (4 * i) (a # b # c # d # rest) = drop (4 * j) (drop 4 (a # b # c # d # rest))"
      using Suc by (simp only: drop_drop) (simp add: algebra_simps)
    ultimately show ?thesis using Suc by (simp add: subrange_def)
  qed
qed auto

lemma chunks4_bound: "x \<in> set (chunks4 bs) \<Longrightarrow> x < 2 ^ 32"
proof (induction bs rule: chunks4.induct)
  case (1 a b c d rest)
  have "le_nat [a, b, c, d] < 2 ^ 32" using le_nat_bound [of "[a, b, c, d]"] by simp
  then show ?case using 1 by auto
qed auto

end
