(* ===== verification/Rust_Str.thy ===== *)
theory Rust_Str
  imports Prelude
begin

text \<open>
  The part of Rust's \<open>str\<close>, \<open>String\<close> and \<open>Path\<close> API the program uses.

  A Rust string is the list of its UTF-8 bytes, one \<open>char\<close> per byte, so that ASCII text is
  written as an ordinary literal.  Splitting and matching at ASCII characters is then bytewise.
  \<open>trim\<close> removes the characters with the Unicode property White\_Space, recognised by their
  encodings.  \<open>utf8_lossy\<close> and \<open>utf16_lossy\<close> replace each ill-formed subsequence by
  U+FFFD the way the standard library does.  Paths are Unix paths, kept as the string they were
  given as; two paths are the same when their \<open>components\<close> are.
\<close>

type_synonym path = string

section \<open>Characters and ASCII case\<close>

abbreviation code :: "char \<Rightarrow> nat" where
  "code c \<equiv> of_char c"

definition ascii_lower :: "char \<Rightarrow> char" where
  "ascii_lower c = (if 65 \<le> code c \<and> code c \<le> 90 then char_of (code c + 32) else c)"

definition ascii_upper :: "char \<Rightarrow> char" where
  "ascii_upper c = (if 97 \<le> code c \<and> code c \<le> 122 then char_of (code c - 32) else c)"

definition to_ascii_lowercase :: "string \<Rightarrow> string" where
  "to_ascii_lowercase s = map ascii_lower s"

definition to_ascii_uppercase :: "string \<Rightarrow> string" where
  "to_ascii_uppercase s = map ascii_upper s"

definition eq_ignore_ascii_case :: "string \<Rightarrow> string \<Rightarrow> bool" where
  "eq_ignore_ascii_case a b = (to_ascii_lowercase a = to_ascii_lowercase b)"

definition is_ascii_digit :: "char \<Rightarrow> bool" where
  "is_ascii_digit c = (48 \<le> code c \<and> code c \<le> 57)"

section \<open>Matching and splitting\<close>

definition starts_with :: "'a list \<Rightarrow> 'a list \<Rightarrow> bool" where
  "starts_with s p = (take (length p) s = p)"

definition ends_with :: "'a list \<Rightarrow> 'a list \<Rightarrow> bool" where
  "ends_with s p = (length p \<le> length s \<and> drop (length s - length p) s = p)"

fun contains :: "'a list \<Rightarrow> 'a list \<Rightarrow> bool" where
  "contains [] p = (p = [])"
| "contains (c # s) p = (starts_with (c # s) p \<or> contains s p)"

text \<open>\<open>s.rfind(p)\<close>: the last position where \<open>p\<close> occurs.\<close>

fun rfind :: "'a list \<Rightarrow> 'a list \<Rightarrow> nat option" where
  "rfind [] p = (if p = [] then Some 0 else None)"
| "rfind (c # s) p = (case rfind s p of
       Some i \<Rightarrow> Some (Suc i)
     | None \<Rightarrow> if starts_with (c # s) p then Some 0 else None)"

definition split_once :: "'a \<Rightarrow> 'a list \<Rightarrow> ('a list \<times> 'a list) option" where
  "split_once c s = (if c \<in> set s
     then Some (takeWhile (\<lambda>x. x \<noteq> c) s, tl (dropWhile (\<lambda>x. x \<noteq> c) s)) else None)"

text \<open>\<open>s.split(c)\<close>: always at least one piece.\<close>

fun split_on :: "'a \<Rightarrow> 'a list \<Rightarrow> 'a list list" where
  "split_on c [] = [[]]"
| "split_on c (x # xs) = (if x = c then [] # split_on c xs
     else (case split_on c xs of [] \<Rightarrow> [[x]] | p # ps \<Rightarrow> (x # p) # ps))"

definition trim_matches :: "('a \<Rightarrow> bool) \<Rightarrow> 'a list \<Rightarrow> 'a list" where
  "trim_matches P s = rev (dropWhile P (rev (dropWhile P s)))"

text \<open>\<open>s.trim_start_matches(p)\<close> for a string pattern: every leading copy of \<open>p\<close> goes.\<close>

function trim_start_matches :: "'a list \<Rightarrow> 'a list \<Rightarrow> 'a list" where
  "trim_start_matches p s =
     (if p \<noteq> [] \<and> starts_with s p then trim_start_matches p (drop (length p) s) else s)"
  by pat_completeness auto
termination
proof (relation "measure (\<lambda>(p, s). length s)", goal_cases)
  case (2 p s)
  then have "0 < length p" "length p \<le> length s"
    by (auto simp: starts_with_def) (metis length_take min.cobounded2 nat_le_linear take_all)
  then have "length s - length p < length s" by (intro diff_less) auto
  then show ?case by simp
qed simp

declare trim_start_matches.simps [simp del]

definition newline :: char where
  "newline = char_of (10 :: nat)"

definition carriage_return :: char where
  "carriage_return = char_of (13 :: nat)"

definition strip_cr :: "string \<Rightarrow> string" where
  "strip_cr l = (if l \<noteq> [] \<and> last l = carriage_return then butlast l else l)"

text \<open>
  \<open>s.lines()\<close>: a line ends at a newline, a carriage return before the newline goes with it,
  and no empty line follows a final newline.
\<close>

function lines :: "string \<Rightarrow> string list" where
  "lines s = (if s = [] then [] else (case split_once newline s of
       None \<Rightarrow> [s]
     | Some (l, rest) \<Rightarrow> strip_cr l # lines rest))"
  by pat_completeness auto
termination
proof (relation "measure length", goal_cases)
  case (2 s x l rest)
  then have m: "newline \<in> set s" and r: "rest = tl (dropWhile (\<lambda>x. x \<noteq> newline) s)"
    by (auto simp: split_once_def split: if_splits)
  have "length (dropWhile (\<lambda>x. x \<noteq> newline) s) \<le> length s" by (rule length_dropWhile_le)
  moreover have "dropWhile (\<lambda>x. x \<noteq> newline) s \<noteq> []" using m by (auto simp: dropWhile_eq_Nil_conv)
  ultimately have "length rest < length s" using r
    by (cases "dropWhile (\<lambda>x. x \<noteq> newline) s") auto
  then show ?case by simp
qed simp

declare lines.simps [simp del]

section \<open>White space\<close>

text \<open>The length of the white-space character a string starts with, 0 if it starts with none.\<close>

definition ws_len :: "nat list \<Rightarrow> nat" where
  "ws_len s = (case s of
       [] \<Rightarrow> 0
     | a # s1 \<Rightarrow> if (9 \<le> a \<and> a \<le> 13) \<or> a = 32 then 1 else (case s1 of
         [] \<Rightarrow> 0
       | b # s2 \<Rightarrow> if a = 0xC2 \<and> (b = 0x85 \<or> b = 0xA0) then 2 else (case s2 of
           [] \<Rightarrow> 0
         | c # _ \<Rightarrow>
             if (a = 0xE1 \<and> b = 0x9A \<and> c = 0x80)
              \<or> (a = 0xE2 \<and> b = 0x80 \<and> ((0x80 \<le> c \<and> c \<le> 0x8A) \<or> c = 0xA8 \<or> c = 0xA9 \<or> c = 0xAF))
              \<or> (a = 0xE2 \<and> b = 0x81 \<and> c = 0x9F)
              \<or> (a = 0xE3 \<and> b = 0x80 \<and> c = 0x80) then 3 else 0)))"

text \<open>The same at the end of a string, whose bytes are given last first.\<close>

definition ws_len_back :: "nat list \<Rightarrow> nat" where
  "ws_len_back s = (case s of
       [] \<Rightarrow> 0
     | a # s1 \<Rightarrow> if (9 \<le> a \<and> a \<le> 13) \<or> a = 32 then 1 else (case s1 of
         [] \<Rightarrow> 0
       | b # s2 \<Rightarrow> if ws_len [b, a] = 2 then 2 else (case s2 of
           [] \<Rightarrow> 0
         | c # _ \<Rightarrow> if ws_len [c, b, a] = 3 then 3 else 0)))"

lemma ws_len_le: "ws_len s \<le> length s"
  by (auto simp: ws_len_def split: list.splits)

lemma ws_len_back_le: "ws_len_back s \<le> length s"
  by (auto simp: ws_len_back_def split: list.splits)

function trim_start :: "string \<Rightarrow> string" where
  "trim_start s = (if ws_len (map code s) = 0 then s
     else trim_start (drop (ws_len (map code s)) s))"
  by pat_completeness auto
termination
proof (relation "measure length", goal_cases)
  case (2 s)
  then show ?case using ws_len_le [of "map code s"] by simp
qed simp

declare trim_start.simps [simp del]

function trim_back :: "string \<Rightarrow> string" where
  "trim_back s = (if ws_len_back (map code s) = 0 then s
     else trim_back (drop (ws_len_back (map code s)) s))"
  by pat_completeness auto
termination
proof (relation "measure length", goal_cases)
  case (2 s)
  then show ?case using ws_len_back_le [of "map code s"] by simp
qed simp

declare trim_back.simps [simp del]

definition trim :: "string \<Rightarrow> string" where
  "trim s = rev (trim_back (rev (trim_start s)))"

section \<open>Numbers\<close>

definition digit_value :: "nat \<Rightarrow> char \<Rightarrow> nat option" where
  "digit_value radix c =
     (let d = (if 48 \<le> code c \<and> code c \<le> 57 then code c - 48
               else if 97 \<le> code c \<and> code c \<le> 122 then code c - 87
               else if 65 \<le> code c \<and> code c \<le> 90 then code c - 55 else 36)
      in if d < radix then Some d else None)"

fun digits_value :: "nat \<Rightarrow> nat \<Rightarrow> string \<Rightarrow> nat option" where
  "digits_value radix acc [] = Some acc"
| "digits_value radix acc (c # cs) = (case digit_value radix c of
       None \<Rightarrow> None
     | Some d \<Rightarrow> digits_value radix (acc * radix + d) cs)"

text \<open>
  \<open>uN::from_str_radix(s, radix)\<close>, which \<open>s.parse()\<close> calls with radix 10: an optional
  plus sign, at least one digit, and a value that fits in \<open>bits\<close> bits.
\<close>

definition parse_uint :: "nat \<Rightarrow> nat \<Rightarrow> string \<Rightarrow> nat option" where
  "parse_uint bits radix s =
     (let ds = (case s of c # cs \<Rightarrow> if c = CHR ''+'' then cs else s | [] \<Rightarrow> [])
      in if ds = [] then None
         else (case digits_value radix 0 ds of
             None \<Rightarrow> None
           | Some v \<Rightarrow> if v < 2 ^ bits then Some v else None))"

definition hex_digit :: "nat \<Rightarrow> char" where
  "hex_digit d = (if d < 10 then char_of (48 + d) else char_of (55 + d))"

text \<open>The format \<open>{:0wX}\<close> of a value of at most \<open>w\<close> hexadecimal digits.\<close>

fun hex_fixed :: "nat \<Rightarrow> nat \<Rightarrow> string" where
  "hex_fixed 0 v = []"
| "hex_fixed (Suc w) v = hex_fixed w (v div 16) @ [hex_digit (v mod 16)]"

fun dec_str :: "nat \<Rightarrow> string" where
  "dec_str n = (if n < 10 then [char_of (48 + n)] else dec_str (n div 10) @ [char_of (48 + n mod 10)])"

declare dec_str.simps [simp del]

text \<open>The format \<open>{:0w}\<close> of a decimal number.\<close>

definition dec_padded :: "nat \<Rightarrow> nat \<Rightarrow> string" where
  "dec_padded w n = (let s = dec_str n in replicate (w - length s) (CHR ''0'') @ s)"

section \<open>Unicode\<close>

definition is_cont :: "nat \<Rightarrow> bool" where
  "is_cont b = (0x80 \<le> b \<and> b \<le> 0xBF)"

definition byte_at :: "nat list \<Rightarrow> nat \<Rightarrow> nat" where
  "byte_at s i = (if i < length s then s ! i else 0)"

text \<open>
  One step of the standard library's UTF-8 scanner on a non-empty input: whether it starts with a
  well-formed character, and how many bytes the character or the ill-formed sequence takes.
\<close>

definition utf8_step :: "nat list \<Rightarrow> bool \<times> nat" where
  "utf8_step s =
     (let a = byte_at s 0; b = byte_at s 1; c = byte_at s 2; d = byte_at s 3 in
      if a < 0x80 then (True, 1)
      else if 0xC2 \<le> a \<and> a \<le> 0xDF then (if is_cont b then (True, 2) else (False, 1))
      else if 0xE0 \<le> a \<and> a \<le> 0xEF then
        (if (if a = 0xE0 then 0xA0 \<le> b \<and> b \<le> 0xBF
             else if a = 0xED then 0x80 \<le> b \<and> b \<le> 0x9F else is_cont b)
         then (if is_cont c then (True, 3) else (False, 2)) else (False, 1))
      else if 0xF0 \<le> a \<and> a \<le> 0xF4 then
        (if (if a = 0xF0 then 0x90 \<le> b \<and> b \<le> 0xBF
             else if a = 0xF4 then 0x80 \<le> b \<and> b \<le> 0x8F else is_cont b)
         then (if is_cont c then (if is_cont d then (True, 4) else (False, 3)) else (False, 2))
         else (False, 1))
      else (False, 1))"

definition replacement :: "nat list" where
  "replacement = [0xEF, 0xBF, 0xBD]"

lemma utf8_step_pos: "0 < snd (utf8_step s)"
  by (simp add: utf8_step_def Let_def)

function utf8_lossy_codes :: "nat list \<Rightarrow> nat list" where
  "utf8_lossy_codes s = (if s = [] then [] else
     (if fst (utf8_step s) then take (snd (utf8_step s)) s else replacement)
     @ utf8_lossy_codes (drop (snd (utf8_step s)) s))"
  by pat_completeness auto
termination
proof (relation "measure length", goal_cases)
  case (2 s)
  then show ?case using utf8_step_pos [of s] by simp
qed simp

declare utf8_lossy_codes.simps [simp del]

function utf8_valid_codes :: "nat list \<Rightarrow> bool" where
  "utf8_valid_codes s = (if s = [] then True else if fst (utf8_step s)
     then utf8_valid_codes (drop (snd (utf8_step s)) s) else False)"
  by pat_completeness auto
termination
proof (relation "measure length", goal_cases)
  case (2 s)
  then show ?case using utf8_step_pos [of s] by simp
qed simp

declare utf8_valid_codes.simps [simp del]

definition str_of_bytes :: "bytes \<Rightarrow> string" where
  "str_of_bytes bs = map (\<lambda>b. char_of (unat b)) bs"

text \<open>\<open>String::from_utf8_lossy\<close>.\<close>

definition utf8_lossy :: "bytes \<Rightarrow> string" where
  "utf8_lossy bs = map char_of (utf8_lossy_codes (map unat bs))"

text \<open>The UTF-8 encoding of a code point.\<close>

definition utf8_encode :: "nat \<Rightarrow> nat list" where
  "utf8_encode u =
     (if u < 0x80 then [u]
      else if u < 0x800 then [0xC0 + u div 64, 0x80 + u mod 64]
      else if u < 0x10000 then [0xE0 + u div 4096, 0x80 + u div 64 mod 64, 0x80 + u mod 64]
      else [0xF0 + u div 262144, 0x80 + u div 4096 mod 64, 0x80 + u div 64 mod 64, 0x80 + u mod 64])"

text \<open>\<open>char::decode_utf16\<close> with each unpaired surrogate replaced.\<close>

fun utf16_points :: "nat list \<Rightarrow> nat list" where
  "utf16_points [] = []"
| "utf16_points (u # us) =
     (if u < 0xD800 \<or> 0xDFFF < u then u # utf16_points us
      else if 0xDC00 \<le> u then 0xFFFD # utf16_points us
      else (case us of
          [] \<Rightarrow> [0xFFFD]
        | v # vs \<Rightarrow> if 0xDC00 \<le> v \<and> v \<le> 0xDFFF
            then (0x10000 + (u - 0xD800) * 1024 + (v - 0xDC00)) # utf16_points vs
            else 0xFFFD # utf16_points us))"

text \<open>\<open>String::from_utf16_lossy\<close>.\<close>

definition utf16_lossy :: "nat list \<Rightarrow> string" where
  "utf16_lossy us = map char_of (concat (map utf8_encode (utf16_points us)))"

section \<open>Paths\<close>

text \<open>The components \<open>Path::components\<close> yields after the root; only a leading dot is kept.\<close>

definition components :: "path \<Rightarrow> string list" where
  "components p = (case split_on (CHR ''/'') p of
       [] \<Rightarrow> []
     | c # cs \<Rightarrow> (if c = [] then [] else [c]) @ filter (\<lambda>x. x \<noteq> [] \<and> x \<noteq> ''.'') cs)"

definition is_absolute :: "path \<Rightarrow> bool" where
  "is_absolute p = starts_with p ''/''"

definition same_path :: "path \<Rightarrow> path \<Rightarrow> bool" where
  "same_path p q = (is_absolute p = is_absolute q \<and> components p = components q)"

definition file_name :: "path \<Rightarrow> string option" where
  "file_name p = (let cs = components p in
     if cs = [] \<or> last cs = ''.'' \<or> last cs = ''..'' then None else Some (last cs))"

text \<open>The split of a file name at its last dot; a name whose only dot is its first character has
  no extension.\<close>

definition rsplit_dot :: "string \<Rightarrow> string option \<times> string option" where
  "rsplit_dot f = (case rfind f ''.'' of
       None \<Rightarrow> (None, Some f)
     | Some 0 \<Rightarrow> (Some f, None)
     | Some i \<Rightarrow> (Some (take i f), Some (drop (Suc i) f)))"

definition file_stem :: "path \<Rightarrow> string option" where
  "file_stem p = (case file_name p of
       None \<Rightarrow> None
     | Some f \<Rightarrow> (case rsplit_dot f of (Some b, _) \<Rightarrow> Some b | (None, a) \<Rightarrow> a))"

definition extension :: "path \<Rightarrow> string option" where
  "extension p = (case file_name p of
       None \<Rightarrow> None
     | Some f \<Rightarrow> (case rsplit_dot f of (Some _, a) \<Rightarrow> a | (None, _) \<Rightarrow> None))"

text \<open>\<open>Path::parent\<close>: everything before the last component, \<open>None\<close> without one.\<close>

fun join_slash :: "string list \<Rightarrow> string" where
  "join_slash [] = []"
| "join_slash [c] = c"
| "join_slash (c # cs) = c @ ''/'' @ join_slash cs"

definition parent :: "path \<Rightarrow> path option" where
  "parent p = (let cs = components p in
     if cs = [] then None
     else Some ((if is_absolute p then ''/'' else []) @ join_slash (butlast cs)))"

text \<open>\<open>Path::join\<close>.\<close>

definition join_path :: "path \<Rightarrow> path \<Rightarrow> path" where
  "join_path d p = (if is_absolute p then p
     else if d = [] \<or> last d = CHR ''/'' then d @ p else d @ ''/'' @ p)"

section \<open>Laws\<close>

lemma starts_with_append [simp]: "starts_with (p @ s) p"
  by (simp add: starts_with_def)

lemma starts_withD: "starts_with s p \<Longrightarrow> \<exists>r. s = p @ r"
  by (metis append_take_drop_id starts_with_def)

lemma ends_with_append [simp]: "ends_with (s @ p) p"
  by (simp add: ends_with_def)

lemma ends_withD: "ends_with s p \<Longrightarrow> \<exists>r. s = r @ p"
  by (metis append_take_drop_id ends_with_def)

lemma contains_iff: "contains s p \<longleftrightarrow> (\<exists>a b. s = a @ p @ b)"
proof (induction s)
  case (Cons c s)
  show ?case
  proof
    assume "contains (c # s) p"
    then consider "starts_with (c # s) p" | "contains s p" by auto
    then show "\<exists>a b. c # s = a @ p @ b"
    proof cases
      case 1
      then show ?thesis by (metis append_Nil starts_withD)
    next
      case 2
      then show ?thesis using Cons by (metis append_Cons)
    qed
  next
    assume "\<exists>a b. c # s = a @ p @ b"
    then obtain a b where ab: "c # s = a @ p @ b" by blast
    show "contains (c # s) p"
    proof (cases a)
      case Nil
      then show ?thesis using ab by (metis append_Nil contains.simps(2) starts_with_append)
    next
      case (Cons x a')
      then show ?thesis using ab Cons.IH by auto
    qed
  qed
qed auto

lemma split_onceD:
  assumes "split_once c s = Some (k, v)"
  shows "s = k @ c # v" and "c \<notin> set k"
proof -
  from assms have c: "c \<in> set s" and k: "k = takeWhile (\<lambda>x. x \<noteq> c) s"
    and v: "v = tl (dropWhile (\<lambda>x. x \<noteq> c) s)"
    by (auto simp: split_once_def split: if_splits)
  have "dropWhile (\<lambda>x. x \<noteq> c) s \<noteq> []" using c by (auto simp: dropWhile_eq_Nil_conv)
  moreover from this have "hd (dropWhile (\<lambda>x. x \<noteq> c) s) = c" using hd_dropWhile by blast
  ultimately have "dropWhile (\<lambda>x. x \<noteq> c) s = c # v" using v by (cases "dropWhile (\<lambda>x. x \<noteq> c) s") auto
  then show "s = k @ c # v" using k by (metis takeWhile_dropWhile_id)
  show "c \<notin> set k" using k by (auto dest: set_takeWhileD)
qed

lemma split_once_append [simp]: "c \<notin> set k \<Longrightarrow> split_once c (k @ c # v) = Some (k, v)"
  by (induction k) (auto simp: split_once_def)

lemma split_once_None: "split_once c s = None \<longleftrightarrow> c \<notin> set s"
  by (simp add: split_once_def)

lemma parse_uint_bound: "parse_uint bits radix s = Some v \<Longrightarrow> v < 2 ^ bits"
  by (auto simp: parse_uint_def Let_def split: if_splits option.splits list.splits)

lemma length_hex_fixed [simp]: "length (hex_fixed w v) = w"
  by (induction w arbitrary: v) auto

lemma hex_digit_inj: "d < 16 \<Longrightarrow> e < 16 \<Longrightarrow> hex_digit d = hex_digit e \<longleftrightarrow> d = e"
proof -
  assume "d < 16" "e < 16"
  then have "code (hex_digit d) = (if d < 10 then 48 + d else 55 + d)"
      "code (hex_digit e) = (if e < 10 then 48 + e else 55 + e)"
    by (simp_all add: hex_digit_def)
  then have "hex_digit d = hex_digit e \<longrightarrow> (if d < 10 then 48 + d else 55 + d) = (if e < 10 then 48 + e else 55 + e)"
    by metis
  then show ?thesis by (auto split: if_splits)
qed

lemma hex_fixed_inj:
  "v < 16 ^ w \<Longrightarrow> u < 16 ^ w \<Longrightarrow> hex_fixed w v = hex_fixed w u \<longleftrightarrow> v = u"
proof (induction w arbitrary: v u)
  case (Suc w)
  have "v div 16 < 16 ^ w" "u div 16 < 16 ^ w" using Suc(2,3) by (simp_all add: less_mult_imp_div_less mult.commute)
  then show ?case using Suc(1) [of "v div 16" "u div 16"] hex_digit_inj [of "v mod 16" "u mod 16"]
    by simp (metis div_mod_decomp)
qed simp

lemma utf8_step_ascii: "s \<noteq> [] \<Longrightarrow> hd s < 0x80 \<Longrightarrow> utf8_step s = (True, 1)"
  by (cases s) (simp_all add: utf8_step_def byte_at_def Let_def)

lemma utf8_lossy_codes_ascii: "\<forall>b \<in> set s. b < 0x80 \<Longrightarrow> utf8_lossy_codes s = s"
proof (induction s)
  case (Cons b s)
  then have "utf8_step (b # s) = (True, 1)" by (intro utf8_step_ascii) auto
  then show ?case using Cons by (subst utf8_lossy_codes.simps) simp
qed (simp add: utf8_lossy_codes.simps)

lemma utf8_lossy_ascii: "\<forall>b \<in> set bs. unat b < 0x80 \<Longrightarrow> utf8_lossy bs = str_of_bytes bs"
  by (simp add: utf8_lossy_def str_of_bytes_def utf8_lossy_codes_ascii comp_def)

lemma utf8_lossy_codes_valid: "utf8_valid_codes s \<Longrightarrow> utf8_lossy_codes s = s"
proof (induction s rule: utf8_lossy_codes.induct)
  case (1 s)
  show ?case
  proof (cases "s = []")
    case False
    with 1(2) have "fst (utf8_step s)" "utf8_valid_codes (drop (snd (utf8_step s)) s)"
      by (auto simp: utf8_valid_codes.simps [of s] split: if_splits)
    then show ?thesis using 1(1) False by (subst utf8_lossy_codes.simps) simp
  qed (simp add: utf8_lossy_codes.simps)
qed

end
