(* ===== verification/Models.thy ===== *)
theory Models
  imports Rust_Str
begin

text \<open>
  The data the components exchange: \<open>src/error.rs\<close> and \<open>src/models/\<close>
  (\<open>image.rs\<close>, \<open>partition.rs\<close>, \<open>software.rs\<close>, \<open>traits.rs\<close>).
  Variants that share a name in Rust (\<open>Unknown\<close>, \<open>None\<close>) carry a prefix here.
\<close>

section \<open>I/O errors\<close>

text \<open>\<open>std::io::ErrorKind\<close>, as far as the program tells kinds apart.\<close>

datatype io_kind = NotFound | PermissionDenied | ConnectionRefused | ConnectionReset
  | ConnectionAborted | AddrNotAvailable | WouldBlock | InvalidInput | InvalidData | TimedOut
  | WriteZero | Interrupted | Unsupported | UnexpectedEof | OtherKind

text \<open>\<open>std::io::Error\<close>: a kind and the text it displays as.\<close>

datatype io_error = IoError (kind_of: io_kind) (io_text: string)

section \<open>error.rs\<close>

text \<open>A string between single quotation marks, as the message formats have it.\<close>

definition quoted :: "string \<Rightarrow> string" where
  "quoted s = [CHR 0x27] @ s @ [CHR 0x27]"

datatype vm_error =
    Io io_error
  | Parse string
  | UnsupportedOs string
  | UnsupportedFormat string
  | ImageNotFound string
  | Cancelled
  | MissingDiskComponent (descriptor_path: string) (declared_name: string)
      (resolved_path: string) (component_type: string) (os_error: io_error)
  | QemuNotFound string
  | Nbd string
  | FileSystemError string
  | WindowsRegistry string
  | Config string
  | Other string

fun display_error :: "vm_error \<Rightarrow> string" where
  "display_error (Io e) = ''I/O error: '' @ io_text e"
| "display_error (Parse m) = ''Parse error: '' @ m"
| "display_error (UnsupportedOs m) = ''Unsupported operating system: '' @ m"
| "display_error (UnsupportedFormat m) = ''Unsupported image format: '' @ m"
| "display_error (ImageNotFound m) = ''Disk image not found: '' @ m"
| "display_error Cancelled = ''Inspection was cancelled by the user''"
| "display_error (MissingDiskComponent d n r t e) = ''Missing '' @ t @ '' '' @ quoted n
     @ '' referenced by '' @ quoted d @ ''. Resolved path: '' @ quoted r @ ''. OS error: '' @ io_text e"
| "display_error (QemuNotFound m) = ''QEMU tool not available: '' @ m"
| "display_error (Nbd m) = ''NBD protocol error: '' @ m"
| "display_error (FileSystemError m) = ''File system error: '' @ m"
| "display_error (WindowsRegistry m) = ''Windows Registry error: '' @ m"
| "display_error (Config m) = ''Configuration error: '' @ m"
| "display_error (Other m) = ''Inspection error: '' @ m"

definition from_disk_component_io ::
    "path \<Rightarrow> string \<Rightarrow> path \<Rightarrow> string \<Rightarrow> string \<Rightarrow> io_error \<Rightarrow> vm_error" where
  "from_disk_component_io dpath dname rpath ctype operation src =
     (if kind_of src = NotFound then MissingDiskComponent dpath dname rpath ctype src
      else Io (IoError (kind_of src)
        (''Could not '' @ operation @ '' '' @ ctype @ '' '' @ quoted dname @ '' referenced by ''
          @ quoted dpath @ ''. Resolved path: '' @ quoted rpath @ '': '' @ io_text src)))"

section \<open>image.rs\<close>

datatype hypervisor = VMware | VirtualBox | HyperV | Qemu | HvUnknown

definition hypervisor_from_format :: "string \<Rightarrow> hypervisor" where
  "hypervisor_from_format fmt =
     (let f = to_ascii_lowercase fmt in
      if f = ''vmdk'' then VMware
      else if f = ''vdi'' then VirtualBox
      else if f \<in> {''vpc'', ''vhd'', ''vhdx''} then HyperV
      else if f \<in> {''qcow'', ''qcow2'', ''qed''} then Qemu
      else HvUnknown)"

fun hypervisor_name :: "hypervisor \<Rightarrow> string" where
  "hypervisor_name VMware = ''VMware''"
| "hypervisor_name VirtualBox = ''VirtualBox''"
| "hypervisor_name HyperV = ''Hyper-V / Virtual PC''"
| "hypervisor_name Qemu = ''QEMU / KVM''"
| "hypervisor_name HvUnknown = ''Unknown (raw image or other)''"

record image_info =
  im_path :: path
  im_format :: string
  im_virtual_size :: nat
  im_actual_size :: nat
  im_hypervisor :: hypervisor

record stats =
  st_access_mode :: string
  st_nbd_requests :: nat
  st_read_operations :: nat
  st_cache_hits :: nat
  st_bytes_read :: nat
  st_source_location :: string
  st_source_is_network :: "bool option"
  st_identification_duration_ms :: nat
  st_backend_initialization_duration_ms :: nat
  st_partition_detection_duration_ms :: nat
  st_guest_analysis_duration_ms :: nat
  st_report_generation_duration_ms :: nat
  st_duration_ms :: nat

definition default_stats :: stats where
  "default_stats = \<lparr>st_access_mode = '''', st_nbd_requests = 0, st_read_operations = 0,
     st_cache_hits = 0, st_bytes_read = 0, st_source_location = '''', st_source_is_network = None,
     st_identification_duration_ms = 0, st_backend_initialization_duration_ms = 0,
     st_partition_detection_duration_ms = 0, st_guest_analysis_duration_ms = 0,
     st_report_generation_duration_ms = 0, st_duration_ms = 0\<rparr>"

section \<open>partition.rs\<close>

datatype table_scheme = Mbr | Gpt | NoScheme

datatype file_system = Ntfs | Fat | Ext2 | Ext3 | Ext4 | Xfs | Btrfs | LinuxSwap | Lvm2 | FsUnknown

definition is_linux :: "file_system \<Rightarrow> bool" where
  "is_linux fs = (fs \<in> {Ext2, Ext3, Ext4, Xfs, Btrfs, LinuxSwap, Lvm2})"

fun file_system_name :: "file_system \<Rightarrow> string" where
  "file_system_name Ntfs = ''NTFS''"
| "file_system_name Fat = ''FAT''"
| "file_system_name Ext2 = ''ext2''"
| "file_system_name Ext3 = ''ext3''"
| "file_system_name Ext4 = ''ext4''"
| "file_system_name Xfs = ''XFS''"
| "file_system_name Btrfs = ''Btrfs''"
| "file_system_name LinuxSwap = ''Linux swap''"
| "file_system_name Lvm2 = ''LVM2 PV''"
| "file_system_name FsUnknown = ''unknown''"

datatype operating_system = Windows | Linux | OsUnknown

record partition =
  pt_index :: nat
  pt_start :: nat
  pt_size :: nat
  pt_kind :: string
  pt_file_system :: file_system
  pt_label :: "string option"

definition is_ntfs :: "partition \<Rightarrow> bool" where
  "is_ntfs p = (pt_file_system p = Ntfs)"

section \<open>software.rs and traits.rs\<close>

record program =
  pg_name :: string
  pg_version :: "string option"
  pg_publisher :: "string option"
  pg_source :: "string option"

record guest_tools =
  gt_kind :: string
  gt_version :: "string option"
  gt_present :: bool

record guest_info =
  os_name :: string
  os_edition :: string
  os_service_pack :: string
  os_build :: string
  guest_tools_of :: "guest_tools option"

definition default_guest_info :: guest_info where
  "default_guest_info = \<lparr>os_name = '''', os_edition = '''', os_service_pack = '''',
     os_build = '''', guest_tools_of = None\<rparr>"

fun join_with :: "string \<Rightarrow> string list \<Rightarrow> string" where
  "join_with sep [] = ''''"
| "join_with sep [s] = s"
| "join_with sep (s # ss) = s @ sep @ join_with sep ss"

definition formatted_os_string :: "guest_info \<Rightarrow> string" where
  "formatted_os_string g =
     (let details = (if os_service_pack g \<noteq> '''' then [os_service_pack g] else [])
                  @ (if os_edition g \<noteq> '''' then [''Version '' @ os_edition g] else [])
                  @ (if os_build g \<noteq> '''' then [''Build '' @ os_build g] else [])
      in if details = [] then os_name g
         else os_name g @ '' ('' @ join_with '' - '' details @ '')'')"

record analysis_result =
  ar_guest_info :: guest_info
  ar_programs :: "program list"
  ar_warnings :: "string list"

definition default_analysis :: analysis_result where
  "default_analysis = \<lparr>ar_guest_info = default_guest_info, ar_programs = [], ar_warnings = []\<rparr>"

section \<open>Laws\<close>

lemma from_disk_component_io_missing:
  "kind_of src = NotFound \<Longrightarrow>
    from_disk_component_io d n r t op src = MissingDiskComponent d n r t src"
  by (simp add: from_disk_component_io_def)

lemma from_disk_component_io_other:
  "kind_of src \<noteq> NotFound \<Longrightarrow>
    \<exists>m. from_disk_component_io d n r t op src = Io (IoError (kind_of src) m)"
  by (simp add: from_disk_component_io_def)

end
