(* ===== verification/Host_File.thy ===== *)
theory Host_File
  imports Models
begin

text \<open>
  The part of \<open>std::fs\<close> and \<open>std::io\<close> the program uses.

  An open file (\<open>handle\<close>) has contents, a position and a script: what the operating system does with
  the next \<open>read\<close> calls.  A call may return fewer bytes than asked (\<open>Short k\<close> returns
  at most \<open>k + 1\<close>), be interrupted, or fail; when the script is used up every call returns all
  that was asked for and is there.  A \<open>host\<close> answers \<open>open\<close>, \<open>metadata\<close> and
  \<open>canonicalize\<close> for each path; images are only read, so it does not change while an image
  is inspected.  A byte function \<open>nat \<Rightarrow> byte\<close> is what a disk or a file holds, zero outside
  its end, and \<open>window\<close> is a range of it: the specifications of the readers are stated over it.
\<close>

named_theorems window_simps "windows of byte functions"

section \<open>Files\<close>

datatype read_event = Short nat | Interrupt | Fault io_error

record handle =
  f_data :: bytes
  f_pos :: nat
  f_script :: "read_event list"

definition fresh_file :: "bytes \<Rightarrow> handle" where
  "fresh_file d = \<lparr>f_data = d, f_pos = 0, f_script = []\<rparr>"

text \<open>One call of \<open>Read::read\<close> with a buffer of \<open>n\<close> bytes.\<close>

definition file_read :: "nat \<Rightarrow> (handle, io_error, bytes) io" where
  "file_read n f = (case f_script f of
       [] \<Rightarrow> (let bs = take n (drop (f_pos f) (f_data f))
              in (Ok bs, f\<lparr>f_pos := f_pos f + length bs\<rparr>))
     | Short k # es \<Rightarrow> (let bs = take (min n (Suc k)) (drop (f_pos f) (f_data f))
              in (Ok bs, f\<lparr>f_pos := f_pos f + length bs, f_script := es\<rparr>))
     | Interrupt # es \<Rightarrow> (Err (IoError Interrupted ''Interrupted system call''), f\<lparr>f_script := es\<rparr>)
     | Fault e # es \<Rightarrow> (Err e, f\<lparr>f_script := es\<rparr>))"

text \<open>\<open>seek(SeekFrom::Start(p))\<close>: \<open>lseek\<close> takes a signed offset.\<close>

definition seek_start :: "nat \<Rightarrow> (handle, io_error, nat) io" where
  "seek_start p f = (if p < 2 ^ 63 then (Ok p, f\<lparr>f_pos := p\<rparr>)
     else (Err (IoError InvalidInput ''Invalid argument''), f))"

lemma file_read_script_le:
  "file_read n f = (r, f') \<Longrightarrow> length (f_script f') \<le> length (f_script f)"
  by (auto simp: file_read_def Let_def split: list.splits read_event.splits)

lemma file_read_Err_script:
  "file_read n f = (Err e, f') \<Longrightarrow> length (f_script f') < length (f_script f)"
  by (auto simp: file_read_def Let_def split: list.splits read_event.splits)

lemma file_read_Ok_length: "file_read n f = (Ok bs, f') \<Longrightarrow> length bs \<le> n"
  by (auto simp: file_read_def Let_def split: list.splits read_event.splits)

text \<open>
  The loop that fills a buffer of \<open>n\<close> bytes: an interrupted call is repeated, and \<open>eof\<close>
  says what happens when the file ends with that many bytes missing.
\<close>

function read_loop :: "(nat \<Rightarrow> (io_error, bytes) res) \<Rightarrow> nat \<Rightarrow> handle \<Rightarrow> (io_error, bytes) res \<times> handle"
  where
  "read_loop eof n f = (if n = 0 then (Ok [], f) else (case file_read n f of
       (Ok bs, f') \<Rightarrow>
         if bs = [] then (eof n, f')
         else (case read_loop eof (n - length bs) f' of
             (Ok rest, f'') \<Rightarrow> (Ok (bs @ rest), f'')
           | (Err e, f'') \<Rightarrow> (Err e, f'')
           | (Panic, f'') \<Rightarrow> (Panic, f''))
     | (Err e, f') \<Rightarrow> if kind_of e = Interrupted then read_loop eof n f' else (Err e, f')
     | (Panic, f') \<Rightarrow> (Panic, f')))"
  by pat_completeness auto
termination
proof (relation "measure (\<lambda>(eof, n, f). n + length (f_script f))", goal_cases)
  case (2 eof n f x y bs)
  then have "file_read n f = (Ok bs, y)" by simp
  then show ?case using 2 file_read_script_le [of n f "Ok bs" y] by (cases bs) auto
next
  case (3 eof n f x y e)
  then have "file_read n f = (Err e, y)" by simp
  then show ?case using file_read_Err_script [of n f e y] by simp
qed simp

declare read_loop.simps [simp del]

text \<open>\<open>Read::read_exact\<close>.\<close>

definition eof_error :: io_error where
  "eof_error = IoError UnexpectedEof ''failed to fill whole buffer''"

definition read_exact :: "nat \<Rightarrow> (handle, io_error, bytes) io" where
  "read_exact n = read_loop (\<lambda>_. Err eof_error) n"

text \<open>\<open>Read::read_to_end\<close>: the buffer grows until a call returns nothing.\<close>

definition read_to_end :: "(handle, io_error, bytes) io" where
  "read_to_end f = read_loop (\<lambda>_. Ok []) (Suc (length (f_data f))) f"

section \<open>The host\<close>

record metadata =
  md_is_file :: bool
  md_is_dir :: bool
  md_len :: nat

record host =
  h_open :: "path \<Rightarrow> io_error + handle"
  h_meta :: "path \<Rightarrow> io_error + metadata"
  h_canon :: "path \<Rightarrow> io_error + path"

fun of_sum :: "'e + 'a \<Rightarrow> ('e, 'a) res" where
  "of_sum (Inl e) = Err e"
| "of_sum (Inr a) = Ok a"

definition host_metadata :: "host \<Rightarrow> path \<Rightarrow> (io_error, metadata) res" where
  "host_metadata h p = of_sum (h_meta h p)"

definition path_exists :: "host \<Rightarrow> path \<Rightarrow> bool" where
  "path_exists h p = is_ok (host_metadata h p)"

definition path_is_dir :: "host \<Rightarrow> path \<Rightarrow> bool" where
  "path_is_dir h p = (case host_metadata h p of Ok m \<Rightarrow> md_is_dir m | _ \<Rightarrow> False)"

definition path_is_file :: "host \<Rightarrow> path \<Rightarrow> bool" where
  "path_is_file h p = (case host_metadata h p of Ok m \<Rightarrow> md_is_file m | _ \<Rightarrow> False)"

text \<open>\<open>stream.rs\<close>: \<open>open_read_file\<close> (the Unix branch).\<close>

definition open_read_file :: "host \<Rightarrow> path \<Rightarrow> (io_error, handle) res" where
  "open_read_file h p = of_sum (h_open h p)"

text \<open>\<open>std::fs::read_to_string\<close>.\<close>

definition read_to_string :: "host \<Rightarrow> path \<Rightarrow> (io_error, string) res" where
  "read_to_string h p = and_then (open_read_file h p) (\<lambda>f.
     and_then (fst (read_to_end f)) (\<lambda>bs.
       if utf8_valid_codes (map unat bs) then Ok (str_of_bytes bs)
       else Err (IoError InvalidData ''stream did not contain valid UTF-8'')))"

section \<open>Byte functions and windows\<close>

definition byte_fun :: "bytes \<Rightarrow> nat \<Rightarrow> byte" where
  "byte_fun d i = (if i < length d then d ! i else 0)"

definition window :: "(nat \<Rightarrow> byte) \<Rightarrow> nat \<Rightarrow> nat \<Rightarrow> bytes" where
  "window g p n = map g [p..<p + n]"

text \<open>A file whose script holds no failure: reads may be short or interrupted only.\<close>

definition healthy :: "handle \<Rightarrow> bool" where
  "healthy f = list_all (\<lambda>e. case e of Fault _ \<Rightarrow> False | _ \<Rightarrow> True) (f_script f)"

lemma healthy_fresh [simp]: "healthy (fresh_file d)"
  by (simp add: healthy_def fresh_file_def)

lemma length_window [simp]: "length (window g p n) = n"
  by (simp add: window_def)

lemma window_nth [simp]: "i < n \<Longrightarrow> window g p n ! i = g (p + i)"
  by (simp add: window_def)

lemma window_0 [simp]: "window g p 0 = []"
  by (simp add: window_def)

lemma window_append: "window g p (a + b) = window g p a @ window g (p + a) b"
proof -
  have "[p..<p + a + b] = [p..<p + a] @ [p + a..<p + a + b]"
    by (rule upt_add_eq_append) simp
  then show ?thesis by (simp add: window_def add.assoc [symmetric])
qed

lemma window_cong: "(\<And>i. p \<le> i \<Longrightarrow> i < p + n \<Longrightarrow> g i = g' i) \<Longrightarrow> window g p n = window g' p n"
  by (simp add: window_def)

lemma window_shift: "(\<And>i. i < n \<Longrightarrow> g (p + i) = g' (q + i)) \<Longrightarrow> window g p n = window g' q n"
  by (rule nth_equalityI) auto

lemma take_window: "take k (window g p n) = window g p (min k n)"
  by (rule nth_equalityI) auto

lemma drop_window: "drop k (window g p n) = window g (p + k) (n - k)"
  by (rule nth_equalityI) (auto simp: add.assoc)

lemma window_zero: "(\<And>i. p \<le> i \<Longrightarrow> i < p + n \<Longrightarrow> g i = 0) \<Longrightarrow> window g p n = replicate n 0"
  by (rule nth_equalityI) auto

lemma take_drop_window:
  "p + n \<le> length d \<Longrightarrow> take n (drop p d) = window (byte_fun d) p n"
  by (rule nth_equalityI) (auto simp: byte_fun_def)

lemma take_drop_window_min:
  "p \<le> length d \<Longrightarrow> take n (drop p d) = window (byte_fun d) p (min n (length d - p))"
  by (rule nth_equalityI) (auto simp: byte_fun_def)

lemma window_past_end: "length d \<le> p \<Longrightarrow> window (byte_fun d) p n = replicate n 0"
  by (rule window_zero) (simp add: byte_fun_def)

lemmas window_simps' [window_simps] = take_window drop_window window_past_end

section \<open>What the read loops return\<close>

lemma file_read_healthy_cases:
  assumes "healthy f"
  obtains (data) k f' where "file_read n f = (Ok (take k (drop (f_pos f) (f_data f))), f')"
      "f_data f' = f_data f" "f_pos f' = f_pos f + min k (length (f_data f) - f_pos f)"
      "healthy f'" "k \<le> n" "0 < n \<longrightarrow> 0 < k"
  | (interrupted) e f' where "file_read n f = (Err e, f')" "kind_of e = Interrupted"
      "f_data f' = f_data f" "f_pos f' = f_pos f" "healthy f'"
proof (cases "f_script f")
  case Nil
  show thesis
    by (rule data [of n "f\<lparr>f_pos := f_pos f + min n (length (f_data f) - f_pos f)\<rparr>"])
       (use Nil assms in \<open>auto simp: file_read_def Let_def healthy_def min.commute\<close>)
next
  case (Cons ev es)
  show thesis
  proof (cases ev)
    case (Short k)
    show thesis
      by (rule data [of "min n (Suc k)"
            "f\<lparr>f_pos := f_pos f + min (min n (Suc k)) (length (f_data f) - f_pos f), f_script := es\<rparr>"])
         (use Cons Short assms in \<open>auto simp: file_read_def Let_def healthy_def min.commute\<close>)
  next
    case Interrupt
    show thesis
      by (rule interrupted [of _ "f\<lparr>f_script := es\<rparr>"])
         (use Cons Interrupt assms in \<open>auto simp: file_read_def healthy_def\<close>)
  next
    case (Fault e)
    then show thesis using Cons assms by (simp add: healthy_def)
  qed
qed

text \<open>What is left of a file from its position.\<close>

definition rest_len :: "handle \<Rightarrow> nat" where
  "rest_len f = length (f_data f) - f_pos f"

definition loop_result :: "(nat \<Rightarrow> (io_error, bytes) res) \<Rightarrow> nat \<Rightarrow> bytes \<Rightarrow> (io_error, bytes) res" where
  "loop_result eof n avail = (if n \<le> length avail then Ok (take n avail)
     else (case eof (n - length avail) of
         Ok r \<Rightarrow> Ok (avail @ r) | Err e \<Rightarrow> Err e | Panic \<Rightarrow> Panic))"

lemma loop_result_step:
  assumes "k \<le> n" "0 < length (take k avail)"
  shows "(case loop_result eof (n - length (take k avail)) (drop k avail) of
      Ok rest \<Rightarrow> Ok (take k avail @ rest) | Err e \<Rightarrow> Err e | Panic \<Rightarrow> Panic) = loop_result eof n avail"
proof (cases "k \<le> length avail")
  case True
  then have "take n avail = take k avail @ take (n - k) (drop k avail)"
    using assms(1) by (metis le_add_diff_inverse take_add)
  then show ?thesis using True assms
    by (auto simp: loop_result_def min_def append_assoc [symmetric] simp del: append_assoc
        split: res.splits)
next
  case False
  then show ?thesis using assms by (auto simp: loop_result_def min_def split: res.splits)
qed

text \<open>
  On a file without failures the loop returns the bytes at the position, however the calls split
  them up, and calls \<open>eof\<close> exactly when the file ends too early.
\<close>

lemma read_loop_healthy:
  assumes "healthy f"
  shows "\<exists>f'. f_data f' = f_data f \<and> healthy f' \<and>
    read_loop eof n f = (loop_result eof n (drop (f_pos f) (f_data f)), f')"
  using assms
proof (induction eof n f rule: read_loop.induct)
  case (1 eof n f)
  show ?case
  proof (cases "n = 0")
    case True
    then show ?thesis using 1(3) by (auto simp: read_loop.simps loop_result_def)
  next
    case n: False
    from 1(3) show ?thesis
    proof (cases rule: file_read_healthy_cases [where n = n])
      case (data k f')
      let ?av = "drop (f_pos f) (f_data f)"
      show ?thesis
      proof (cases "take k ?av = []")
        case True
        then have "?av = []" using data(6) n by auto
        then show ?thesis using data n
          by (auto simp: read_loop.simps [of eof n f] loop_result_def split: res.splits)
      next
        case bs: False
        have av': "drop (f_pos f') (f_data f') = drop k ?av"
          using data(2,3) by (simp add: min_def add.commute)
        from 1(1) [OF n data(1) [symmetric] refl bs] data(4)
        obtain f'' where f'': "f_data f'' = f_data f" "healthy f''"
            "read_loop eof (n - length (take k ?av)) f' =
              (loop_result eof (n - length (take k ?av)) (drop k ?av), f'')"
          using data(2) av' by auto
        show ?thesis
        proof (intro exI [of _ f''] conjI f''(1,2))
          have "read_loop eof n f = (case loop_result eof (n - length (take k ?av)) (drop k ?av) of
              Ok rest \<Rightarrow> Ok (take k ?av @ rest) | Err e \<Rightarrow> Err e | Panic \<Rightarrow> Panic, f'')"
            using n data(1) bs f''(3) by (simp add: read_loop.simps [of eof n f] split: res.splits)
          also have "\<dots> = (loop_result eof n ?av, f'')"
            by (subst loop_result_step [OF data(5)]) (use bs in blast, rule refl)
          finally show "read_loop eof n f = (loop_result eof n ?av, f'')" .
        qed
      qed
    next
      case (interrupted e f')
      then show ?thesis using 1(2) [OF n interrupted(1) [symmetric] refl] n
        by (simp add: read_loop.simps [of eof n f])
    qed
  qed
qed

lemma read_exact_healthy:
  assumes "healthy f"
  shows "\<exists>f'. f_data f' = f_data f \<and> healthy f' \<and>
    read_exact n f = (if n \<le> rest_len f
      then Ok (window (byte_fun (f_data f)) (f_pos f) n) else Err eof_error, f')"
proof -
  have "n \<le> rest_len f \<Longrightarrow> take n (drop (f_pos f) (f_data f)) = window (byte_fun (f_data f)) (f_pos f) n"
    by (cases "f_pos f \<le> length (f_data f)") (auto simp: rest_len_def intro: take_drop_window)
  then show ?thesis using read_loop_healthy [OF assms, of "\<lambda>_. Err eof_error" n]
    by (auto simp: read_exact_def loop_result_def rest_len_def)
qed

lemma read_to_end_healthy:
  assumes "healthy f" and "f_pos f = 0"
  shows "\<exists>f'. f_data f' = f_data f \<and> healthy f' \<and> read_to_end f = (Ok (f_data f), f')"
  using read_loop_healthy [OF assms(1), of "\<lambda>_. Ok []" "Suc (length (f_data f))"] assms(2)
  by (auto simp: read_to_end_def loop_result_def)

section \<open>What they return when the operating system may fail\<close>

lemma file_read_cases:
  obtains (data) k f' where "file_read n f = (Ok (take k (drop (f_pos f) (f_data f))), f')"
      "f_data f' = f_data f" "f_pos f' = f_pos f + min k (length (f_data f) - f_pos f)"
      "k \<le> n" "0 < n \<longrightarrow> 0 < k"
  | (failed) e f' where "file_read n f = (Err e, f')" "f_data f' = f_data f" "f_pos f' = f_pos f"
proof (cases "f_script f")
  case Nil
  show thesis
    by (rule data [of n "f\<lparr>f_pos := f_pos f + min n (length (f_data f) - f_pos f)\<rparr>"])
       (use Nil in \<open>auto simp: file_read_def Let_def min.commute\<close>)
next
  case (Cons ev es)
  show thesis
  proof (cases ev)
    case (Short k)
    show thesis
      by (rule data [of "min n (Suc k)"
            "f\<lparr>f_pos := f_pos f + min (min n (Suc k)) (length (f_data f) - f_pos f), f_script := es\<rparr>"])
         (use Cons Short in \<open>auto simp: file_read_def Let_def min.commute\<close>)
  next
    case Interrupt
    show thesis
      by (rule failed [of _ "f\<lparr>f_script := es\<rparr>"]) (use Cons Interrupt in \<open>auto simp: file_read_def\<close>)
  next
    case (Fault e)
    show thesis
      by (rule failed [of e "f\<lparr>f_script := es\<rparr>"]) (use Cons Fault in \<open>auto simp: file_read_def\<close>)
  qed
qed

text \<open>A read that the operating system may break off at any call returns an error or the bytes the
  file has; it never changes the file.\<close>

lemma read_loop_safe:
  "read_loop eof n f = (r, f') \<Longrightarrow>
    f_data f' = f_data f \<and> ((\<exists>e. r = Err e) \<or> r = loop_result eof n (drop (f_pos f) (f_data f)))"
proof (induction eof n f arbitrary: r f' rule: read_loop.induct)
  case (1 eof n f)
  show ?case
  proof (cases "n = 0")
    case True
    then show ?thesis using 1(3) by (auto simp: read_loop.simps loop_result_def)
  next
    case n: False
    show ?thesis
    proof (cases rule: file_read_cases [of n f])
      case (data k f1)
      let ?av = "drop (f_pos f) (f_data f)"
      show ?thesis
      proof (cases "take k ?av = []")
        case True
        then have "?av = []" using data(5) n by auto
        then show ?thesis using 1(3) data n
          by (auto simp: read_loop.simps [of eof n f] loop_result_def split: res.splits)
      next
        case bs: False
        have av': "drop (f_pos f1) (f_data f1) = drop k ?av"
          using data(2,3) by (simp add: min_def add.commute)
        obtain r1 f2 where r1: "read_loop eof (n - length (take k ?av)) f1 = (r1, f2)" by fastforce
        have IH: "f_data f2 = f_data f"
            "(\<exists>e. r1 = Err e) \<or> r1 = loop_result eof (n - length (take k ?av)) (drop k ?av)"
          using 1(1) [OF n data(1) [symmetric] refl bs r1] data(2) av' by auto
        have "(r, f') = (case r1 of Ok rest \<Rightarrow> Ok (take k ?av @ rest) | Err e \<Rightarrow> Err e | Panic \<Rightarrow> Panic, f2)"
          using 1(3) n data(1) bs r1 by (cases r1) (auto simp: read_loop.simps [of eof n f])
        then show ?thesis using IH loop_result_step [OF data(4), of ?av eof] bs by (auto split: res.splits)
      qed
    next
      case (failed e f1)
      have eq: "read_loop eof n f = (if kind_of e = Interrupted then read_loop eof n f1 else (Err e, f1))"
        using n failed(1) by (simp add: read_loop.simps [of eof n f])
      show ?thesis
      proof (cases "kind_of e = Interrupted")
        case True
        then have "read_loop eof n f1 = (r, f')" using eq 1(3) by simp
        from 1(2) [OF n failed(1) [symmetric] refl True this] failed(2,3) show ?thesis by simp
      qed (use eq 1(3) failed in auto)
    qed
  qed
qed

lemma read_exact_safe:
  assumes "read_exact n f = (r, f')"
  shows "f_data f' = f_data f" "r \<noteq> Panic"
    "r = Ok bs \<Longrightarrow> bs = window (byte_fun (f_data f)) (f_pos f) n"
proof -
  from read_loop_safe [OF assms [unfolded read_exact_def]]
  have *: "f_data f' = f_data f" "(\<exists>e. r = Err e) \<or>
      r = loop_result (\<lambda>_. Err eof_error) n (drop (f_pos f) (f_data f))" by auto
  show "f_data f' = f_data f" "r \<noteq> Panic" using * by (auto simp: loop_result_def split: if_splits)
  assume "r = Ok bs"
  then have "n \<le> length (f_data f) - f_pos f" "bs = take n (drop (f_pos f) (f_data f))"
    using *(2) by (auto simp: loop_result_def split: if_splits)
  then show "bs = window (byte_fun (f_data f)) (f_pos f) n"
    by (cases "n = 0") (auto intro: take_drop_window)
qed

end
