(* ===== verification/Vmdk.thy ===== *)
theory Vmdk
  imports Host_File
begin

unbundle bit_operations_syntax

text \<open>
  \<open>src/vms/vmdk.rs\<close>: the native VMDK reader.

  The first sections translate the sparse header, the text descriptor and the sparse extent with
  its grain directory and its grain tables loaded on demand.  The laws give the meaning of an
  extent as a byte function, \<open>extent_byte\<close>, computed from the file alone, and show that
  \<open>read_at\<close> returns exactly that function's window whatever tables are cached, and keeps the
  cache coherent.
\<close>

section \<open>Sparse extent header\<close>

definition SECTOR :: nat where
  "SECTOR = 512"

definition MAGIC_KDMV :: bytes where
  "MAGIC_KDMV = [0x4B, 0x44, 0x4D, 0x56]"

definition FLAG_GRAINS_COMPRIMIDOS :: nat where
  "FLAG_GRAINS_COMPRIMIDOS = 2 ^ 16"

definition FLAG_MARCADORES :: nat where
  "FLAG_MARCADORES = 2 ^ 17"

datatype 'a open_result = Native 'a | NeedsNbd string

record sparse_header =
  sh_version :: nat
  sh_flags :: nat
  sh_capacity_sectors :: nat
  sh_grain_sectors :: nat
  sh_descriptor_offset :: nat
  sh_descriptor_sectors :: nat
  sh_gtes_per_gt :: nat
  sh_rgd_offset :: nat
  sh_gd_offset :: nat
  sh_compression :: nat

definition is_sparse_header :: "bytes \<Rightarrow> bool" where
  "is_sparse_header buf = (4 \<le> length buf \<and> take 4 buf = MAGIC_KDMV)"

definition field_at :: "bytes \<Rightarrow> string \<Rightarrow> nat \<Rightarrow> nat \<Rightarrow> (io_error, nat) res" where
  "field_at buf what n at = (case get_range buf at (at + n) of
       Some s \<Rightarrow> Ok (le_nat s)
     | None \<Rightarrow> Err (IoError InvalidData (''Buffer too small for '' @ what)))"

abbreviation u32_at :: "bytes \<Rightarrow> nat \<Rightarrow> (io_error, nat) res" where
  "u32_at buf \<equiv> field_at buf ''u32'' 4"

abbreviation u64_at :: "bytes \<Rightarrow> nat \<Rightarrow> (io_error, nat) res" where
  "u64_at buf \<equiv> field_at buf ''u64'' 8"

definition read_sparse_header :: "bytes \<Rightarrow> (io_error, sparse_header) res" where
  "read_sparse_header buf =
     (if length buf < 80 \<or> \<not> is_sparse_header buf
      then Err (IoError InvalidData ''Invalid VMDK sparse header'')
      else and_then (u32_at buf 4) (\<lambda>version.
           and_then (u32_at buf 8) (\<lambda>flags.
           and_then (u64_at buf 12) (\<lambda>capacity.
           and_then (u64_at buf 20) (\<lambda>grain.
           and_then (u64_at buf 28) (\<lambda>doff.
           and_then (u64_at buf 36) (\<lambda>dsec.
           and_then (u32_at buf 44) (\<lambda>gtes.
           and_then (u64_at buf 48) (\<lambda>rgd.
           and_then (u64_at buf 56) (\<lambda>gd.
             Ok \<lparr>sh_version = version, sh_flags = flags, sh_capacity_sectors = capacity,
                 sh_grain_sectors = grain, sh_descriptor_offset = doff, sh_descriptor_sectors = dsec,
                 sh_gtes_per_gt = gtes, sh_rgd_offset = rgd, sh_gd_offset = gd,
                 sh_compression = le_nat [buf ! 77, buf ! 78]\<rparr>))))))))))"

fun is_power_of_two :: "nat \<Rightarrow> bool" where
  "is_power_of_two n = (if n = 0 then False else if n = 1 then True
     else if even n then is_power_of_two (n div 2) else False)"

declare is_power_of_two.simps [simp del]

definition unsupported_reason :: "sparse_header \<Rightarrow> string option" where
  "unsupported_reason cab =
     (if sh_compression cab \<noteq> 0
         \<or> sh_flags cab AND (FLAG_GRAINS_COMPRIMIDOS OR FLAG_MARCADORES) \<noteq> 0
      then Some ''VMDK with compressed grains (streamOptimized)''
      else if sh_gd_offset cab = 2 ^ 64 - 1 \<or> sh_gd_offset cab = 0
      then Some ''VMDK without a grain directory in its header''
      else if sh_grain_sectors cab = 0 \<or> \<not> is_power_of_two (sh_grain_sectors cab)
      then Some (''VMDK with unsupported grain size ('' @ dec_str (sh_grain_sectors cab) @ '' sectors)'')
      else if sh_gtes_per_gt cab = 0 \<or> sh_capacity_sectors cab = 0
      then Some ''VMDK with inconsistent sparse header''
      else None)"

section \<open>Text descriptor\<close>

record extent_descriptor =
  ed_access :: string
  ed_sectors :: nat
  ed_kind :: string
  ed_file :: "string option"
  ed_offset_sectors :: nat

record descriptor =
  ds_create_type :: string
  ds_parent_cid :: "nat option"
  ds_parent_hint :: "string option"
  ds_extents :: "extent_descriptor list"

definition default_descriptor :: descriptor where
  "default_descriptor = \<lparr>ds_create_type = '''', ds_parent_cid = None, ds_parent_hint = None,
     ds_extents = []\<rparr>"

definition has_parent :: "descriptor \<Rightarrow> bool" where
  "has_parent d =
     ((case ds_parent_hint d of None \<Rightarrow> False | Some h \<Rightarrow> trim h \<noteq> [])
      \<or> (case ds_parent_cid d of Some cid \<Rightarrow> cid \<noteq> 0xFFFFFFFF | None \<Rightarrow> False))"

definition open_component_file ::
    "host \<Rightarrow> path \<Rightarrow> path \<Rightarrow> string \<Rightarrow> string \<Rightarrow> (vm_error, handle) res" where
  "open_component_file h p dpath dname ctype =
     map_err (from_disk_component_io dpath dname p ctype ''open'') (open_read_file h p)"

definition ensure_component_exists ::
    "host \<Rightarrow> path \<Rightarrow> string \<Rightarrow> path \<Rightarrow> string \<Rightarrow> (vm_error, unit) res" where
  "ensure_component_exists h dpath dname rpath ctype =
     map_err (from_disk_component_io dpath dname rpath ctype ''stat'')
       (and_then (host_metadata h rpath) (\<lambda>_. Ok ()))"

definition is_text_descriptor :: "bytes \<Rightarrow> bool" where
  "is_text_descriptor buf = starts_with (trim_start (utf8_lossy (take 64 buf))) ''# Disk DescriptorFile''"

definition is_line_padding :: "char \<Rightarrow> bool" where
  "is_line_padding c = (c \<in> {char_of (0 :: nat), CHR '' '', char_of (9 :: nat), char_of (13 :: nat)})"

text \<open>The loop of \<open>tokenize\<close>: the rest of the line, the current token, inside quotes or not.\<close>

fun tokenize_from :: "string \<Rightarrow> string \<Rightarrow> bool \<Rightarrow> string list" where
  "tokenize_from [] cur q = (if cur \<noteq> [] then [cur] else [])"
| "tokenize_from (c # cs) cur q =
     (if c = CHR 0x22 then tokenize_from cs cur (\<not> q)
      else if (c = CHR '' '' \<or> c = char_of (9 :: nat)) \<and> \<not> q
      then (if cur \<noteq> [] then cur # tokenize_from cs [] q else tokenize_from cs [] q)
      else tokenize_from cs (cur @ [c]) q)"

definition tokenize :: "string \<Rightarrow> string list" where
  "tokenize line = tokenize_from line [] False"

definition option_or :: "'a option \<Rightarrow> 'a \<Rightarrow> 'a" where
  "option_or x d = (case x of Some v \<Rightarrow> v | None \<Rightarrow> d)"

text \<open>One line of the loop of \<open>parse_descriptor\<close>, trimmed of its padding first.\<close>

definition parse_extent_line :: "string list \<Rightarrow> descriptor \<Rightarrow> descriptor" where
  "parse_extent_line tokens d =
     d\<lparr>ds_extents := ds_extents d @
        [\<lparr>ed_access = to_ascii_uppercase (tokens ! 0),
          ed_sectors = option_or (parse_uint 64 10 (tokens ! 1)) 0,
          ed_kind = to_ascii_uppercase (tokens ! 2),
          ed_file = get_at tokens 3,
          ed_offset_sectors = option_or (Option.bind (get_at tokens 4) (parse_uint 64 10)) 0\<rparr>]\<rparr>"

definition parse_key_line :: "string \<Rightarrow> descriptor \<Rightarrow> descriptor" where
  "parse_key_line line d = (case split_once (CHR ''='') line of
       None \<Rightarrow> d
     | Some (k, v) \<Rightarrow>
         (let key = to_ascii_lowercase (trim k); value = trim_matches (\<lambda>c. c = CHR 0x22) (trim v) in
          if key = ''createtype'' then d\<lparr>ds_create_type := value\<rparr>
          else if key = ''parentcid'' then d\<lparr>ds_parent_cid := parse_uint 32 16 value\<rparr>
          else if key = ''parentfilenamehint'' then d\<lparr>ds_parent_hint := Some value\<rparr>
          else d))"

definition parse_descriptor_line :: "string \<Rightarrow> descriptor \<Rightarrow> descriptor" where
  "parse_descriptor_line raw d =
     (let line = trim_matches is_line_padding raw; tokens = tokenize line in
      if line = [] \<or> hd line = CHR ''#'' \<or> tokens = [] then d
      else if to_ascii_uppercase (tokens ! 0) \<in> {''RW'', ''RDONLY'', ''NOACCESS''} \<and> 3 \<le> length tokens
      then parse_extent_line tokens d
      else parse_key_line line d)"

definition parse_descriptor :: "string \<Rightarrow> descriptor" where
  "parse_descriptor txt = fold parse_descriptor_line (lines txt) default_descriptor"

section \<open>Sparse extent\<close>

record sparse_extent =
  se_file :: handle
  se_grain_bytes :: nat
  se_gtes_per_gt :: nat
  se_capacity_bytes :: nat
  se_directory :: "nat list"
  se_tables :: "nat \<rightharpoonup> nat list"

text \<open>\<open>read_or_zeros\<close>: a file that ends early is continued with zeroes.\<close>

definition read_or_zeros :: "nat \<Rightarrow> (handle, io_error, bytes) io" where
  "read_or_zeros n = read_loop (\<lambda>missing. Ok (replicate missing 0)) n"

text \<open>The grain directory \<open>from_header\<close> reads: the redundant one when the header has it.\<close>

definition directory_sector :: "sparse_header \<Rightarrow> nat" where
  "directory_sector cab = (if sh_flags cab AND 2 \<noteq> 0 \<and> sh_rgd_offset cab \<noteq> 0
     \<and> sh_rgd_offset cab \<noteq> 2 ^ 64 - 1 then sh_rgd_offset cab else sh_gd_offset cab)"

definition from_header :: "bool \<Rightarrow> handle \<Rightarrow> sparse_header \<Rightarrow> (io_error, sparse_extent open_result) res" where
  "from_header oc f cab = (case unsupported_reason cab of
       Some reason \<Rightarrow> Ok (NeedsNbd reason)
     | None \<Rightarrow>
         and_then (mul64 oc (sh_grain_sectors cab) SECTOR) (\<lambda>grain_bytes.
         and_then (mul64 oc grain_bytes (sh_gtes_per_gt cab)) (\<lambda>bytes_per_gt.
         and_then (mul64 oc (sh_capacity_sectors cab) SECTOR) (\<lambda>capacity_bytes.
         and_then (div_ceil64 capacity_bytes bytes_per_gt) (\<lambda>num_gts.
           if num_gts > 2 ^ 20
           then Ok (NeedsNbd ''VMDK with a disproportionate grain directory'')
           else
             and_then (mul64 oc (directory_sector cab) SECTOR) (\<lambda>gd_pos.
                (case io_bind (seek_start gd_pos) (\<lambda>_. read_exact (num_gts * 4)) f of
                   (Ok raw, f') \<Rightarrow> Ok (Native \<lparr>se_file = f', se_grain_bytes = grain_bytes,
                       se_gtes_per_gt = sh_gtes_per_gt cab, se_capacity_bytes = capacity_bytes,
                       se_directory = chunks4 raw, se_tables = Map.empty\<rparr>)
                 | (Err e, _) \<Rightarrow> Err e
                 | (Panic, _) \<Rightarrow> Panic)))))))"

definition open_sparse ::
    "bool \<Rightarrow> host \<Rightarrow> path \<Rightarrow> path \<Rightarrow> string \<Rightarrow> string \<Rightarrow> (vm_error, sparse_extent open_result) res" where
  "open_sparse oc h p dpath dname ctype =
     and_then (open_component_file h p dpath dname ctype) (\<lambda>f.
       map_err (from_disk_component_io dpath dname p ctype ''read'')
         (case read_exact 512 f of
            (r, f') \<Rightarrow> and_then r (\<lambda>buf. and_then (read_sparse_header buf) (from_header oc f'))))"

definition on_file :: "(handle, io_error, 'a) io \<Rightarrow> (sparse_extent, io_error, 'a) io" where
  "on_file m e = (case m (se_file e) of (r, f') \<Rightarrow> (r, e\<lparr>se_file := f'\<rparr>))"

text \<open>\<open>SparseExtent::table\<close>.\<close>

definition grain_table :: "nat \<Rightarrow> (sparse_extent, io_error, nat list option) io" where
  "grain_table gd_index e = (case get_at (se_directory e) gd_index of
       None \<Rightarrow> (Ok None, e)
     | Some g \<Rightarrow>
         if g \<le> 1 then (Ok None, e)
         else if se_tables e gd_index \<noteq> None then (Ok (se_tables e gd_index), e)
         else io_bind (on_file (seek_start (g * SECTOR))) (\<lambda>_.
              io_bind (on_file (read_exact (se_gtes_per_gt e * 4))) (\<lambda>raw e'.
                (Ok (Some (chunks4 raw)), e'\<lparr>se_tables := (se_tables e')(gd_index \<mapsto> chunks4 raw)\<rparr>))) e)"

text \<open>The body of the loop of \<open>SparseExtent::read_at\<close>: \<open>n\<close> bytes at \<open>pos\<close>, within one grain.\<close>

definition read_grain :: "bool \<Rightarrow> nat \<Rightarrow> nat \<Rightarrow> (sparse_extent, io_error, bytes) io" where
  "read_grain oc pos n e =
     (let grain = pos div se_grain_bytes e;
          within = pos mod se_grain_bytes e;
          gd_index = grain div se_gtes_per_gt e mod 2 ^ 32;
          gte_index = grain mod se_gtes_per_gt e
      in io_bind (grain_table gd_index) (\<lambda>t.
           (let grain_sector = option_or (Option.bind t (\<lambda>t. get_at t gte_index)) 0 in
            if grain_sector > 1
            then io_bind (io_lift (add64 oc (grain_sector * SECTOR) within)) (\<lambda>at.
                 io_bind (on_file (seek_start at)) (\<lambda>_. on_file (read_or_zeros n)))
            else io_ret (replicate n 0))) e)"

function read_at_from :: "bool \<Rightarrow> nat \<Rightarrow> nat \<Rightarrow> nat \<Rightarrow> bytes \<Rightarrow> sparse_extent
    \<Rightarrow> (io_error, bytes) res \<times> sparse_extent" where
  "read_at_from oc offset tot filled buf e =
     (if filled < tot then
        (if se_grain_bytes e = 0 \<or> se_gtes_per_gt e = 0 then (Panic, e)
         else
           (let pos = offset + filled;
                n = min (se_grain_bytes e - pos mod se_grain_bytes e) (tot - filled)
            in (case read_grain oc pos n e of
                  (Ok bs, e') \<Rightarrow> read_at_from oc offset tot (filled + n) (splice buf filled bs) e'
                | (Err x, e') \<Rightarrow> (Err x, e')
                | (Panic, e') \<Rightarrow> (Panic, e'))))
      else (Ok buf, e))"
  by pat_completeness auto
termination
proof (relation "measure (\<lambda>(oc, offset, tot, filled, buf, e). tot - filled)", goal_cases)
  case (2 oc offset tot filled buf e pos n)
  then have "pos mod se_grain_bytes e < se_grain_bytes e" by simp
  then have "0 < n" using 2 by simp
  then show ?case using 2 by simp
qed simp

declare read_at_from.simps [simp del]

definition read_at :: "bool \<Rightarrow> nat \<Rightarrow> bytes \<Rightarrow> (sparse_extent, io_error, nat \<times> bytes) io" where
  "read_at oc offset buf e =
     (if se_capacity_bytes e \<le> offset then (Ok (0, buf), e)
      else
        (let tot = min (length buf) (se_capacity_bytes e - offset) in
         io_bind (read_at_from oc offset tot 0 buf) (\<lambda>buf'. io_ret (tot, buf')) e))"

text \<open>\<open>resolve_extent_path\<close>: relative to the directory of the descriptor.\<close>

definition resolve_extent_path :: "path \<Rightarrow> string \<Rightarrow> path" where
  "resolve_extent_path dpath name =
     (if is_absolute name then name
      else (case parent dpath of Some d \<Rightarrow> join_path d name | None \<Rightarrow> name))"

section \<open>The meaning of an extent\<close>

text \<open>The grain table the directory entry \<open>i\<close> points to, the sector of a grain, and the byte the
  virtual disk has at a position: functions of the file, the directory and the geometry only.\<close>

definition table_at :: "sparse_extent \<Rightarrow> nat \<Rightarrow> nat list" where
  "table_at e i = chunks4 (window (byte_fun (f_data (se_file e))) (se_directory e ! i * SECTOR)
     (se_gtes_per_gt e * 4))"

definition allocated :: "sparse_extent \<Rightarrow> nat \<Rightarrow> bool" where
  "allocated e i = (i < length (se_directory e) \<and> 1 < se_directory e ! i)"

definition grain_sector_of :: "sparse_extent \<Rightarrow> nat \<Rightarrow> nat" where
  "grain_sector_of e g =
     (let i = g div se_gtes_per_gt e in
      if allocated e i then table_at e i ! (g mod se_gtes_per_gt e) else 0)"

definition extent_byte :: "sparse_extent \<Rightarrow> nat \<Rightarrow> byte" where
  "extent_byte e p =
     (let s = grain_sector_of e (p div se_grain_bytes e) in
      if s > 1 then byte_fun (f_data (se_file e)) (s * SECTOR + p mod se_grain_bytes e) else 0)"

text \<open>
  A well-formed extent: a geometry whose directory covers the capacity, and a table cache that holds
  what the file holds.  A readable one has no failing reads and its tables inside the file.
\<close>

definition wf_extent :: "sparse_extent \<Rightarrow> bool" where
  "wf_extent e \<longleftrightarrow>
     0 < se_grain_bytes e \<and> se_grain_bytes e \<le> 2 ^ 62 \<and> 0 < se_gtes_per_gt e \<and>
     se_capacity_bytes e \<le> length (se_directory e) * (se_gtes_per_gt e * se_grain_bytes e) \<and>
     length (se_directory e) \<le> 2 ^ 20 \<and> (\<forall>g \<in> set (se_directory e). g < 2 ^ 32) \<and>
     (\<forall>i t. se_tables e i = Some t \<longrightarrow> allocated e i \<and> t = table_at e i)"

definition readable :: "sparse_extent \<Rightarrow> bool" where
  "readable e \<longleftrightarrow> healthy (se_file e) \<and>
     (\<forall>g \<in> set (se_directory e). 1 < g \<longrightarrow>
        g * SECTOR + se_gtes_per_gt e * 4 \<le> length (f_data (se_file e)))"

text \<open>Reading changes the file position and the cached tables, nothing else.\<close>

definition same_extent :: "sparse_extent \<Rightarrow> sparse_extent \<Rightarrow> bool" where
  "same_extent e e' \<longleftrightarrow>
     f_data (se_file e') = f_data (se_file e) \<and> se_grain_bytes e' = se_grain_bytes e \<and>
     se_gtes_per_gt e' = se_gtes_per_gt e \<and> se_capacity_bytes e' = se_capacity_bytes e \<and>
     se_directory e' = se_directory e"

definition reads_to :: "sparse_extent \<Rightarrow> sparse_extent \<Rightarrow> bool" where
  "reads_to e e' \<longleftrightarrow> same_extent e e' \<and> wf_extent e' \<and> readable e'"

section \<open>Laws\<close>

lemma is_power_of_two_iff: "is_power_of_two n \<longleftrightarrow> (\<exists>k. n = 2 ^ k)"
proof (induction n rule: is_power_of_two.induct)
  case (1 n)
  show ?case
  proof (cases "n \<le> 1")
    case True
    then show ?thesis by (auto simp: is_power_of_two.simps [of n] le_Suc_eq intro: exI [of _ 0])
  next
    case False
    show ?thesis
    proof (cases "even n")
      case True
      then obtain m where m: "n = 2 * m" by blast
      have "(\<exists>k. 2 * m = 2 ^ k) \<longleftrightarrow> (\<exists>k. m = 2 ^ k)"
      proof
        assume "\<exists>k. 2 * m = 2 ^ k"
        then obtain k where k: "2 * m = 2 ^ k" by blast
        then have "k \<noteq> 0" using m False by (cases k) auto
        then show "\<exists>k. m = 2 ^ k" using k by (cases k) auto
      qed (metis power_Suc)
      moreover have "is_power_of_two n = is_power_of_two m"
        using False m by (subst is_power_of_two.simps) simp
      moreover have "is_power_of_two m = (\<exists>k. m = 2 ^ k)" using 1 False True m by simp
      ultimately show ?thesis using m by simp
    next
      case odd: False
      have "n \<noteq> 2 ^ k" for k using odd False by (cases k) auto
      then show ?thesis using odd False by (simp add: is_power_of_two.simps [of n])
    qed
  qed
qed

lemma SECTOR_val [simp]: "SECTOR = 512"
  by (simp add: SECTOR_def)

lemma loop_result_zeros:
  "loop_result (\<lambda>missing. Ok (replicate missing 0)) n (drop (f_pos f) (f_data f)) =
    Ok (window (byte_fun (f_data f)) (f_pos f) n)"
  by (auto simp: loop_result_def intro!: nth_equalityI) (auto simp: byte_fun_def nth_append)

lemma read_or_zeros_healthy:
  assumes "healthy f"
  shows "\<exists>f'. f_data f' = f_data f \<and> healthy f' \<and>
    read_or_zeros n f = (Ok (window (byte_fun (f_data f)) (f_pos f) n), f')"
  using read_loop_healthy [OF assms] loop_result_zeros unfolding read_or_zeros_def by metis

lemma read_or_zeros_safe:
  assumes "read_or_zeros n f = (r, f')"
  shows "f_data f' = f_data f" "r \<noteq> Panic" "r = Ok bs \<Longrightarrow> bs = window (byte_fun (f_data f)) (f_pos f) n"
proof -
  let ?w = "window (byte_fun (f_data f)) (f_pos f) n"
  have "loop_result (\<lambda>missing. Ok (replicate missing 0)) n (drop (f_pos f) (f_data f)) = Ok ?w"
    by (rule loop_result_zeros)
  with read_loop_safe [OF assms [unfolded read_or_zeros_def]]
  show "f_data f' = f_data f" "r \<noteq> Panic" "r = Ok bs \<Longrightarrow> bs = ?w" by auto
qed

lemma same_extent_refl [simp]: "same_extent e e"
  by (simp add: same_extent_def)

lemma same_extent_trans: "same_extent e e' \<Longrightarrow> same_extent e' e'' \<Longrightarrow> same_extent e e''"
  by (simp add: same_extent_def)

lemma reads_to_trans: "reads_to e e' \<Longrightarrow> reads_to e' e'' \<Longrightarrow> reads_to e e''"
  by (auto simp: reads_to_def intro: same_extent_trans)

lemma same_extent_meaning:
  assumes "same_extent e e'"
  shows "table_at e' i = table_at e i" "allocated e' i = allocated e i"
    "extent_byte e' p = extent_byte e p"
  using assms
  by (simp_all add: same_extent_def table_at_def allocated_def extent_byte_def grain_sector_of_def Let_def)

text \<open>Moving the file handle keeps an extent well-formed and readable.\<close>

lemma reads_to_file:
  assumes "wf_extent e" "readable e" "f_data f' = f_data (se_file e)" "healthy f'"
  shows "reads_to e (e\<lparr>se_file := f'\<rparr>)"
proof -
  have s: "same_extent e (e\<lparr>se_file := f'\<rparr>)" using assms(3) by (simp add: same_extent_def)
  then show ?thesis using assms
    by (simp add: reads_to_def wf_extent_def readable_def same_extent_meaning [OF s])
qed

lemma on_file_seek:
  assumes "wf_extent e" "readable e" "p < 2 ^ 63"
  shows "\<exists>e'. on_file (seek_start p) e = (Ok p, e') \<and> reads_to e e' \<and> f_pos (se_file e') = p
    \<and> se_tables e' = se_tables e"
proof -
  have "on_file (seek_start p) e = (Ok p, e\<lparr>se_file := (se_file e)\<lparr>f_pos := p\<rparr>\<rparr>)"
    using assms(3) by (simp add: on_file_def seek_start_def)
  moreover have "reads_to e (e\<lparr>se_file := (se_file e)\<lparr>f_pos := p\<rparr>\<rparr>)"
    by (rule reads_to_file) (use assms in \<open>auto simp: readable_def healthy_def\<close>)
  ultimately show ?thesis by force
qed

lemma on_file_read:
  assumes "wf_extent e" "readable e"
    and m: "\<exists>f'. f_data f' = f_data (se_file e) \<and> healthy f' \<and> m (se_file e) = (r, f')"
  shows "\<exists>e'. on_file m e = (r, e') \<and> reads_to e e' \<and> se_tables e' = se_tables e"
proof -
  from m obtain f' where f': "f_data f' = f_data (se_file e)" "healthy f'" "m (se_file e) = (r, f')"
    by blast
  then show ?thesis using reads_to_file [OF assms(1,2) f'(1,2)] by (force simp: on_file_def)
qed

lemma length_table_at [simp]: "length (table_at e i) = se_gtes_per_gt e"
  by (simp add: table_at_def)

text \<open>Caching the table the file holds keeps the cache coherent.\<close>

lemma cache_table:
  assumes "same_extent e e2" "wf_extent e2" "allocated e i"
  shows "same_extent e (e2\<lparr>se_tables := (se_tables e2)(i \<mapsto> table_at e i)\<rparr>)"
    "wf_extent (e2\<lparr>se_tables := (se_tables e2)(i \<mapsto> table_at e i)\<rparr>)"
proof -
  let ?e3 = "e2\<lparr>se_tables := (se_tables e2)(i \<mapsto> table_at e i)\<rparr>"
  show s: "same_extent e ?e3" using assms(1) by (simp add: same_extent_def)
  show "wf_extent ?e3" using assms(2,3)
    by (simp add: wf_extent_def same_extent_meaning [OF s] same_extent_meaning [OF assms(1)])
qed

lemma grain_table_correct:
  assumes "wf_extent e" "readable e"
  shows "\<exists>e'. reads_to e e' \<and>
    grain_table i e = (Ok (if allocated e i then Some (table_at e i) else None), e')"
proof (cases "allocated e i")
  case False
  then have "grain_table i e = (Ok None, e)"
    by (auto simp: grain_table_def allocated_def get_at_def)
  then show ?thesis using False assms by (auto simp: reads_to_def)
next
  case al: True
  let ?g = "se_directory e ! i"
  have get: "get_at (se_directory e) i = Some ?g" and g1: "1 < ?g" and mem: "?g \<in> set (se_directory e)"
    using al by (auto simp: allocated_def get_at_def)
  show ?thesis
  proof (cases "se_tables e i")
    case (Some t)
    then have "t = table_at e i" using assms(1) by (simp add: wf_extent_def)
    then have "grain_table i e = (Ok (Some (table_at e i)), e)" using Some get g1
      by (simp add: grain_table_def)
    then show ?thesis using al assms by (auto simp: reads_to_def)
  next
    case None
    let ?n = "se_gtes_per_gt e * 4"
    have g32: "?g < 2 ^ 32" using assms(1) mem by (simp add: wf_extent_def)
    obtain e1 where e1: "on_file (seek_start (?g * SECTOR)) e = (Ok (?g * SECTOR), e1)"
        "reads_to e e1" "f_pos (se_file e1) = ?g * SECTOR"
      using on_file_seek [OF assms, of "?g * SECTOR"] g32 by auto
    have in_file: "?n \<le> rest_len (se_file e1)"
    proof -
      have "?g * SECTOR + ?n \<le> length (f_data (se_file e))" using assms(2) mem g1 by (simp add: readable_def)
      then show ?thesis using e1(2,3) by (simp add: rest_len_def reads_to_def same_extent_def)
    qed
    let ?raw = "window (byte_fun (f_data (se_file e))) (?g * SECTOR) ?n"
    have rd: "\<exists>f'. f_data f' = f_data (se_file e1) \<and> healthy f' \<and>
        read_exact ?n (se_file e1) = (Ok ?raw, f')"
      using read_exact_healthy [of "se_file e1" ?n] e1(2,3) in_file
      by (auto simp: reads_to_def readable_def same_extent_def)
    obtain e2 where e2: "on_file (read_exact ?n) e1 = (Ok ?raw, e2)" "reads_to e1 e2"
      using on_file_read [of e1 "read_exact ?n", OF _ _ rd] e1(2) unfolding reads_to_def by blast
    let ?e3 = "e2\<lparr>se_tables := (se_tables e2)(i \<mapsto> table_at e i)\<rparr>"
    have eq: "grain_table i e = (Ok (Some (table_at e i)), ?e3)"
      using get g1 None e1(1) e2(1) by (simp add: grain_table_def io_bind_def table_at_def)
    have r2: "reads_to e e2" using reads_to_trans [OF e1(2) e2(2)] .
    then have s: "same_extent e ?e3" and "wf_extent ?e3"
      using al by (auto simp: reads_to_def intro: cache_table)
    moreover have "readable ?e3" using r2 by (simp add: reads_to_def readable_def)
    ultimately show ?thesis using eq s al by (auto simp: reads_to_def)
  qed
qed

lemma within_grain:
  assumes "(0 :: nat) < gb" "i < gb - p mod gb"
  shows "(p + i) div gb = p div gb" "(p + i) mod gb = p mod gb + i"
proof -
  have "(p mod gb + i) < gb" using assms by simp
  moreover have "p + i = p mod gb + i + gb * (p div gb)" using mult_div_mod_eq [of gb p] by linarith
  ultimately show "(p + i) div gb = p div gb" "(p + i) mod gb = p mod gb + i"
    using assms(1) by (simp_all only: div_mult_self2 mod_mult_self2 div_less mod_less)
qed

lemma directory_covers:
  assumes "wf_extent e" "p < se_capacity_bytes e"
  shows "p div se_grain_bytes e div se_gtes_per_gt e < length (se_directory e)"
proof -
  have "p < length (se_directory e) * (se_gtes_per_gt e * se_grain_bytes e)"
    using assms by (simp add: wf_extent_def)
  then have "p div (se_gtes_per_gt e * se_grain_bytes e) < length (se_directory e)"
    by (rule less_mult_imp_div_less)
  then show ?thesis by (simp add: div_mult2_eq [symmetric] mult.commute)
qed

text \<open>What the body of the read loop computes with: the directory index, the grain's sector, the
  position in the file, and the bytes of the range.\<close>

lemma grain_facts:
  assumes wf: "wf_extent e" and pos: "pos < se_capacity_bytes e"
    and n: "n \<le> se_grain_bytes e - pos mod se_grain_bytes e"
  defines "g \<equiv> pos div se_grain_bytes e" and "w \<equiv> pos mod se_grain_bytes e"
  defines "i \<equiv> g div se_gtes_per_gt e" and "s \<equiv> grain_sector_of e g"
  shows "i mod 2 ^ 32 = i"
    "option_or (Option.bind (if allocated e i then Some (table_at e i) else None)
      (\<lambda>t. get_at t (g mod se_gtes_per_gt e))) 0 = s"
    "s * SECTOR + w < 2 ^ 63"
    "s > 1 \<Longrightarrow> window (byte_fun (f_data (se_file e))) (s * SECTOR + w) n = window (extent_byte e) pos n"
    "\<not> s > 1 \<Longrightarrow> replicate n 0 = window (extent_byte e) pos n"
proof -
  have gb: "0 < se_grain_bytes e" "se_grain_bytes e \<le> 2 ^ 62" and gtes: "0 < se_gtes_per_gt e"
    using wf by (auto simp: wf_extent_def)
  show "i mod 2 ^ 32 = i" using directory_covers [OF wf pos] wf by (simp add: wf_extent_def i_def g_def)
  show "option_or (Option.bind (if allocated e i then Some (table_at e i) else None)
      (\<lambda>t. get_at t (g mod se_gtes_per_gt e))) 0 = s"
    using gtes by (simp add: option_or_def get_at_def grain_sector_of_def Let_def s_def i_def)
  have "table_at e i ! (g mod se_gtes_per_gt e) \<in> set (table_at e i)" using gtes by (intro nth_mem) simp
  then have "table_at e i ! (g mod se_gtes_per_gt e) < 2 ^ 32" unfolding table_at_def by (rule chunks4_bound)
  then have "s < 2 ^ 32" by (simp add: grain_sector_of_def Let_def s_def i_def)
  moreover have "w < se_grain_bytes e" using gb by (simp add: w_def)
  ultimately show "s * SECTOR + w < 2 ^ 63" using gb(2) by simp
  have byte: "extent_byte e (pos + k) =
      (if s > 1 then byte_fun (f_data (se_file e)) (s * SECTOR + w + k) else 0)" if "k < n" for k
  proof -
    have "k < se_grain_bytes e - pos mod se_grain_bytes e" using that n by simp
    from within_grain [OF gb(1) this] show ?thesis
      by (simp add: extent_byte_def Let_def add.assoc s_def g_def w_def)
  qed
  show "s > 1 \<Longrightarrow> window (byte_fun (f_data (se_file e))) (s * SECTOR + w) n = window (extent_byte e) pos n"
    by (rule nth_equalityI) (use byte in auto)
  show "\<not> s > 1 \<Longrightarrow> replicate n 0 = window (extent_byte e) pos n"
    by (rule nth_equalityI) (use byte in auto)
qed

lemma read_grain_correct:
  assumes wf: "wf_extent e" and rd: "readable e" and pos: "pos < se_capacity_bytes e"
    and n: "n \<le> se_grain_bytes e - pos mod se_grain_bytes e"
  shows "\<exists>e'. reads_to e e' \<and> read_grain oc pos n e = (Ok (window (extent_byte e) pos n), e')"
proof -
  let ?g = "pos div se_grain_bytes e" and ?w = "pos mod se_grain_bytes e"
  let ?i = "?g div se_gtes_per_gt e" and ?s = "grain_sector_of e ?g"
  note grain = grain_facts [OF wf pos n]
  obtain e1 where e1: "reads_to e e1"
      "grain_table ?i e = (Ok (if allocated e ?i then Some (table_at e ?i) else None), e1)"
    using grain_table_correct [OF wf rd] by blast
  show ?thesis
  proof (cases "?s > 1")
    case False
    then show ?thesis using e1 grain(1,2,5) by (auto simp: read_grain_def Let_def io_bind_def)
  next
    case True
    have add: "add64 oc (?s * SECTOR) ?w = (Ok (?s * SECTOR + ?w) :: (io_error, nat) res)"
      using grain(3) by (intro add64_ok) simp
    obtain e2 where e2: "on_file (seek_start (?s * SECTOR + ?w)) e1 = (Ok (?s * SECTOR + ?w), e2)"
        "reads_to e1 e2" "f_pos (se_file e2) = ?s * SECTOR + ?w"
      using on_file_seek [of e1 "?s * SECTOR + ?w"] e1(1) grain(3) by (auto simp: reads_to_def)
    have r2: "reads_to e e2" using reads_to_trans [OF e1(1) e2(2)] .
    let ?bs = "window (byte_fun (f_data (se_file e))) (?s * SECTOR + ?w) n"
    have "\<exists>f'. f_data f' = f_data (se_file e2) \<and> healthy f' \<and> read_or_zeros n (se_file e2) = (Ok ?bs, f')"
      using read_or_zeros_healthy [of "se_file e2" n] r2 e2(3)
      by (auto simp: reads_to_def readable_def same_extent_def)
    then obtain e3 where e3: "on_file (read_or_zeros n) e2 = (Ok ?bs, e3)" "reads_to e2 e3"
      using on_file_read [of e2 "read_or_zeros n" "Ok ?bs"] r2 unfolding reads_to_def by blast
    have "read_grain oc pos n e = (Ok ?bs, e3)"
      using e1(2) grain(1,2) True add e2(1) e3(1) by (simp add: read_grain_def Let_def io_bind_def)
    then show ?thesis using grain(4) True reads_to_trans [OF r2 e3(2)] by auto
  qed
qed

lemma read_at_from_correct:
  assumes "wf_extent e" "readable e" "offset + tot \<le> se_capacity_bytes e" "tot \<le> length buf"
    "filled \<le> tot"
  shows "\<exists>e'. reads_to e e' \<and> read_at_from oc offset tot filled buf e =
    (Ok (take filled buf @ window (extent_byte e) (offset + filled) (tot - filled) @ drop tot buf), e')"
  using assms
proof (induction oc offset tot filled buf e rule: read_at_from.induct)
  case (1 oc offset tot filled buf e)
  show ?case
  proof (cases "filled < tot")
    case False
    then have "filled = tot" using 1(6) by simp
    then show ?thesis using 1(2,3) by (auto simp: read_at_from.simps [of oc offset tot] reads_to_def)
  next
    case lt: True
    have ok: "\<not> (se_grain_bytes e = 0 \<or> se_gtes_per_gt e = 0)" using 1(2) by (simp add: wf_extent_def)
    define n where "n = min (se_grain_bytes e - (offset + filled) mod se_grain_bytes e) (tot - filled)"
    obtain e1 where e1: "reads_to e e1"
        "read_grain oc (offset + filled) n e = (Ok (window (extent_byte e) (offset + filled) n), e1)"
      using read_grain_correct [OF 1(2,3), of "offset + filled" n oc] lt 1(4) by (auto simp: n_def)
    let ?buf1 = "splice buf filled (window (extent_byte e) (offset + filled) n)"
    have n_le: "filled + n \<le> tot" using lt by (simp add: n_def)
    have caps: "se_capacity_bytes e1 = se_capacity_bytes e" "same_extent e e1"
      using e1(1) by (auto simp: reads_to_def same_extent_def)
    have len: "length ?buf1 = length buf" using n_le 1(5) by (simp add: length_splice)
    obtain e2 where e2: "reads_to e1 e2" "read_at_from oc offset tot (filled + n) ?buf1 e1 =
        (Ok (take (filled + n) ?buf1 @ window (extent_byte e1) (offset + (filled + n)) (tot - (filled + n))
          @ drop tot ?buf1), e2)"
      using 1(1) [OF lt ok refl n_def e1(2) [symmetric] refl] e1(1) caps 1(4,5) n_le len
      by (auto simp: reads_to_def)
    have tk: "take (filled + n) ?buf1 = take filled buf @ window (extent_byte e) (offset + filled) n"
      using take_splice_end [of filled "window (extent_byte e) (offset + filled) n" buf] n_le 1(5) by simp
    have dr: "drop tot ?buf1 = drop tot buf"
      using drop_splice [of filled "window (extent_byte e) (offset + filled) n" tot buf] n_le 1(5) by simp
    have ext: "extent_byte e1 = extent_byte e" using same_extent_meaning(3) [OF caps(2)] by blast
    have "tot - filled = n + (tot - (filled + n))" using n_le by simp
    then have win: "window (extent_byte e) (offset + filled) (tot - filled) =
        window (extent_byte e) (offset + filled) n @
        window (extent_byte e) (offset + (filled + n)) (tot - (filled + n))"
      using window_append [of "extent_byte e" "offset + filled" n] by (simp add: add.assoc)
    have "read_at_from oc offset tot filled buf e = read_at_from oc offset tot (filled + n) ?buf1 e1"
      using lt ok e1(2) by (simp add: read_at_from.simps [of oc offset tot filled] Let_def n_def)
    then show ?thesis using e2 tk dr ext win reads_to_trans [OF e1(1) e2(1)] by auto
  qed
qed

section \<open>Reading when the operating system may fail\<close>

text \<open>A step from \<open>e\<close> that may return an error but does not panic, keeps the extent and its
  cache coherent, and satisfies \<open>Q\<close> when it succeeds.\<close>

definition keeps :: "sparse_extent \<Rightarrow> sparse_extent \<Rightarrow> bool" where
  "keeps e e' \<longleftrightarrow> same_extent e e' \<and> wf_extent e'"

definition safe :: "sparse_extent \<Rightarrow> ('a \<Rightarrow> sparse_extent \<Rightarrow> bool) \<Rightarrow> (io_error, 'a) res \<times> sparse_extent \<Rightarrow> bool"
  where "safe e Q x \<longleftrightarrow> keeps e (snd x) \<and> fst x \<noteq> Panic \<and> (\<forall>a. fst x = Ok a \<longrightarrow> Q a (snd x))"

lemma safe_bind:
  assumes "safe e P (m e)" and "\<And>a e'. keeps e e' \<Longrightarrow> P a e' \<Longrightarrow> safe e' Q (f a e')"
  shows "safe e Q (io_bind m f e)"
proof (cases "m e")
  case (Pair r e')
  show ?thesis
  proof (cases r)
    case (Ok a)
    then have k: "keeps e e'" "P a e'" using assms(1) Pair by (auto simp: safe_def)
    from assms(2) [OF this] have "safe e' Q (f a e')" .
    then show ?thesis using k(1) Pair Ok
      by (auto simp: safe_def keeps_def intro: same_extent_trans)
  qed (use assms(1) Pair in \<open>auto simp: safe_def\<close>)
qed

lemma safe_ret: "wf_extent e \<Longrightarrow> Q a e \<Longrightarrow> safe e Q (Ok a, e)"
  by (simp add: safe_def keeps_def)

lemma keeps_file:
  assumes "wf_extent e" "f_data f' = f_data (se_file e)"
  shows "keeps e (e\<lparr>se_file := f'\<rparr>)"
proof -
  have s: "same_extent e (e\<lparr>se_file := f'\<rparr>)" using assms(2) by (simp add: same_extent_def)
  then show ?thesis using assms by (simp add: keeps_def wf_extent_def same_extent_meaning [OF s])
qed

lemma safe_seek: "wf_extent e \<Longrightarrow> safe e (\<lambda>_ e'. f_pos (se_file e') = p) (on_file (seek_start p) e)"
  using keeps_file [of e "se_file e"] keeps_file [of e "(se_file e)\<lparr>f_pos := p\<rparr>"]
  by (simp add: safe_def on_file_def seek_start_def)

lemma safe_read_exact:
  assumes "wf_extent e"
  shows "safe e (\<lambda>bs _. bs = window (byte_fun (f_data (se_file e))) (f_pos (se_file e)) n)
    (on_file (read_exact n) e)"
proof (cases "read_exact n (se_file e)")
  case (Pair r f')
  from read_exact_safe [OF this] show ?thesis using keeps_file [OF assms, of f'] Pair
    by (auto simp: safe_def on_file_def)
qed

lemma safe_read_or_zeros:
  assumes "wf_extent e"
  shows "safe e (\<lambda>bs _. bs = window (byte_fun (f_data (se_file e))) (f_pos (se_file e)) n)
    (on_file (read_or_zeros n) e)"
proof (cases "read_or_zeros n (se_file e)")
  case (Pair r f')
  from read_or_zeros_safe [OF this] show ?thesis using keeps_file [OF assms, of f'] Pair
    by (auto simp: safe_def on_file_def)
qed

lemma safe_grain_table:
  assumes "wf_extent e"
  shows "safe e (\<lambda>t _. t = (if allocated e i then Some (table_at e i) else None)) (grain_table i e)"
proof (cases "allocated e i")
  case False
  then have "grain_table i e = (Ok None, e)" by (auto simp: grain_table_def allocated_def get_at_def)
  then show ?thesis using False assms by (simp add: safe_ret)
next
  case al: True
  then have get: "get_at (se_directory e) i = Some (se_directory e ! i)" "1 < se_directory e ! i"
    by (auto simp: allocated_def get_at_def)
  show ?thesis
  proof (cases "se_tables e i")
    case (Some t)
    then have "t = table_at e i" using assms by (simp add: wf_extent_def)
    then have "grain_table i e = (Ok (Some (table_at e i)), e)" using Some get by (simp add: grain_table_def)
    then show ?thesis using al assms by (simp add: safe_ret)
  next
    case None
    let ?p = "se_directory e ! i * SECTOR" and ?n = "se_gtes_per_gt e * 4"
    have eq: "grain_table i e = io_bind (on_file (seek_start ?p)) (\<lambda>_.
        io_bind (on_file (read_exact ?n)) (\<lambda>raw e'.
          (Ok (Some (chunks4 raw)), e'\<lparr>se_tables := (se_tables e')(i \<mapsto> chunks4 raw)\<rparr>))) e"
      using get None by (simp add: grain_table_def)
    have last: "safe e2 (\<lambda>t _. t = Some (table_at e i))
        (Ok (Some (chunks4 raw)), e2\<lparr>se_tables := (se_tables e2)(i \<mapsto> chunks4 raw)\<rparr>)"
      if "keeps e e2" "raw = window (byte_fun (f_data (se_file e))) ?p ?n" for e2 raw
    proof -
      let ?e3 = "e2\<lparr>se_tables := (se_tables e2)(i \<mapsto> chunks4 raw)\<rparr>"
      have t: "chunks4 raw = table_at e i" using that(2) by (simp add: table_at_def)
      have "wf_extent ?e3" using cache_table(2) [of e e2] that(1) al t by (simp add: keeps_def)
      then show ?thesis using t by (simp add: safe_def keeps_def same_extent_def)
    qed
    have mid: "safe e1 (\<lambda>t _. t = Some (table_at e i)) (io_bind (on_file (read_exact ?n)) (\<lambda>raw e'.
          (Ok (Some (chunks4 raw)), e'\<lparr>se_tables := (se_tables e')(i \<mapsto> chunks4 raw)\<rparr>)) e1)"
      if k: "keeps e e1" and p: "f_pos (se_file e1) = ?p" for e1
    proof (rule safe_bind [where m = "on_file (read_exact ?n)", OF safe_read_exact])
      show "wf_extent e1" using k by (simp add: keeps_def)
      fix raw e2
      assume "keeps e1 e2" "raw = window (byte_fun (f_data (se_file e1))) (f_pos (se_file e1)) ?n"
      then show "safe e2 (\<lambda>t _. t = Some (table_at e i))
          (Ok (Some (chunks4 raw)), e2\<lparr>se_tables := (se_tables e2)(i \<mapsto> chunks4 raw)\<rparr>)"
        using k p by (intro last) (auto simp: keeps_def same_extent_def)
    qed
    show ?thesis unfolding eq
      by (rule safe_bind [where m = "on_file (seek_start ?p)", OF safe_seek [OF assms]])
         (use al mid in simp)
  qed
qed

lemma safe_read_grain:
  assumes wf: "wf_extent e" and pos: "pos < se_capacity_bytes e"
    and n: "n \<le> se_grain_bytes e - pos mod se_grain_bytes e"
  shows "safe e (\<lambda>bs _. bs = window (extent_byte e) pos n) (read_grain oc pos n e)"
proof -
  let ?g = "pos div se_grain_bytes e" and ?w = "pos mod se_grain_bytes e"
  let ?i = "?g div se_gtes_per_gt e" and ?s = "grain_sector_of e ?g"
  let ?t = "if allocated e ?i then Some (table_at e ?i) else None"
  note grain = grain_facts [OF wf pos n]
  have body: "safe e1 (\<lambda>bs _. bs = window (extent_byte e) pos n)
      ((if ?s > 1
        then io_bind (io_lift (add64 oc (?s * SECTOR) ?w)) (\<lambda>at.
             io_bind (on_file (seek_start at)) (\<lambda>_. on_file (read_or_zeros n)))
        else io_ret (replicate n 0)) e1)" if k: "keeps e e1" for e1
  proof (cases "?s > 1")
    case True
    have eq: "io_bind (io_lift (add64 oc (?s * SECTOR) ?w)) (\<lambda>at.
        io_bind (on_file (seek_start at)) (\<lambda>_. on_file (read_or_zeros n))) e1 =
        io_bind (on_file (seek_start (?s * SECTOR + ?w))) (\<lambda>_. on_file (read_or_zeros n)) e1"
      using grain(3) by (intro io_bind_Ok) simp
    have w1: "wf_extent e1" using k by (simp add: keeps_def)
    have "safe e1 (\<lambda>bs _. bs = window (extent_byte e) pos n)
        (io_bind (on_file (seek_start (?s * SECTOR + ?w))) (\<lambda>_. on_file (read_or_zeros n)) e1)"
    proof (rule safe_bind [where m = "on_file (seek_start (?s * SECTOR + ?w))", OF safe_seek [OF w1]])
      fix e2
      assume k2: "keeps e1 e2" and p: "f_pos (se_file e2) = ?s * SECTOR + ?w"
      have "window (byte_fun (f_data (se_file e2))) (f_pos (se_file e2)) n = window (extent_byte e) pos n"
        using grain(4) True k k2 p by (simp add: keeps_def same_extent_def)
      then show "safe e2 (\<lambda>bs _. bs = window (extent_byte e) pos n) (on_file (read_or_zeros n) e2)"
        using safe_read_or_zeros [of e2 n] k2 by (simp add: keeps_def)
    qed
    then show ?thesis using True eq by simp
  next
    case False
    then show ?thesis using grain(5) k by (simp add: safe_ret keeps_def)
  qed
  have "read_grain oc pos n e = io_bind (grain_table ?i) (\<lambda>t.
      if option_or (Option.bind t (\<lambda>t. get_at t (?g mod se_gtes_per_gt e))) 0 > 1
      then io_bind (io_lift (add64 oc (option_or (Option.bind t (\<lambda>t. get_at t (?g mod se_gtes_per_gt e))) 0
             * SECTOR) ?w)) (\<lambda>at.
           io_bind (on_file (seek_start at)) (\<lambda>_. on_file (read_or_zeros n)))
      else io_ret (replicate n 0)) e"
    using grain(1) by (simp add: read_grain_def Let_def)
  then show ?thesis using grain(2) body
    by (auto intro!: safe_bind [where m = "grain_table ?i", OF safe_grain_table [OF wf, of ?i]]
        simp del: bind_eq_Some_conv)
qed

lemma read_at_from_safe:
  assumes "wf_extent e" "offset + tot \<le> se_capacity_bytes e" "tot \<le> length buf" "filled \<le> tot"
  shows "safe e (\<lambda>b _. b = take filled buf @ window (extent_byte e) (offset + filled) (tot - filled)
    @ drop tot buf) (read_at_from oc offset tot filled buf e)"
  using assms
proof (induction oc offset tot filled buf e rule: read_at_from.induct)
  case (1 oc offset tot filled buf e)
  show ?case
  proof (cases "filled < tot")
    case False
    then have "filled = tot" using 1(5) by simp
    then show ?thesis using 1(2) by (simp add: read_at_from.simps [of oc offset tot] safe_ret)
  next
    case lt: True
    have ok: "\<not> (se_grain_bytes e = 0 \<or> se_gtes_per_gt e = 0)" using 1(2) by (simp add: wf_extent_def)
    define n where "n = min (se_grain_bytes e - (offset + filled) mod se_grain_bytes e) (tot - filled)"
    have n_le: "filled + n \<le> tot" using lt by (simp add: n_def)
    let ?rg = "read_grain oc (offset + filled) n"
    have eq: "read_at_from oc offset tot filled buf e =
        io_bind ?rg (\<lambda>bs. read_at_from oc offset tot (filled + n) (splice buf filled bs)) e"
      using lt ok by (simp add: read_at_from.simps [of oc offset tot filled] Let_def n_def io_bind_def)
    have rg: "safe e (\<lambda>bs e'. bs = window (extent_byte e) (offset + filled) n \<and> ?rg e = (Ok bs, e')) (?rg e)"
      using safe_read_grain [OF 1(2), of "offset + filled" n oc] lt 1(3)
      by (cases "?rg e") (auto simp: n_def safe_def)
    show ?thesis unfolding eq
    proof (rule safe_bind [where m = ?rg, OF rg])
      fix bs e1
      assume k: "keeps e e1" and bs: "bs = window (extent_byte e) (offset + filled) n \<and> ?rg e = (Ok bs, e1)"
      then have st: "?rg e = (Ok bs, e1)" and bsw: "bs = window (extent_byte e) (offset + filled) n" by auto
      have same: "se_capacity_bytes e1 = se_capacity_bytes e" "extent_byte e1 = extent_byte e" "wf_extent e1"
        using k same_extent_meaning(3) [of e e1] by (auto simp: keeps_def same_extent_def)
      have tot: "tot - filled = n + (tot - (filled + n))" using n_le by simp
      have "take (filled + n) (splice buf filled bs) @
          window (extent_byte e) (offset + (filled + n)) (tot - (filled + n)) @ drop tot (splice buf filled bs) =
          take filled buf @ window (extent_byte e) (offset + filled) (tot - filled) @ drop tot buf"
        using take_splice_end [of filled bs buf] drop_splice [of filled bs tot buf] n_le 1(4) bsw
          window_append [of "extent_byte e" "offset + filled" n "tot - (filled + n)"]
        by (subst tot) (simp add: add.assoc)
      moreover have "length (splice buf filled bs) = length buf" using n_le 1(4) bsw by (simp add: length_splice)
      ultimately show "safe e1 (\<lambda>b _. b = take filled buf @
          window (extent_byte e) (offset + filled) (tot - filled) @ drop tot buf)
          (read_at_from oc offset tot (filled + n) (splice buf filled bs) e1)"
        using 1(1) [OF lt ok refl n_def st [symmetric] refl] same 1(3,4) n_le by simp
    qed
  qed
qed

lemma read_at_total:
  assumes "wf_extent e" and "readable e" and "n = min (length buf) (se_capacity_bytes e - offset)"
  shows "\<exists>e'. reads_to e e' \<and>
    read_at oc offset buf e = (Ok (n, window (extent_byte e) offset n @ drop n buf), e')"
proof (cases "se_capacity_bytes e \<le> offset")
  case True
  then show ?thesis using assms by (auto simp: read_at_def reads_to_def)
next
  case False
  then have "offset + n \<le> se_capacity_bytes e" "n \<le> length buf" using assms(3) by auto
  from read_at_from_correct [OF assms(1,2) this, of 0 oc] obtain e' where "reads_to e e'"
      "read_at_from oc offset n 0 buf e = (Ok (window (extent_byte e) offset n @ drop n buf), e')"
    by auto
  then show ?thesis using False assms(3) by (auto simp: read_at_def Let_def)
qed

lemma read_at_safe:
  assumes "wf_extent e" and "n = min (length buf) (se_capacity_bytes e - offset)"
  shows "safe e (\<lambda>x _. x = (n, window (extent_byte e) offset n @ drop n buf)) (read_at oc offset buf e)"
proof (cases "se_capacity_bytes e \<le> offset")
  case True
  then show ?thesis using assms by (simp add: read_at_def safe_ret)
next
  case False
  then have "offset + n \<le> se_capacity_bytes e" "n \<le> length buf" using assms(2) by auto
  from read_at_from_safe [OF assms(1) this, of 0 oc]
  have rd: "safe e (\<lambda>b _. b = window (extent_byte e) offset n @ drop n buf)
    (read_at_from oc offset n 0 buf e)" by simp
  have "read_at oc offset buf e = io_bind (read_at_from oc offset n 0 buf) (\<lambda>b. io_ret (n, b)) e"
    using False assms(2) by (simp add: read_at_def Let_def)
  then show ?thesis
    using safe_bind [where m = "read_at_from oc offset n 0 buf" and f = "\<lambda>b. io_ret (n, b)", OF rd]
    by (auto simp: safe_ret keeps_def)
qed

section \<open>Opening an extent\<close>

text \<open>The geometry of a header that can be addressed with 63-bit offsets.\<close>

definition header_fits :: "sparse_header \<Rightarrow> bool" where
  "header_fits cab \<longleftrightarrow> sh_grain_sectors cab \<le> 2 ^ 53 \<and>
     sh_grain_sectors cab * SECTOR * sh_gtes_per_gt cab < 2 ^ 64 \<and>
     sh_capacity_sectors cab * SECTOR < 2 ^ 64"

lemma supported_geometry:
  "unsupported_reason cab = None \<Longrightarrow>
    0 < sh_grain_sectors cab \<and> 0 < sh_gtes_per_gt cab \<and> 0 < sh_capacity_sectors cab"
  by (auto simp: unsupported_reason_def split: if_splits)

lemma wf_extent_opened:
  assumes "0 < gb" "gb \<le> 2 ^ 62" "0 < gtes" "div_ceil64 cap (gb * gtes) = Ok k" "k \<le> 2 ^ 20"
    "length raw = k * 4"
  shows "wf_extent \<lparr>se_file = f, se_grain_bytes = gb, se_gtes_per_gt = gtes, se_capacity_bytes = cap,
    se_directory = chunks4 raw, se_tables = Map.empty\<rparr>"
proof -
  have "cap \<le> k * (gtes * gb)"
  proof (cases "cap = 0")
    case False
    have "(cap - 1) div (gb * gtes) < k"
      using div_ceil64_covers [OF assms(4), of "cap - 1"] False by simp
    then have "cap - 1 < k * (gb * gtes)" using assms(1,3)
      by (simp add: div_less_iff_less_mult)
    then show ?thesis by (simp add: mult.commute)
  qed simp
  then show ?thesis using assms chunks4_bound [of _ raw]
    by (simp add: wf_extent_def)
qed

lemma from_header_native:
  assumes ok: "from_header oc f cab = Ok (Native e)" and fits: "header_fits cab" and f: "healthy f"
  shows "wf_extent e \<and> se_tables e = Map.empty \<and> f_data (se_file e) = f_data f \<and> healthy (se_file e) \<and>
    se_capacity_bytes e = sh_capacity_sectors cab * SECTOR \<and>
    se_grain_bytes e = sh_grain_sectors cab * SECTOR \<and> se_gtes_per_gt e = sh_gtes_per_gt cab \<and>
    se_directory e = chunks4 (window (byte_fun (f_data f)) (directory_sector cab * SECTOR mod 2 ^ 64)
      (length (se_directory e) * 4))"
proof -
  have sup: "unsupported_reason cab = None"
    using ok by (auto simp: from_header_def split: option.splits)
  note geo = supported_geometry [OF sup]
  let ?gb = "sh_grain_sectors cab * SECTOR" and ?gtes = "sh_gtes_per_gt cab"
  let ?cap = "sh_capacity_sectors cab * SECTOR"
  have "?gb * 1 \<le> ?gb * ?gtes" using geo by (intro mult_le_mono2) simp
  then have fits': "?gb < 2 ^ 64" "?gb * ?gtes < 2 ^ 64" "?cap < 2 ^ 64" "?gb \<le> 2 ^ 62"
    using fits by (simp_all add: header_fits_def)
  note muls = mul64_ok [OF fits'(1)] mul64_ok [OF fits'(2)] mul64_ok [OF fits'(3)]
  obtain k where k: "div_ceil64 ?cap (?gb * ?gtes) = (Ok k :: (io_error, nat) res)"
    using geo by (simp add: div_ceil64_def)
  have "\<exists>p raw f'. k \<le> 2 ^ 20 \<and> p = directory_sector cab * SECTOR mod 2 ^ 64 \<and>
      io_bind (seek_start p) (\<lambda>_. read_exact (k * 4)) f = (Ok raw, f') \<and>
      e = \<lparr>se_file = f', se_grain_bytes = ?gb, se_gtes_per_gt = ?gtes, se_capacity_bytes = ?cap,
        se_directory = chunks4 raw, se_tables = Map.empty\<rparr>"
    using ok mul64_mod [of oc "directory_sector cab" SECTOR, where ?'a = io_error]
    by (auto simp: from_header_def sup muls k and_then_eq_Ok
        io_run_eq_Ok simp del: SECTOR_val mul64_ok split: if_splits)
  then obtain p raw f' where small: "k \<le> 2 ^ 20" and p: "p = directory_sector cab * SECTOR mod 2 ^ 64"
      and rd: "io_bind (seek_start p) (\<lambda>_. read_exact (k * 4)) f = (Ok raw, f')"
      and e: "e = \<lparr>se_file = f', se_grain_bytes = ?gb, se_gtes_per_gt = ?gtes, se_capacity_bytes = ?cap,
        se_directory = chunks4 raw, se_tables = Map.empty\<rparr>"
    by blast
  have rd': "read_exact (k * 4) (f\<lparr>f_pos := p\<rparr>) = (Ok raw, f')"
    using rd by (auto simp: res_simps seek_start_def split: if_splits)
  have "healthy (f\<lparr>f_pos := p\<rparr>)" using f by (simp add: healthy_def)
  from read_exact_healthy [OF this, of "k * 4"] rd'
  have raw: "raw = window (byte_fun (f_data f)) p (k * 4)" "f_data f' = f_data f" "healthy f'"
    by (auto split: if_splits)
  have pos: "0 < ?gb" "0 < ?gtes" and len: "length raw = k * 4" using geo raw(1) by simp_all
  from wf_extent_opened [OF pos(1) fits'(4) pos(2) k small len] show ?thesis
    using e raw p by simp
qed

section \<open>A sample extent\<close>

text \<open>One grain of one sector: the directory is loaded, its table at sector 2 points to sector 3.\<close>

definition sample_extent :: sparse_extent where
  "sample_extent = \<lparr>se_file = \<lparr>f_data = replicate 1024 0 @ [3, 0, 0, 0] @ replicate 508 0 @ [9, 8],
       f_pos = 0, f_script = [Short 0, Interrupt]\<rparr>,
     se_grain_bytes = 512, se_gtes_per_gt = 1, se_capacity_bytes = 512, se_directory = [2],
     se_tables = Map.empty\<rparr>"

lemma sample_extent_ok: "wf_extent sample_extent" "readable sample_extent"
  by (simp_all add: sample_extent_def wf_extent_def readable_def healthy_def)

lemma sample_extent_bytes: "window (extent_byte sample_extent) 0 3 = [9, 8, 0]"
proof -
  have t: "table_at sample_extent 0 = [3]"
    by (simp add: table_at_def sample_extent_def window_def byte_fun_def nth_append upt_rec_numeral)
  have "grain_sector_of sample_extent 0 = 3"
    using t by (simp add: grain_sector_of_def Let_def allocated_def sample_extent_def)
  then have "extent_byte sample_extent p = byte_fun (f_data (se_file sample_extent)) (1536 + p)"
    if "p < 512" for p
    using that by (simp add: extent_byte_def Let_def sample_extent_def)
  moreover have "window g 0 3 = [g 0, g 1, g 2]" for g :: "nat \<Rightarrow> byte"
    by (simp add: window_def numeral_3_eq_3 numeral_2_eq_2)
  ultimately show ?thesis by (simp add: byte_fun_def sample_extent_def nth_append)
qed

definition sample_header :: sparse_header where
  "sample_header = \<lparr>sh_version = 1, sh_flags = 3, sh_capacity_sectors = 1, sh_grain_sectors = 1,
     sh_descriptor_offset = 0, sh_descriptor_sectors = 0, sh_gtes_per_gt = 1, sh_rgd_offset = 0,
     sh_gd_offset = 1, sh_compression = 0\<rparr>"

section \<open>Properties\<close>

text \<open>C5. Reading a well-formed sparse extent whose grain tables lie inside its file returns
  exactly the bytes the file's grain directory and grain tables define, cut at the capacity, and
  leaves the rest of the buffer alone, whatever grain tables are already cached, however the
  operating system splits the reads, and in either build; the extent it leaves is well-formed,
  readable and has the same contents.\<close>

theorem read_at_correct:
  assumes "wf_extent e" and "readable e" and "n = min (length buf) (se_capacity_bytes e - offset)"
  shows "\<exists>e'. reads_to e e' \<and>
    read_at oc offset buf e = (Ok (n, window (extent_byte e) offset n @ drop n buf), e')"
  by (rule read_at_total [OF assms])

theorem read_at_correct_witness:
  "\<exists>e'. reads_to sample_extent e' \<and>
    read_at True 0 [1, 1, 1] sample_extent = (Ok (3, [9, 8, 0]), e')"
  using read_at_correct [OF sample_extent_ok, of 3 "[1, 1, 1]" 0 True] sample_extent_bytes
  by (simp add: sample_extent_def)

text \<open>C30. When the operating system may fail at any call, a read of a well-formed extent still
  never panics and never returns wrong bytes: it is either an error or exactly what the file
  defines, and in both cases the extent stays well-formed with the same contents, so that no failed
  load leaves a wrong grain table in the cache.\<close>

theorem read_at_under_faults:
  assumes "wf_extent e" and "n = min (length buf) (se_capacity_bytes e - offset)"
    and "read_at oc offset buf e = (r, e')"
  shows "r \<noteq> Panic \<and> same_extent e e' \<and> wf_extent e' \<and>
    (\<forall>x. r = Ok x \<longrightarrow> x = (n, window (extent_byte e) offset n @ drop n buf))"
  using read_at_safe [OF assms(1,2), of oc] assms(3) by (auto simp: safe_def keeps_def)

theorem read_at_under_faults_witness:
  "fst (read_at False 0 [1, 1, 1] (sample_extent\<lparr>se_file := (se_file sample_extent)
      \<lparr>f_script := [Fault eof_error]\<rparr>\<rparr>)) \<noteq> Panic"
proof -
  let ?e = "sample_extent\<lparr>se_file := (se_file sample_extent)\<lparr>f_script := [Fault eof_error]\<rparr>\<rparr>"
  obtain r e' where rd: "read_at False 0 [1, 1, 1] ?e = (r, e')" by (cases "read_at False 0 [1, 1, 1] ?e")
  have "wf_extent ?e" by (simp add: sample_extent_def wf_extent_def)
  from read_at_under_faults [OF this _ rd, of 3] rd show ?thesis by (simp add: sample_extent_def)
qed

text \<open>C29. An extent that \<open>from_header\<close> opens natively, from a header whose geometry fits,
  is well-formed: its directory covers its capacity, it starts with no cached table, and its
  capacity, grain size and directory are those of the header and the file.\<close>

theorem from_header_opens_wf:
  assumes "from_header oc f cab = Ok (Native e)" and "header_fits cab" and "healthy f"
  shows "wf_extent e \<and> se_tables e = Map.empty \<and> f_data (se_file e) = f_data f \<and>
    se_capacity_bytes e = sh_capacity_sectors cab * SECTOR \<and>
    se_grain_bytes e = sh_grain_sectors cab * SECTOR \<and>
    se_directory e = chunks4 (window (byte_fun (f_data f)) (directory_sector cab * SECTOR mod 2 ^ 64)
      (length (se_directory e) * 4))"
  using from_header_native [OF assms] by blast

lemma sample_header_opens:
  "\<exists>e. from_header True (fresh_file (replicate 512 0 @ [2, 0, 0, 0])) sample_header = Ok (Native e)"
proof -
  let ?f = "fresh_file (replicate 512 0 @ [2, 0, 0, 0])"
  have "unsupported_reason sample_header = None"
    by (simp add: unsupported_reason_def sample_header_def FLAG_GRAINS_COMPRIMIDOS_def FLAG_MARCADORES_def
        is_power_of_two.simps [of "Suc 0"])
  moreover have "\<exists>f'. read_exact 4 (?f\<lparr>f_pos := 512\<rparr>) =
      (Ok (window (byte_fun (f_data ?f)) 512 4), f')"
    using read_exact_healthy [of "?f\<lparr>f_pos := 512\<rparr>" 4]
    by (auto simp: healthy_def fresh_file_def rest_len_def)
  ultimately show ?thesis
    by (auto simp: from_header_def sample_header_def directory_sector_def div_ceil64_def io_bind_def
        seek_start_def)
qed

theorem from_header_opens_wf_witness:
  "\<exists>e. from_header True (fresh_file (replicate 512 0 @ [2, 0, 0, 0])) sample_header = Ok (Native e) \<and>
    wf_extent e \<and> se_capacity_bytes e = 512"
proof -
  obtain e where e: "from_header True (fresh_file (replicate 512 0 @ [2, 0, 0, 0])) sample_header
      = Ok (Native e)"
    using sample_header_opens by blast
  have "header_fits sample_header" by (simp add: header_fits_def sample_header_def)
  from from_header_opens_wf [OF e this] e show ?thesis by (simp add: sample_header_def)
qed

text \<open>The on-disk layout of a sparse header, little endian, in its sector.\<close>

definition sparse_header_bytes :: "sparse_header \<Rightarrow> bytes" where
  "sparse_header_bytes h = MAGIC_KDMV @ le_bytes 4 (sh_version h) @ le_bytes 4 (sh_flags h)
     @ le_bytes 8 (sh_capacity_sectors h) @ le_bytes 8 (sh_grain_sectors h)
     @ le_bytes 8 (sh_descriptor_offset h) @ le_bytes 8 (sh_descriptor_sectors h)
     @ le_bytes 4 (sh_gtes_per_gt h) @ le_bytes 8 (sh_rgd_offset h) @ le_bytes 8 (sh_gd_offset h)
     @ replicate 13 0 @ le_bytes 2 (sh_compression h) @ replicate 433 0"

definition header_in_range :: "sparse_header \<Rightarrow> bool" where
  "header_in_range h \<longleftrightarrow> sh_version h < 2 ^ 32 \<and> sh_flags h < 2 ^ 32 \<and> sh_capacity_sectors h < 2 ^ 64 \<and>
     sh_grain_sectors h < 2 ^ 64 \<and> sh_descriptor_offset h < 2 ^ 64 \<and> sh_descriptor_sectors h < 2 ^ 64 \<and>
     sh_gtes_per_gt h < 2 ^ 32 \<and> sh_rgd_offset h < 2 ^ 64 \<and> sh_gd_offset h < 2 ^ 64 \<and>
     sh_compression h < 2 ^ 16"

lemma length_MAGIC_KDMV [simp]: "length MAGIC_KDMV = 4"
  by (simp add: MAGIC_KDMV_def)

text \<open>Parsing the on-disk layout of a sparse header gives the header back: every field is read
  at its offset, with its width and byte order.\<close>

theorem read_sparse_header_roundtrip:
  assumes "header_in_range h"
  shows "read_sparse_header (sparse_header_bytes h) = Ok h"
proof -
  let ?b = "sparse_header_bytes h"
  note r = assms [unfolded header_in_range_def]
  have u32: "u32_at ?b 4 = Ok (sh_version h)" "u32_at ?b 8 = Ok (sh_flags h)"
      "u32_at ?b 44 = Ok (sh_gtes_per_gt h)"
    using r by (simp_all add: sparse_header_bytes_def field_at_def get_range_def subrange_def le_nat_le_bytes)
  have u64: "u64_at ?b 12 = Ok (sh_capacity_sectors h)" "u64_at ?b 20 = Ok (sh_grain_sectors h)"
      "u64_at ?b 28 = Ok (sh_descriptor_offset h)" "u64_at ?b 36 = Ok (sh_descriptor_sectors h)"
      "u64_at ?b 48 = Ok (sh_rgd_offset h)" "u64_at ?b 56 = Ok (sh_gd_offset h)"
    using r by (simp_all add: sparse_header_bytes_def field_at_def get_range_def subrange_def le_nat_le_bytes)
  have "[?b ! 77, ?b ! 78] = le_bytes 2 (sh_compression h)"
    by (simp add: sparse_header_bytes_def nth_append numeral_2_eq_2)
  then have c: "le_nat [?b ! 77, ?b ! 78] = sh_compression h" using r by (simp add: le_nat_le_bytes)
  have m: "is_sparse_header ?b" and l: "length ?b = 512"
    by (simp_all add: is_sparse_header_def sparse_header_bytes_def)
  show ?thesis unfolding read_sparse_header_def u32 u64 c using m l by simp
qed

theorem read_sparse_header_roundtrip_witness:
  "read_sparse_header (sparse_header_bytes sample_header) = Ok sample_header"
  by (rule read_sparse_header_roundtrip) (simp add: header_in_range_def sample_header_def)

text \<open>A header that passes \<open>unsupported_reason\<close> can still make \<open>from_header\<close>
  panic in either build: with grains of \<open>2 ^ 55\<close> sectors the checked build stops at the
  overflowing product, and in the release build the product wraps to zero and \<open>div_ceil\<close>
  divides by it.\<close>

theorem from_header_panics_on_huge_grain:
  "unsupported_reason (sample_header\<lparr>sh_grain_sectors := 2 ^ 55\<rparr>) = None \<and>
   from_header oc f (sample_header\<lparr>sh_grain_sectors := 2 ^ 55\<rparr>) = Panic"
proof -
  have "is_power_of_two (2 ^ 55)" using is_power_of_two_iff by blast
  then have u: "unsupported_reason (sample_header\<lparr>sh_grain_sectors := 2 ^ 55\<rparr>) = None"
    by (simp add: unsupported_reason_def sample_header_def FLAG_GRAINS_COMPRIMIDOS_def FLAG_MARCADORES_def)
  then show ?thesis
    by (cases oc) (simp_all add: from_header_def mul64_def div_ceil64_def sample_header_def)
qed

end
