(* ===== verification/Options.thy ===== *)
theory Options
  imports Models
begin

text \<open>
  \<open>src/models/options.rs\<close>: cancellation tokens, progress counters, options and the report.

  A cancellation flag can be set by another thread at any moment and is never cleared, so a token is
  modelled by the number of loads that still see it unset: \<open>Some k\<close> is set after \<open>k\<close> more
  loads, \<open>None\<close> never is.  An absent token behaves like one that is never set.  The counters of
  \<open>InspectionProgress\<close> are atomics that the workers update one load or store at a time;
  \<open>increment_completed_tasks\<close> is split into its two atomic steps so that the interleavings of
  several workers are sequences of steps.
\<close>

section \<open>Cancellation tokens\<close>

type_synonym token = "nat option"

fun load_token :: "token \<Rightarrow> bool \<times> token" where
  "load_token None = (False, None)"
| "load_token (Some 0) = (True, Some 0)"
| "load_token (Some (Suc k)) = (False, Some k)"

definition new_token :: token where
  "new_token = None"

definition cancel_token :: "token \<Rightarrow> token" where
  "cancel_token t = Some 0"

definition is_cancelled :: "token \<Rightarrow> bool" where
  "is_cancelled t = fst (load_token t)"

section \<open>Progress counters\<close>

record progress =
  pr_total_tasks :: nat
  pr_completed_tasks :: nat
  pr_bytes_processed :: nat
  pr_total_bytes :: nat
  pr_percentage :: nat
  pr_stage_id :: nat
  pr_cancelled :: bool
  pr_token :: token

record snapshot =
  sn_percentage :: nat
  sn_stage_id :: nat
  sn_completed_tasks :: nat
  sn_total_tasks :: nat
  sn_bytes_processed :: nat
  sn_total_bytes :: nat
  sn_cancelled :: bool

definition new_progress :: progress where
  "new_progress = \<lparr>pr_total_tasks = 0, pr_completed_tasks = 0, pr_bytes_processed = 0,
     pr_total_bytes = 0, pr_percentage = 0, pr_stage_id = 0, pr_cancelled = False, pr_token = None\<rparr>"

definition progress_with_token :: "token \<Rightarrow> progress" where
  "progress_with_token t = (case load_token t of (c, t') \<Rightarrow>
     new_progress\<lparr>pr_cancelled := c, pr_token := t'\<rparr>)"

text \<open>The quotient is at most 100, so the conversion to \<open>u8\<close> keeps it.\<close>

definition task_completion_percentage :: "nat \<Rightarrow> nat \<Rightarrow> nat" where
  "task_completion_percentage completed all =
     (if all = 0 then 0 else (min completed all * 100 div all) mod 2 ^ 8)"

definition progress_is_cancelled :: "progress \<Rightarrow> bool" where
  "progress_is_cancelled p = (pr_cancelled p \<or> is_cancelled (pr_token p))"

definition progress_cancel :: "progress \<Rightarrow> progress" where
  "progress_cancel p = p\<lparr>pr_cancelled := True, pr_token := cancel_token (pr_token p)\<rparr>"

definition set_percentage :: "nat \<Rightarrow> progress \<Rightarrow> progress" where
  "set_percentage pct p = p\<lparr>pr_percentage := min pct 100\<rparr>"

definition set_stage_id :: "nat \<Rightarrow> progress \<Rightarrow> progress" where
  "set_stage_id stage p = p\<lparr>pr_stage_id := stage\<rparr>"

definition add_bytes_processed :: "nat \<Rightarrow> progress \<Rightarrow> progress" where
  "add_bytes_processed n p = p\<lparr>pr_bytes_processed := (pr_bytes_processed p + n) mod 2 ^ 64\<rparr>"

definition set_total_bytes :: "nat \<Rightarrow> progress \<Rightarrow> progress" where
  "set_total_bytes n p = p\<lparr>pr_total_bytes := n\<rparr>"

definition reset_for_batch :: "nat \<Rightarrow> progress \<Rightarrow> progress" where
  "reset_for_batch all p = p\<lparr>pr_completed_tasks := 0, pr_bytes_processed := 0, pr_total_bytes := 0,
     pr_percentage := 0, pr_stage_id := 0, pr_cancelled := False, pr_total_tasks := all\<rparr>"

definition set_total_tasks :: "nat \<Rightarrow> progress \<Rightarrow> progress" where
  "set_total_tasks all p = p\<lparr>pr_total_tasks := all\<rparr>"

text \<open>The two steps of \<open>increment_completed_tasks\<close>: the counter is bumped and its new value
  returned, and later the percentage computed from that value is stored.\<close>

definition bump_completed :: "progress \<Rightarrow> nat \<times> progress" where
  "bump_completed p = (min (pr_completed_tasks p + 1) (2 ^ 64 - 1),
     p\<lparr>pr_completed_tasks := (pr_completed_tasks p + 1) mod 2 ^ 64\<rparr>)"

definition store_percentage :: "nat \<Rightarrow> progress \<Rightarrow> progress" where
  "store_percentage completed p = (if pr_total_tasks p > 0
     then p\<lparr>pr_percentage := task_completion_percentage completed (pr_total_tasks p)\<rparr> else p)"

definition increment_completed_tasks :: "progress \<Rightarrow> progress" where
  "increment_completed_tasks p = (case bump_completed p of (c, p') \<Rightarrow> store_percentage c p')"

definition take_snapshot :: "progress \<Rightarrow> snapshot" where
  "take_snapshot p = \<lparr>
     sn_percentage = (if pr_total_tasks p > 0
       then task_completion_percentage (pr_completed_tasks p) (pr_total_tasks p) else pr_percentage p),
     sn_stage_id = pr_stage_id p, sn_completed_tasks = pr_completed_tasks p,
     sn_total_tasks = pr_total_tasks p, sn_bytes_processed = pr_bytes_processed p,
     sn_total_bytes = pr_total_bytes p, sn_cancelled = progress_is_cancelled p\<rparr>"

section \<open>Options\<close>

record options =
  op_no_apps :: bool
  op_no_system :: bool
  op_include_system :: bool
  op_qemu_nbd :: "path option"
  op_chunk_size :: "nat option"
  op_force_nbd :: bool
  op_unix_socket :: "path option"
  op_extra_nbd_args :: "string list"
  op_connection_timeout :: "nat option"
  op_nbd_persistent :: bool
  op_cancel_token :: token
  op_nbd_max_sessions :: nat

definition default_options :: options where
  "default_options = \<lparr>op_no_apps = False, op_no_system = False, op_include_system = False,
     op_qemu_nbd = None, op_chunk_size = None, op_force_nbd = False, op_unix_socket = None,
     op_extra_nbd_args = [], op_connection_timeout = None, op_nbd_persistent = False,
     op_cancel_token = None, op_nbd_max_sessions = 2\<rparr>"

definition should_analyze_apps :: "options \<Rightarrow> bool" where
  "should_analyze_apps o' = (\<not> op_no_apps o')"

definition should_analyze_system :: "options \<Rightarrow> bool" where
  "should_analyze_system o' = (\<not> op_no_system o')"

definition with_nbd_max_sessions :: "nat \<Rightarrow> options \<Rightarrow> options" where
  "with_nbd_max_sessions n o' = o'\<lparr>op_nbd_max_sessions := max n 1\<rparr>"

definition with_qemu_nbd :: "path \<Rightarrow> options \<Rightarrow> options" where
  "with_qemu_nbd p o' = o'\<lparr>op_qemu_nbd := Some p\<rparr>"

definition with_force_nbd :: "bool \<Rightarrow> options \<Rightarrow> options" where
  "with_force_nbd b o' = o'\<lparr>op_force_nbd := b\<rparr>"

definition with_unix_socket :: "path \<Rightarrow> options \<Rightarrow> options" where
  "with_unix_socket p o' = o'\<lparr>op_unix_socket := Some p\<rparr>"

definition with_extra_nbd_args :: "string list \<Rightarrow> options \<Rightarrow> options" where
  "with_extra_nbd_args args o' = o'\<lparr>op_extra_nbd_args := args\<rparr>"

definition with_connection_timeout :: "nat \<Rightarrow> options \<Rightarrow> options" where
  "with_connection_timeout t o' = o'\<lparr>op_connection_timeout := Some t\<rparr>"

definition with_nbd_persistent :: "bool \<Rightarrow> options \<Rightarrow> options" where
  "with_nbd_persistent b o' = o'\<lparr>op_nbd_persistent := b\<rparr>"

definition with_cancel_token :: "token \<Rightarrow> options \<Rightarrow> options" where
  "with_cancel_token t o' = o'\<lparr>op_cancel_token := t\<rparr>"

section \<open>Reports\<close>

record progress_event =
  ev_percentage :: nat
  ev_stage :: string
  ev_detail :: "string option"

record report =
  rp_image :: image_info
  rp_scheme :: table_scheme
  rp_partitions :: "partition list"
  rp_operating_system :: operating_system
  rp_guest_info :: guest_info
  rp_installed_programs :: "program list"
  rp_warnings :: "string list"
  rp_stats :: stats

record summary =
  su_path :: path
  su_operating_system :: operating_system
  su_guest_tools :: "guest_tools option"
  su_duration_ms :: nat
  su_access_mode :: string
  su_warnings :: "string list"

definition report_summary :: "report \<Rightarrow> summary" where
  "report_summary r = \<lparr>su_path = im_path (rp_image r), su_operating_system = rp_operating_system r,
     su_guest_tools = guest_tools_of (rp_guest_info r), su_duration_ms = st_duration_ms (rp_stats r),
     su_access_mode = st_access_mode (rp_stats r), su_warnings = rp_warnings r\<rparr>"

datatype image_error = ImageError (ie_path: path) (ie_error: vm_error)

record batch_result =
  br_reports :: "report list"
  br_errors :: "image_error list"

section \<open>Laws\<close>

lemma load_token_monotone: "load_token t = (True, t') \<Longrightarrow> t' = Some 0"
  by (cases t rule: load_token.cases) auto

lemma load_token_set [simp]: "load_token (Some 0) = (True, Some 0)"
  by simp

lemma load_token_None [simp]: "load_token None = (False, None)"
  by simp

lemma percentage_le_100: "task_completion_percentage c t \<le> 100"
proof (cases "t = 0")
  case False
  have "min c t * 100 div t \<le> t * 100 div t" by (intro div_le_mono mult_le_mono1) simp
  also have "\<dots> = 100" using False by simp
  finally show ?thesis using False by (simp add: task_completion_percentage_def)
qed (simp add: task_completion_percentage_def)

lemma percentage_exact: "0 < t \<Longrightarrow> task_completion_percentage c t = min c t * 100 div t"
  using percentage_le_100 [of c t] div_le_mono [of "min c t * 100" "t * 100" t]
  by (simp add: task_completion_percentage_def)

lemma percentage_100_iff: "0 < t \<Longrightarrow> task_completion_percentage c t = 100 \<longleftrightarrow> t \<le> c"
proof -
  assume t: "0 < t"
  show ?thesis
  proof
    assume "task_completion_percentage c t = 100"
    then have "min c t * 100 div t = 100" using t by (simp add: percentage_exact)
    then have "100 * t \<le> min c t * 100" by (metis div_times_less_eq_dividend)
    then show "t \<le> c" by simp
  next
    assume "t \<le> c"
    then show "task_completion_percentage c t = 100" using t by (simp add: percentage_exact)
  qed
qed

lemma percentage_mono: "c \<le> d \<Longrightarrow> task_completion_percentage c t \<le> task_completion_percentage d t"
  by (cases "t = 0")
     (auto simp: percentage_exact task_completion_percentage_def [of _ 0] intro!: div_le_mono)

text \<open>The percentage field is at most 100 after every operation.\<close>

definition progress_ok :: "progress \<Rightarrow> bool" where
  "progress_ok p = (pr_percentage p \<le> 100)"

lemmas progress_ops = set_percentage_def set_stage_id_def add_bytes_processed_def set_total_bytes_def
  reset_for_batch_def set_total_tasks_def bump_completed_def store_percentage_def progress_cancel_def

lemma progress_ok_ops:
  "progress_ok new_progress" "progress_ok (progress_with_token t)" "progress_ok (set_percentage n p)"
  "progress_ok p \<Longrightarrow> progress_ok (set_stage_id n p)" "progress_ok p \<Longrightarrow> progress_ok (add_bytes_processed n p)"
  "progress_ok p \<Longrightarrow> progress_ok (set_total_bytes n p)" "progress_ok (reset_for_batch n p)"
  "progress_ok p \<Longrightarrow> progress_ok (set_total_tasks n p)"
  "progress_ok p \<Longrightarrow> progress_ok (snd (bump_completed p))" "progress_ok p \<Longrightarrow> progress_ok (store_percentage c p)"
  "progress_ok p \<Longrightarrow> progress_ok (progress_cancel p)"
  by (auto simp: progress_ok_def progress_ops new_progress_def progress_with_token_def percentage_le_100
      split: prod.splits)

end
