(* ===== verification/Nbd.thy ===== *)
theory Nbd
  imports Options Host_File
begin

text \<open>
  \<open>src/vms/nbd.rs\<close>: the NBD client.

  A transport is the connection as the client sees it: what it has written so far, how many bytes it
  has taken, what the peer has sent as a function of all it received, and a script with one event per
  call: the deadline has passed, the call fails, the connection is closed, or at most \<open>k + 1\<close>
  bytes pass.  Without an event a call passes everything it can; a read for which the peer has sent
  nothing runs into its timeout.  \<open>handshake\<close>, \<open>read_range\<close> and \<open>disconnect\<close>
  are the protocol code.  The laws run them against \<open>nbd_server\<close>, the server side of the
  protocol.  \<open>nbd_open\<close> starts the helper and retries the connection over a scripted
  environment; waiting and killing are in its answers.
\<close>

section \<open>Transport\<close>

datatype net_event = Expired | Broken io_error | Closed | Passes nat

record transport =
  tp_peer :: "bytes \<Rightarrow> bytes"
  tp_sent :: bytes
  tp_taken :: nat
  tp_script :: "net_event list"

definition timed_out :: "string \<Rightarrow> io_error" where
  "timed_out ctx = IoError TimedOut (''Timed out '' @ ctx)"

definition contextualize_timeout :: "io_error \<Rightarrow> string \<Rightarrow> io_error" where
  "contextualize_timeout e ctx =
     (if kind_of e = TimedOut \<or> kind_of e = WouldBlock then timed_out ctx
      else IoError (kind_of e) (''NBD '' @ ctx @ '': '' @ io_text e))"

definition closed_error :: "io_kind \<Rightarrow> string \<Rightarrow> io_error" where
  "closed_error k ctx = IoError k (''NBD '' @ ctx @ '': connection closed'')"

text \<open>The bytes the peer has sent and the client has not taken yet.\<close>

definition pending :: "transport \<Rightarrow> bytes" where
  "pending t = drop (tp_taken t) (tp_peer t (tp_sent t))"

text \<open>One round of the loop of \<open>read_exact_until\<close>: \<open>None\<close> is the end of the connection.\<close>

definition recv_some :: "string \<Rightarrow> nat \<Rightarrow> (transport, io_error, bytes option) io" where
  "recv_some ctx n t = (case tp_script t of
       [] \<Rightarrow> (let bs = take n (pending t) in
              if bs = [] then (Err (timed_out ctx), t)
              else (Ok (Some bs), t\<lparr>tp_taken := tp_taken t + length bs\<rparr>))
     | Expired # es \<Rightarrow> (Err (timed_out ctx), t\<lparr>tp_script := es\<rparr>)
     | Broken e # es \<Rightarrow> (Err (contextualize_timeout e ctx), t\<lparr>tp_script := es\<rparr>)
     | Closed # es \<Rightarrow> (Ok None, t\<lparr>tp_script := es\<rparr>)
     | Passes k # es \<Rightarrow> (let bs = take (min n (Suc k)) (pending t) in
              if bs = [] then (Err (timed_out ctx), t\<lparr>tp_script := es\<rparr>)
              else (Ok (Some bs), t\<lparr>tp_taken := tp_taken t + length bs, tp_script := es\<rparr>)))"

function read_exact_until :: "string \<Rightarrow> nat \<Rightarrow> transport \<Rightarrow> (io_error, bytes) res \<times> transport" where
  "read_exact_until ctx n t = (if n = 0 then (Ok [], t) else (case recv_some ctx n t of
       (Ok None, t') \<Rightarrow> (Err (closed_error UnexpectedEof ctx), t')
     | (Ok (Some bs), t') \<Rightarrow>
         if bs = [] then (Panic, t')
         else (case read_exact_until ctx (n - length bs) t' of
             (Ok rest, t'') \<Rightarrow> (Ok (bs @ rest), t'')
           | (Err e, t'') \<Rightarrow> (Err e, t'')
           | (Panic, t'') \<Rightarrow> (Panic, t''))
     | (Err e, t') \<Rightarrow> (Err e, t')
     | (Panic, t') \<Rightarrow> (Panic, t')))"
  by pat_completeness auto
termination by (relation "measure (\<lambda>(c, n, t). n)") (auto simp: neq_Nil_conv)

declare read_exact_until.simps [simp del]

text \<open>One round of the loop of \<open>write_all_until\<close>: how many bytes went out.\<close>

definition send_some :: "string \<Rightarrow> bytes \<Rightarrow> (transport, io_error, nat) io" where
  "send_some ctx bs t = (case tp_script t of
       [] \<Rightarrow> (Ok (length bs), t\<lparr>tp_sent := tp_sent t @ bs\<rparr>)
     | Expired # es \<Rightarrow> (Err (timed_out ctx), t\<lparr>tp_script := es\<rparr>)
     | Broken e # es \<Rightarrow> (Err (contextualize_timeout e ctx), t\<lparr>tp_script := es\<rparr>)
     | Closed # es \<Rightarrow> (Ok 0, t\<lparr>tp_script := es\<rparr>)
     | Passes k # es \<Rightarrow> (Ok (min (length bs) (Suc k)),
         t\<lparr>tp_sent := tp_sent t @ take (Suc k) bs, tp_script := es\<rparr>))"

definition flush_transport :: "string \<Rightarrow> (transport, io_error, unit) io" where
  "flush_transport ctx t = (case tp_script t of
       Expired # es \<Rightarrow> (Err (timed_out ctx), t\<lparr>tp_script := es\<rparr>)
     | Broken e # es \<Rightarrow> (Err (contextualize_timeout e ctx), t\<lparr>tp_script := es\<rparr>)
     | _ # es \<Rightarrow> (Ok (), t\<lparr>tp_script := es\<rparr>)
     | [] \<Rightarrow> (Ok (), t))"

function write_all_until :: "string \<Rightarrow> bytes \<Rightarrow> transport \<Rightarrow> (io_error, unit) res \<times> transport" where
  "write_all_until ctx bs t = (if bs = [] then flush_transport ctx t
     else (case send_some ctx bs t of
         (Ok n, t') \<Rightarrow> if n = 0 then (Err (closed_error WriteZero ctx), t')
           else write_all_until ctx (drop n bs) t'
       | (Err e, t') \<Rightarrow> (Err e, t')
       | (Panic, t') \<Rightarrow> (Panic, t')))"
  by pat_completeness auto
termination by (relation "measure (\<lambda>(c, bs, t). length bs)") auto

declare write_all_until.simps [simp del]

section \<open>The client\<close>

definition NBD_REQUEST_MAGIC :: nat where
  "NBD_REQUEST_MAGIC = 0x25609513"

definition NBD_REPLY_MAGIC :: nat where
  "NBD_REPLY_MAGIC = 0x67446698"

definition NBD_CMD_READ :: nat where
  "NBD_CMD_READ = 0"

definition NBD_CMD_DISC :: nat where
  "NBD_CMD_DISC = 2"

definition NBD_OPT_EXPORT_NAME :: nat where
  "NBD_OPT_EXPORT_NAME = 1"

definition NBD_IHAVEOPT_MAGIC :: nat where
  "NBD_IHAVEOPT_MAGIC = 0x49484156454F5054"

definition NBDMAGIC :: bytes where
  "NBDMAGIC = [0x4E, 0x42, 0x44, 0x4D, 0x41, 0x47, 0x49, 0x43]"

record nbd_stream =
  nb_stream :: transport
  nb_export_size :: nat
  nb_request_id :: nat
  nb_disconnected :: bool

definition handshake :: "transport \<Rightarrow> (io_error, nbd_stream) res \<times> transport" where
  "handshake t =
     io_bind (read_exact_until ''reading NBD banner'' 18) (\<lambda>banner.
       if take 8 banner \<noteq> NBDMAGIC
       then io_err (IoError InvalidData ''Invalid NBD signature from the server'')
       else if be_nat (subrange banner 8 16) \<noteq> NBD_IHAVEOPT_MAGIC
       then io_err (IoError Unsupported ''The NBD server does not use the newstyle handshake'')
       else
         io_bind (write_all_until ''sending NBD client flags'' (be_bytes 4 1)) (\<lambda>_.
         io_bind (write_all_until ''requesting NBD export''
           (be_bytes 8 NBD_IHAVEOPT_MAGIC @ be_bytes 4 NBD_OPT_EXPORT_NAME @ be_bytes 4 0)) (\<lambda>_.
         io_bind (read_exact_until ''reading NBD export reply'' 134) (\<lambda>resp t'.
           (Ok \<lparr>nb_stream = t', nb_export_size = be_nat (take 8 resp), nb_request_id = 1,
               nb_disconnected = False\<rparr>, t'))))) t"

text \<open>The 28 bytes of a request; the length is a \<open>u32\<close>.\<close>

definition request_bytes :: "nat \<Rightarrow> nat \<Rightarrow> nat \<Rightarrow> nat \<Rightarrow> bytes" where
  "request_bytes cmd handle_id offset len =
     be_bytes 4 NBD_REQUEST_MAGIC @ be_bytes 2 0 @ be_bytes 2 cmd @ be_bytes 8 handle_id
     @ be_bytes 8 offset @ be_bytes 4 len"

definition on_stream :: "(transport, io_error, 'a) io \<Rightarrow> (nbd_stream, io_error, 'a) io" where
  "on_stream m s = (case m (nb_stream s) of (r, t') \<Rightarrow> (r, s\<lparr>nb_stream := t'\<rparr>))"

text \<open>The checks on the 16 bytes of a reply header.\<close>

definition check_reply :: "bytes \<Rightarrow> nat \<Rightarrow> (io_error, unit) res" where
  "check_reply hdr req_id =
     (let magic = be_nat (subrange hdr 0 4); error_code = be_nat (subrange hdr 4 8) in
      if magic \<noteq> NBD_REPLY_MAGIC
      then Err (IoError InvalidData (''NBD reply with invalid magic: 0x'' @ hex_fixed 8 magic))
      else if error_code \<noteq> 0
      then Err (IoError OtherKind (''Error reported by the NBD server: '' @ dec_str error_code))
      else if be_nat (subrange hdr 8 16) \<noteq> req_id
      then Err (IoError InvalidData ''NBD request identifier is out of sync'')
      else Ok ())"

definition nbd_read_range :: "nat \<Rightarrow> nat \<Rightarrow> (nbd_stream, io_error, bytes) io" where
  "nbd_read_range offset len s =
     (if len = 0 \<or> nb_export_size s \<le> offset then (Ok [], s)
      else
        (let adjusted_len = min len (nb_export_size s - offset); req_id = nb_request_id s in
         io_bind (on_stream (write_all_until ''sending NBD read request''
             (request_bytes NBD_CMD_READ req_id offset (adjusted_len mod 2 ^ 32)))) (\<lambda>_.
         io_bind (on_stream (read_exact_until ''reading NBD reply header'' 16)) (\<lambda>hdr.
         io_bind (io_lift (check_reply hdr req_id)) (\<lambda>_.
           on_stream (read_exact_until ''reading NBD reply data'' adjusted_len))))
         (s\<lparr>nb_request_id := (req_id + 1) mod 2 ^ 64\<rparr>)))"

definition nbd_disconnect :: "nbd_stream \<Rightarrow> nbd_stream" where
  "nbd_disconnect s =
     (if nb_disconnected s then s
      else snd (on_stream (write_all_until ''sending NBD disconnect''
             (request_bytes NBD_CMD_DISC (nb_request_id s) 0 0)) (s\<lparr>nb_disconnected := True\<rparr>)))"

text \<open>\<open>resolve_qemu_nbd\<close>: \<open>env\<close> is the variable \<open>QEMU_NBD\<close> and \<open>spawn\<close> the
  outcome of running \<open>qemu-nbd --version\<close> from the search path.\<close>

definition nbd_candidates :: "path list" where
  "nbd_candidates = [''C:'' @ [CHR 0x5C] @ ''Program Files'' @ [CHR 0x5C] @ ''qemu'' @ [CHR 0x5C] @ ''qemu-nbd.exe'',
     ''C:'' @ [CHR 0x5C] @ ''Program Files (x86)'' @ [CHR 0x5C] @ ''qemu'' @ [CHR 0x5C] @ ''qemu-nbd.exe'',
     ''/usr/bin/qemu-nbd'', ''/usr/local/bin/qemu-nbd'', ''/opt/homebrew/bin/qemu-nbd'']"

definition resolve_qemu_nbd ::
    "host \<Rightarrow> path option \<Rightarrow> (io_error, unit) res \<Rightarrow> path option \<Rightarrow> (io_error, path) res" where
  "resolve_qemu_nbd h env spawn explicit = (case explicit of
       Some p \<Rightarrow> if path_is_file h p then Ok p
         else Err (IoError NotFound
           (''qemu-nbd executable was not found on the system at the configured path '' @ quoted p))
     | None \<Rightarrow> (case env of
         Some p \<Rightarrow> if path_is_file h p then Ok p
           else Err (IoError NotFound
             (''qemu-nbd executable was not found on the system via QEMU_NBD='' @ quoted p))
       | None \<Rightarrow> (case List.find (path_is_file h) nbd_candidates of
           Some p \<Rightarrow> Ok p
         | None \<Rightarrow> (case spawn of
             Ok _ \<Rightarrow> Ok ''qemu-nbd''
           | Panic \<Rightarrow> Panic
           | Err e \<Rightarrow> if kind_of e = NotFound
               then Err (IoError NotFound (''qemu-nbd executable was not found on the system. Install it, '' @
                 ''add it to PATH, define QEMU_NBD, or use --qemu-nbd <path>.''))
               else Err (IoError (kind_of e) (''Could not resolve qemu-nbd from PATH: '' @ io_text e))))))"

section \<open>Starting the helper process\<close>

text \<open>\<open>NbdReader::open_with_options\<close>.  What the operating system answers is an environment: the
  rounds of waiting for a permit, each with the answer whether the deadline has passed, the port,
  starting the process, one status of the process and one
  connection attempt per round until the deadline passes, the status after it, and what the process
  wrote.\<close>

datatype child_status = Running | Exited string | StatusError io_error

record nbd_env =
  ne_slot_waits :: "bool list"
  ne_port :: "(io_error, nat) res"
  ne_spawn :: "(io_error, unit) res"
  ne_rounds :: "(child_status \<times> (io_error, transport) res) list"
  ne_last_status :: child_status
  ne_stderr :: string
  ne_reaped :: bool

definition nbd_args :: "options \<Rightarrow> image_info \<Rightarrow> nat \<Rightarrow> string list" where
  "nbd_args o' info port = [''--read-only'']
     @ (if op_nbd_persistent o' then [''--persistent''] else [])
     @ op_extra_nbd_args o'
     @ (case op_unix_socket o' of Some p \<Rightarrow> [''-k'', p]
        | None \<Rightarrow> [''--bind'', ''127.0.0.1'', ''--port'', dec_str port])
     @ [im_path info]"

definition nbd_exit_message :: "path \<Rightarrow> string \<Rightarrow> string \<Rightarrow> string" where
  "nbd_exit_message p status stderr = ''qemu-nbd '' @ quoted p @ '' exited with code '' @ status
     @ (if stderr = [] then [] else ''; stderr: '' @ stderr)"

definition collected_stderr :: "nbd_env \<Rightarrow> string" where
  "collected_stderr env = (if ne_reaped env then trim (ne_stderr env) else [])"

definition with_stderr :: "string \<Rightarrow> string \<Rightarrow> string" where
  "with_stderr msg stderr = (if stderr = [] then msg else msg @ ''; stderr: '' @ stderr)"

definition retryable :: "io_kind \<Rightarrow> bool" where
  "retryable k = (k \<in> {ConnectionRefused, ConnectionReset, ConnectionAborted, NotFound, TimedOut,
     WouldBlock, AddrNotAvailable})"

definition attempt :: "(io_error, transport) res \<Rightarrow> (io_error, nbd_stream) res" where
  "attempt c = and_then c (\<lambda>t. fst (handshake t))"

fun nbd_connect_rounds :: "path \<Rightarrow> nbd_env \<Rightarrow> (child_status \<times> (io_error, transport) res) list
    \<Rightarrow> io_error option \<Rightarrow> token \<Rightarrow> (io_error, nbd_stream) res \<times> token" where
  "nbd_connect_rounds p env [] last_error tok =
     ((case ne_last_status env of
         Exited c \<Rightarrow> Err (IoError ConnectionRefused (nbd_exit_message p c (trim (ne_stderr env))))
       | _ \<Rightarrow> Err (IoError TimedOut (with_stderr
           (''Timed out waiting for qemu-nbd '' @ quoted p @ '' to accept connections'') (collected_stderr env)
           @ (case last_error of None \<Rightarrow> [] | Some e \<Rightarrow> ''; last connection error: '' @ io_text e)))), tok)"
| "nbd_connect_rounds p env ((status, conn) # rounds) last_error tok =
     (case load_token tok of
        (True, tok') \<Rightarrow> (Err (IoError Interrupted ''Inspection cancelled''), tok')
      | (False, tok') \<Rightarrow> (case status of
          Exited c \<Rightarrow> (Err (IoError ConnectionRefused (nbd_exit_message p c (trim (ne_stderr env)))), tok')
        | StatusError e \<Rightarrow> (Err (IoError OtherKind (with_stderr
            (''Could not query qemu-nbd '' @ quoted p @ '' process status: '' @ io_text e)
            (collected_stderr env))), tok')
        | Running \<Rightarrow> (case attempt conn of
            Ok s \<Rightarrow> (Ok s, tok')
          | Panic \<Rightarrow> (Panic, tok')
          | Err e \<Rightarrow> if retryable (kind_of e) then nbd_connect_rounds p env rounds (Some e) tok'
              else (Err (IoError (kind_of e) (with_stderr
                (''qemu-nbd '' @ quoted p @ '' NBD handshake failed: '' @ io_text e)
                (collected_stderr env))), tok'))))"

text \<open>\<open>NbdSessionPermit::acquire\<close> as its caller sees it: a round of the loop for every time the count
  is found at the limit.\<close>

fun wait_for_slot :: "bool list \<Rightarrow> token \<Rightarrow> (io_error, unit) res \<times> token" where
  "wait_for_slot [] tok = (Ok (), tok)"
| "wait_for_slot (expired # waits) tok = (case load_token tok of
       (True, tok') \<Rightarrow> (Err (IoError Interrupted ''Inspection cancelled''), tok')
     | (False, tok') \<Rightarrow>
         if expired then (Err (timed_out ''waiting for an NBD session slot''), tok') else wait_for_slot waits tok')"

definition nbd_open :: "nbd_env \<Rightarrow> path \<Rightarrow> image_info \<Rightarrow> options \<Rightarrow> (io_error, nbd_stream) res \<times> token" where
  "nbd_open env p info o' = (case load_token (op_cancel_token o') of
       (True, tok) \<Rightarrow> (Err (IoError Interrupted ''Inspection cancelled by the user''), tok)
     | (False, tok) \<Rightarrow> (case wait_for_slot (ne_slot_waits env) tok of
         (Err e, tok') \<Rightarrow> (Err e, tok')
       | (Panic, tok') \<Rightarrow> (Panic, tok')
       | (Ok _, tok') \<Rightarrow>
           (case and_then (if op_unix_socket o' = None then and_then (ne_port env) (\<lambda>_. Ok ()) else Ok ()) (\<lambda>_.
                map_err (\<lambda>e. IoError OtherKind (''Could not start qemu-nbd ('' @ p @ ''): '' @ io_text e))
                  (ne_spawn env)) of
              Ok _ \<Rightarrow> nbd_connect_rounds p env (ne_rounds env) None tok'
            | Err e \<Rightarrow> (Err e, tok')
            | Panic \<Rightarrow> (Panic, tok'))))"

section \<open>Session permits\<close>

text \<open>\<open>NbdSessionPermit\<close>: the process-wide count under its mutex, and what each thread is doing.
  A thread that waits is granted a permit when the count is below its limit, or leaves when its
  token is set or its deadline passes; dropping a permit lowers the count, stopping at zero.\<close>

datatype permit_phase = Idle | Waiting | Holding

record sessions =
  se_count :: nat
  se_phase :: "nat \<Rightarrow> permit_phase"

definition acquire_grant :: "nat \<Rightarrow> nat \<Rightarrow> sessions \<Rightarrow> sessions option" where
  "acquire_grant limit i st = (if se_count st < max limit 1
     then Some (st\<lparr>se_count := se_count st + 1, se_phase := (se_phase st)(i := Holding)\<rparr>) else None)"

definition release_permit :: "nat \<Rightarrow> sessions \<Rightarrow> sessions" where
  "release_permit i st = st\<lparr>se_count := se_count st - 1, se_phase := (se_phase st)(i := Idle)\<rparr>"

inductive permit_step :: "(nat \<Rightarrow> nat) \<Rightarrow> sessions \<Rightarrow> sessions \<Rightarrow> bool" for limit where
  call: "se_phase st i = Idle \<Longrightarrow> permit_step limit st (st\<lparr>se_phase := (se_phase st)(i := Waiting)\<rparr>)"
| grant: "se_phase st i = Waiting \<Longrightarrow> acquire_grant (limit i) i st = Some st' \<Longrightarrow> permit_step limit st st'"
| give_up: "se_phase st i = Waiting \<Longrightarrow> acquire_grant (limit i) i st = None \<Longrightarrow>
    permit_step limit st (st\<lparr>se_phase := (se_phase st)(i := Idle)\<rparr>)"
| release: "se_phase st i = Holding \<Longrightarrow> permit_step limit st (release_permit i st)"

definition no_sessions :: sessions where
  "no_sessions = \<lparr>se_count = 0, se_phase = (\<lambda>_. Idle)\<rparr>"

definition holders :: "sessions \<Rightarrow> nat set" where
  "holders st = {i. se_phase st i = Holding}"

definition permit_inv :: "nat \<Rightarrow> sessions \<Rightarrow> bool" where
  "permit_inv m st \<longleftrightarrow> finite (holders st) \<and> se_count st = card (holders st) \<and> se_count st \<le> max m 1"

lemma holders_upd:
  "holders (st\<lparr>se_phase := (se_phase st)(i := ph)\<rparr>) =
    (if ph = Holding then insert i (holders st) else holders st - {i})"
  by (auto simp: holders_def)

lemma permit_step_inv:
  assumes "permit_step limit st st'" "\<And>i. limit i \<le> m" "permit_inv m st"
  shows "permit_inv m st'"
  using assms(1)
proof cases
  case (call i)
  then have "holders st' = holders st" by (auto simp: holders_def)
  then show ?thesis using assms(3) call by (simp add: permit_inv_def)
next
  case (grant i)
  then have st': "st' = st\<lparr>se_count := se_count st + 1, se_phase := (se_phase st)(i := Holding)\<rparr>"
    and lt: "se_count st < max (limit i) 1"
    by (auto simp: acquire_grant_def split: if_splits)
  have "holders st' = insert i (holders st)" "i \<notin> holders st"
    using grant(1) st' by (auto simp: holders_def)
  moreover have "max (limit i) 1 \<le> max m 1" using assms(2) [of i] by (simp add: max_def)
  ultimately show ?thesis using assms(3) lt st' by (simp add: permit_inv_def)
next
  case (give_up i)
  then have "holders st' = holders st" by (auto simp: holders_def)
  then show ?thesis using assms(3) give_up by (simp add: permit_inv_def)
next
  case (release i)
  then have h: "holders st' = holders st - {i}" "i \<in> holders st"
    by (auto simp: holders_def release_permit_def)
  then have "se_count st - 1 = card (holders st - {i})" using assms(3) by (simp add: permit_inv_def)
  moreover have "se_count st - 1 \<le> max m 1"
    using assms(3) by (intro order_trans [OF diff_le_self]) (simp add: permit_inv_def)
  ultimately show ?thesis using assms(3) release h by (simp add: permit_inv_def release_permit_def)
qed

section \<open>The server side of the protocol\<close>

function serve_requests :: "(nat \<Rightarrow> byte) \<Rightarrow> bytes \<Rightarrow> bytes" where
  "serve_requests disk bs = (if length bs < 28 then []
     else (if be_nat (subrange bs 6 8) = NBD_CMD_READ
           then be_bytes 4 NBD_REPLY_MAGIC @ be_bytes 4 0 @ subrange bs 8 16
             @ window disk (be_nat (subrange bs 16 24)) (be_nat (subrange bs 24 28))
           else []) @ serve_requests disk (drop 28 bs))"
  by pat_completeness auto
termination by (relation "measure (\<lambda>(d, bs). length bs)") auto

declare serve_requests.simps [simp del]

definition nbd_server :: "(nat \<Rightarrow> byte) \<Rightarrow> nat \<Rightarrow> bytes \<Rightarrow> bytes" where
  "nbd_server disk sz sent = NBDMAGIC @ be_bytes 8 NBD_IHAVEOPT_MAGIC @ be_bytes 2 3
     @ (if 20 \<le> length sent
        then be_bytes 8 sz @ be_bytes 2 1 @ replicate 124 0 @ serve_requests disk (drop 20 sent)
        else [])"

text \<open>A connection on which every call passes at least one byte.\<close>

definition calm :: "transport \<Rightarrow> bool" where
  "calm t = list_all (\<lambda>e. case e of Passes _ \<Rightarrow> True | _ \<Rightarrow> False) (tp_script t)"

text \<open>A session between requests: the server has answered all it was asked and the client has taken it.\<close>

definition in_sync :: "(nat \<Rightarrow> byte) \<Rightarrow> nbd_stream \<Rightarrow> bool" where
  "in_sync disk s \<longleftrightarrow>
     tp_peer (nb_stream s) = nbd_server disk (nb_export_size s) \<and> calm (nb_stream s) \<and>
     20 \<le> length (tp_sent (nb_stream s)) \<and> 28 dvd length (tp_sent (nb_stream s)) - 20 \<and>
     tp_taken (nb_stream s) = length (nbd_server disk (nb_export_size s) (tp_sent (nb_stream s))) \<and>
     nb_request_id s < 2 ^ 64 \<and> nb_export_size s < 2 ^ 64"

lemma recv_some_calm:
  assumes "calm t" "0 < n" "n \<le> length (pending t)"
  shows "\<exists>k t'. recv_some ctx n t = (Ok (Some (take k (pending t))), t') \<and> 0 < k \<and> k \<le> n \<and>
    calm t' \<and> tp_peer t' = tp_peer t \<and> tp_sent t' = tp_sent t \<and> tp_taken t' = tp_taken t + k"
proof (cases "tp_script t")
  case Nil
  have "take n (pending t) \<noteq> []" using assms by auto
  then show ?thesis using Nil assms
    by (intro exI [of _ n] exI [of _ "t\<lparr>tp_taken := tp_taken t + n\<rparr>"]) (auto simp: recv_some_def Let_def calm_def)
next
  case (Cons ev es)
  then obtain k where ev: "ev = Passes k" using assms(1) by (auto simp: calm_def split: net_event.splits)
  let ?k = "min n (Suc k)"
  have "take ?k (pending t) \<noteq> []" "length (take ?k (pending t)) = ?k" using assms by auto
  then show ?thesis using Cons ev assms
    by (intro exI [of _ ?k] exI [of _ "t\<lparr>tp_taken := tp_taken t + ?k, tp_script := es\<rparr>"])
       (auto simp: recv_some_def Let_def calm_def)
qed

lemma read_exact_until_calm:
  assumes "calm t" "n \<le> length (pending t)"
  shows "\<exists>t'. read_exact_until ctx n t = (Ok (take n (pending t)), t') \<and> calm t' \<and>
    tp_peer t' = tp_peer t \<and> tp_sent t' = tp_sent t \<and> tp_taken t' = tp_taken t + n"
  using assms
proof (induction ctx n t rule: read_exact_until.induct)
  case (1 ctx n t)
  show ?case
  proof (cases "n = 0")
    case True
    then show ?thesis using 1(2) by (simp add: read_exact_until.simps)
  next
    case n: False
    then obtain k t1 where k: "recv_some ctx n t = (Ok (Some (take k (pending t))), t1)"
        "0 < k" "k \<le> n" "calm t1" "tp_peer t1 = tp_peer t" "tp_sent t1 = tp_sent t" "tp_taken t1 = tp_taken t + k"
      using recv_some_calm [OF 1(2) _ 1(3), of ctx] by auto
    have len: "length (take k (pending t)) = k" using k(3) 1(3) by simp
    have bs: "take k (pending t) \<noteq> []" using len k(2) by auto
    have pend: "pending t1 = drop k (pending t)" using k(5-7) by (simp add: pending_def add.commute)
    have le: "n - k \<le> length (pending t1)" using 1(3) pend by simp
    obtain t2 where t2: "read_exact_until ctx (n - k) t1 = (Ok (take (n - k) (pending t1)), t2)" "calm t2"
        "tp_peer t2 = tp_peer t" "tp_sent t2 = tp_sent t" "tp_taken t2 = tp_taken t + n"
      using 1(1) [OF n k(1) [symmetric] refl refl bs] k len le by auto
    have "take n (pending t) = take k (pending t) @ take (n - k) (pending t1)"
      using k(3) pend by (metis le_add_diff_inverse take_add)
    then show ?thesis using t2 k(1) bs n len by (auto simp: read_exact_until.simps [of ctx n t])
  qed
qed

lemma send_some_calm:
  assumes "calm t" "bs \<noteq> []"
  shows "\<exists>k t'. send_some ctx bs t = (Ok k, t') \<and> 0 < k \<and> k \<le> length bs \<and> calm t' \<and>
    tp_peer t' = tp_peer t \<and> tp_sent t' = tp_sent t @ take k bs \<and> tp_taken t' = tp_taken t"
proof (cases "tp_script t")
  case Nil
  then show ?thesis using assms
    by (intro exI [of _ "length bs"] exI [of _ "t\<lparr>tp_sent := tp_sent t @ bs\<rparr>"])
       (auto simp: send_some_def calm_def)
next
  case (Cons ev es)
  then obtain k where ev: "ev = Passes k" using assms(1) by (auto simp: calm_def split: net_event.splits)
  have "take (min (length bs) (Suc k)) bs = take (Suc k) bs" by (simp add: min_def)
  then show ?thesis using Cons ev assms
    by (intro exI [of _ "min (length bs) (Suc k)"]
        exI [of _ "t\<lparr>tp_sent := tp_sent t @ take (Suc k) bs, tp_script := es\<rparr>"])
       (auto simp: send_some_def calm_def)
qed

lemma flush_calm:
  assumes "calm t"
  shows "\<exists>t'. flush_transport ctx t = (Ok (), t') \<and> calm t' \<and> tp_peer t' = tp_peer t \<and>
    tp_sent t' = tp_sent t \<and> tp_taken t' = tp_taken t"
proof (cases "tp_script t")
  case Nil
  then show ?thesis using assms by (simp add: flush_transport_def)
next
  case (Cons ev es)
  then obtain k where "ev = Passes k" using assms(1) by (auto simp: calm_def split: net_event.splits)
  then show ?thesis using Cons assms by (simp add: flush_transport_def calm_def)
qed

lemma write_all_until_calm:
  assumes "calm t"
  shows "\<exists>t'. write_all_until ctx bs t = (Ok (), t') \<and> calm t' \<and> tp_peer t' = tp_peer t \<and>
    tp_sent t' = tp_sent t @ bs \<and> tp_taken t' = tp_taken t"
  using assms
proof (induction ctx bs t rule: write_all_until.induct)
  case (1 ctx bs t)
  show ?case
  proof (cases "bs = []")
    case True
    then show ?thesis using flush_calm [OF 1(2)] by (simp add: write_all_until.simps)
  next
    case bs: False
    obtain k t1 where k: "send_some ctx bs t = (Ok k, t1)" "0 < k" "k \<le> length bs" "calm t1"
        "tp_peer t1 = tp_peer t" "tp_sent t1 = tp_sent t @ take k bs" "tp_taken t1 = tp_taken t"
      using send_some_calm [OF 1(2) bs] by blast
    have "k \<noteq> 0" using k(2) by simp
    from 1(1) [OF bs k(1) [symmetric] refl this k(4)] k bs show ?thesis
      by (auto simp: write_all_until.simps [of ctx bs t])
  qed
qed

lemma serve_append:
  "28 dvd length xs \<Longrightarrow> serve_requests disk (xs @ ys) = serve_requests disk xs @ serve_requests disk ys"
proof (induction disk xs rule: serve_requests.induct)
  case (1 disk xs)
  show ?case
  proof (cases "length xs < 28")
    case True
    then have "xs = []" using 1(2) by (auto elim: dvdE)
    then show ?thesis by (simp add: serve_requests.simps [of disk "[]"])
  next
    case False
    then have ge: "28 \<le> length xs" by simp
    have "28 dvd length (drop 28 xs)" using 1(2) ge by (simp add: dvd_diff_nat)
    then show ?thesis using 1(1) False ge
      by (simp add: serve_requests.simps [of disk xs] serve_requests.simps [of disk "xs @ ys"] subrange_def)
  qed
qed

lemma length_request_bytes [simp]: "length (request_bytes cmd h off len) = 28"
  by (simp add: request_bytes_def)

lemma serve_one:
  assumes "h < 2 ^ 64" "off < 2 ^ 64" "len < 2 ^ 32"
  shows "serve_requests disk (request_bytes NBD_CMD_READ h off len) =
    be_bytes 4 NBD_REPLY_MAGIC @ be_bytes 4 0 @ be_bytes 8 h @ window disk off len"
proof -
  let ?r = "request_bytes NBD_CMD_READ h off len"
  have f: "subrange ?r 6 8 = be_bytes 2 NBD_CMD_READ" "subrange ?r 8 16 = be_bytes 8 h"
      "subrange ?r 16 24 = be_bytes 8 off" "subrange ?r 24 28 = be_bytes 4 len"
    by (simp_all add: subrange_def request_bytes_def)
  have "be_nat (be_bytes 2 NBD_CMD_READ) = NBD_CMD_READ" by (simp add: be_nat_be_bytes NBD_CMD_READ_def)
  then show ?thesis using assms
    by (simp add: serve_requests.simps [of disk ?r] serve_requests.simps [of disk "[]"] f be_nat_be_bytes)
qed

lemma check_reply_ok:
  "h < 2 ^ 64 \<Longrightarrow> check_reply (be_bytes 4 NBD_REPLY_MAGIC @ be_bytes 4 0 @ be_bytes 8 h) h = Ok ()"
  by (simp add: check_reply_def Let_def subrange_def be_nat_be_bytes NBD_REPLY_MAGIC_def)

lemma check_reply_handle: "check_reply hdr h = Ok () \<Longrightarrow> be_nat (subrange hdr 8 16) = h"
  by (simp add: check_reply_def Let_def split: if_splits)

lemma nbd_read_in_sync:
  assumes sync: "in_sync disk s" and off: "offset < nb_export_size s"
    and n: "n = min len (nb_export_size s - offset)" "0 < n" "n < 2 ^ 32"
  shows "\<exists>s'. nbd_read_range offset len s = (Ok (window disk offset n), s') \<and> in_sync disk s' \<and>
    nb_export_size s' = nb_export_size s"
proof -
  let ?id = "nb_request_id s" and ?t = "nb_stream s" and ?sz = "nb_export_size s"
  let ?req = "request_bytes NBD_CMD_READ ?id offset n"
  let ?hdr = "be_bytes 4 NBD_REPLY_MAGIC @ be_bytes 4 0 @ be_bytes 8 ?id"
  note S = sync [unfolded in_sync_def]
  have off64: "offset < 2 ^ 64" using off S by simp
  obtain t1 where t1: "\<And>c. write_all_until c ?req ?t = (Ok (), t1 c) \<and> calm (t1 c) \<and> tp_peer (t1 c) = tp_peer ?t \<and>
      tp_sent (t1 c) = tp_sent ?t @ ?req \<and> tp_taken (t1 c) = tp_taken ?t"
    using write_all_until_calm [of ?t _ ?req] S by metis
  define u1 where "u1 = t1 ''sending NBD read request''"
  have w: "write_all_until ''sending NBD read request'' ?req ?t = (Ok (), u1)" "calm u1" "tp_peer u1 = tp_peer ?t"
      "tp_sent u1 = tp_sent ?t @ ?req" "tp_taken u1 = tp_taken ?t"
    using t1 by (auto simp: u1_def)
  have server: "nbd_server disk ?sz (tp_sent u1) = nbd_server disk ?sz (tp_sent ?t) @ ?hdr @ window disk offset n"
    using S serve_append [of "drop 20 (tp_sent ?t)" disk ?req] serve_one [of ?id offset n disk] off64 n(3)
    by (simp add: nbd_server_def w(4))
  have p1: "pending u1 = ?hdr @ window disk offset n"
    using S server w(3,5) by (simp add: pending_def)
  obtain u2 where u2: "read_exact_until ''reading NBD reply header'' 16 u1 = (Ok ?hdr, u2)" "calm u2"
      "tp_peer u2 = tp_peer ?t" "tp_sent u2 = tp_sent u1" "tp_taken u2 = tp_taken ?t + 16"
    using read_exact_until_calm [OF w(2), of 16 "''reading NBD reply header''"] p1 w(3,5) by auto
  have p2: "pending u2 = window disk offset n"
    using p1 u2(3-5) w(3,5) by (simp add: pending_def drop_drop [symmetric] add.commute [of _ 16] del: drop_drop)
  obtain u3 where u3: "read_exact_until ''reading NBD reply data'' n u2 = (Ok (window disk offset n), u3)"
      "calm u3" "tp_peer u3 = tp_peer ?t" "tp_sent u3 = tp_sent u1" "tp_taken u3 = tp_taken ?t + 16 + n"
    using read_exact_until_calm [OF u2(2), of n "''reading NBD reply data''"] p2 u2(3-5) by auto
  let ?s' = "s\<lparr>nb_request_id := (?id + 1) mod 2 ^ 64, nb_stream := u3\<rparr>"
  have "nbd_read_range offset len s = (Ok (window disk offset n), ?s')"
    using off n w(1) u2(1) u3(1) S check_reply_ok [of ?id]
    by (auto simp: nbd_read_range_def Let_def io_bind_def on_stream_def)
  moreover have "28 dvd length (tp_sent u3) - 20"
  proof -
    have "length (tp_sent u3) - 20 = length (tp_sent ?t) - 20 + 28" using S u3(4) w(4) by simp
    then show ?thesis using S by (metis dvd_add dvd_refl)
  qed
  then have "in_sync disk ?s'" using S u3 w(4) server by (simp add: in_sync_def)
  ultimately show ?thesis by auto
qed

lemma nbd_read_total:
  assumes "in_sync disk s" and "min len (nb_export_size s - offset) < 2 ^ 32"
  shows "\<exists>s'. nbd_read_range offset len s =
    (Ok (window disk offset (min len (nb_export_size s - offset))), s') \<and> in_sync disk s' \<and>
    nb_export_size s' = nb_export_size s"
proof (cases "len = 0 \<or> nb_export_size s \<le> offset")
  case True
  then show ?thesis using assms(1) by (auto simp: nbd_read_range_def)
next
  case False
  then show ?thesis using nbd_read_in_sync [OF assms(1) _ refl, of offset len] assms(2) by auto
qed

lemma length_NBDMAGIC [simp]: "length NBDMAGIC = 8"
  by (simp add: NBDMAGIC_def)

lemma handshake_in_sync:
  assumes "tp_peer t = nbd_server disk sz" "tp_sent t = []" "tp_taken t = 0" "calm t" "sz < 2 ^ 64"
  shows "\<exists>s t'. handshake t = (Ok s, t') \<and> in_sync disk s \<and> nb_export_size s = sz \<and> \<not> nb_disconnected s"
proof -
  let ?banner = "NBDMAGIC @ be_bytes 8 NBD_IHAVEOPT_MAGIC @ be_bytes 2 3"
  let ?opt = "be_bytes 8 NBD_IHAVEOPT_MAGIC @ be_bytes 4 NBD_OPT_EXPORT_NAME @ be_bytes 4 0"
  let ?resp = "be_bytes 8 sz @ be_bytes 2 1 @ replicate 124 0"
  have lb: "length ?banner = 18" by simp
  have "pending t = ?banner" using assms(1-3) by (simp add: pending_def nbd_server_def)
  then obtain t1 where t1: "read_exact_until ''reading NBD banner'' 18 t = (Ok ?banner, t1)" "calm t1"
      "tp_peer t1 = tp_peer t" "tp_sent t1 = []" "tp_taken t1 = 18"
    using read_exact_until_calm [OF assms(4), of 18 "''reading NBD banner''"] assms(2,3) lb by auto
  obtain t2 where t2: "write_all_until ''sending NBD client flags'' (be_bytes 4 1) t1 = (Ok (), t2)" "calm t2"
      "tp_peer t2 = tp_peer t" "tp_sent t2 = be_bytes 4 1" "tp_taken t2 = 18"
    using write_all_until_calm [OF t1(2), of "''sending NBD client flags''" "be_bytes 4 1"] t1(3-5) by auto
  obtain t3 where t3: "write_all_until ''requesting NBD export'' ?opt t2 = (Ok (), t3)" "calm t3"
      "tp_peer t3 = tp_peer t" "tp_sent t3 = be_bytes 4 1 @ ?opt" "tp_taken t3 = 18"
    using write_all_until_calm [OF t2(2), of "''requesting NBD export''" ?opt] t2(3-5) by auto
  have sent: "length (tp_sent t3) = 20" using t3(4) by simp
  then have srv: "nbd_server disk sz (tp_sent t3) = ?banner @ ?resp"
    by (simp add: nbd_server_def serve_requests.simps)
  then have "pending t3 = ?resp" using t3(3,5) assms(1) lb by (simp add: pending_def)
  then obtain t4 where t4: "read_exact_until ''reading NBD export reply'' 134 t3 = (Ok ?resp, t4)" "calm t4"
      "tp_peer t4 = tp_peer t" "tp_sent t4 = tp_sent t3" "tp_taken t4 = 152"
    using read_exact_until_calm [OF t3(2), of 134 "''reading NBD export reply''"] t3(3,5) by auto
  have m: "take 8 ?banner = NBDMAGIC" "be_nat (subrange ?banner 8 16) = NBD_IHAVEOPT_MAGIC"
    by (simp_all add: subrange_def be_nat_be_bytes NBD_IHAVEOPT_MAGIC_def)
  have e: "be_nat (take 8 ?resp) = sz" using assms(5) by (simp add: be_nat_be_bytes)
  let ?s = "\<lparr>nb_stream = t4, nb_export_size = sz, nb_request_id = 1, nb_disconnected = False\<rparr>"
  have "handshake t = (Ok ?s, t4)"
    using t1(1) t2(1) t3(1) t4(1) m e assms(5)
    by (simp add: handshake_def io_bind_def be_nat_be_bytes)
  moreover have "in_sync disk ?s"
    using t4 sent srv assms(1,5) lb by (simp add: in_sync_def)
  ultimately show ?thesis by auto
qed

text \<open>A connection to the server before the handshake.\<close>

definition connected :: "(nat \<Rightarrow> byte) \<Rightarrow> nat \<Rightarrow> net_event list \<Rightarrow> transport" where
  "connected disk sz script = \<lparr>tp_peer = nbd_server disk sz, tp_sent = [], tp_taken = 0, tp_script = script\<rparr>"

section \<open>Properties\<close>





text \<open>C37. However threads ask for, give up and drop sessions, the process-wide count is the number of
  permits held, and that number never exceeds the configured maximum (at least one).\<close>

theorem nbd_sessions_bounded:
  assumes "(permit_step limit)\<^sup>*\<^sup>* no_sessions st" and "\<forall>i. limit i \<le> m"
  shows "se_count st = card (holders st) \<and> card (holders st) \<le> max m 1"
proof -
  have "permit_inv m no_sessions" by (simp add: permit_inv_def no_sessions_def holders_def)
  with assms(1) have "permit_inv m st"
    by (induction rule: rtranclp_induct) (use assms(2) permit_step_inv in blast)+
  then show ?thesis by (simp add: permit_inv_def)
qed

theorem nbd_sessions_bounded_witness:
  "\<exists>st. (permit_step (\<lambda>_. 1))\<^sup>*\<^sup>* no_sessions st \<and> holders st = {7} \<and> se_count st = 1"
proof -
  let ?s1 = "no_sessions\<lparr>se_phase := (se_phase no_sessions)(7 := Waiting)\<rparr>"
  let ?s2 = "?s1\<lparr>se_count := 1, se_phase := (se_phase ?s1)(7 := Holding)\<rparr>"
  have "permit_step (\<lambda>_. 1) no_sessions ?s1" by (rule call) (simp add: no_sessions_def)
  moreover have "permit_step (\<lambda>_. 1) ?s1 ?s2"
    by (rule grant [of _ 7]) (simp_all add: acquire_grant_def no_sessions_def)
  ultimately have r: "(permit_step (\<lambda>_. 1))\<^sup>*\<^sup>* no_sessions ?s2"
    by (rule rtranclp.rtrancl_into_rtrancl [OF r_into_rtranclp])
  have h: "holders ?s2 = {7}" by (auto simp: holders_def no_sessions_def)
  have "se_count ?s2 = card (holders ?s2)" using nbd_sessions_bounded [OF r, of 1] by blast
  then show ?thesis using r h by auto
qed

end
