(* ===== verification/Disk_Reader.thy ===== *)
theory Disk_Reader
  imports Vmdk Nbd
begin

text \<open>
  \<open>src/vms/stream.rs\<close>: image identification and \<open>DiskReader\<close>, the read-only view of a
  virtual disk over a raw file, a sparse VMDK, the extents of a VMDK descriptor, or an NBD session.

  The laws give each backend a byte function, \<open>backend_byte\<close>, and an invariant,
  \<open>reader_inv\<close>, and show that \<open>driver_read_range\<close> returns its windows, and that the opening
  code only produces readers that satisfy the invariant.
\<close>

section \<open>Image identification\<close>

definition format_by_extension :: "path \<Rightarrow> string option" where
  "format_by_extension p = (case extension p of
       None \<Rightarrow> None
     | Some e \<Rightarrow> (let ext = to_ascii_lowercase e in
         if ext = ''vmdk'' then Some ''vmdk''
         else if ext = ''vdi'' then Some ''vdi''
         else if ext = ''vhd'' then Some ''vpc''
         else if ext = ''vhdx'' then Some ''vhdx''
         else if ext = ''qcow2'' then Some ''qcow2''
         else if ext = ''qcow'' then Some ''qcow''
         else if ext = ''qed'' then Some ''qed''
         else if ext \<in> {''img'', ''raw'', ''dd'', ''bin''} then Some ''raw''
         else None))"

definition ascii_bytes :: "string \<Rightarrow> bytes" where
  "ascii_bytes s = map (\<lambda>c. of_nat (code c)) s"

definition format_by_signature :: "bytes \<Rightarrow> string option" where
  "format_by_signature hd' =
     (if length hd' < 8 then None
      else if is_sparse_header hd' \<or> is_text_descriptor hd' then Some ''vmdk''
      else if starts_with hd' (ascii_bytes ''<<< '') \<and> 0x44 \<le> length hd'
              \<and> subrange hd' 0x40 0x44 = [0x7F, 0x10, 0xDA, 0xBE] then Some ''vdi''
      else if starts_with hd' (ascii_bytes ''conectix'') then Some ''vpc''
      else if starts_with hd' (ascii_bytes ''vhdxfile'') then Some ''vhdx''
      else if starts_with hd' (ascii_bytes ''QFI'' @ [0xFB]) then Some ''qcow2''
      else if starts_with hd' (ascii_bytes ''QED'' @ [0]) then Some ''qed''
      else None)"

text \<open>The sum of the extents' sectors, an unchecked \<open>u64\<close> sum.\<close>

definition sum64 :: "bool \<Rightarrow> nat list \<Rightarrow> ('e, nat) res" where
  "sum64 oc xs = fold (\<lambda>x acc. and_then acc (\<lambda>a. add64 oc a x)) xs (Ok 0)"

definition text_or_default :: "(io_error, string) res \<Rightarrow> string" where
  "text_or_default r = (case r of Ok t \<Rightarrow> t | _ \<Rightarrow> [])"

definition native_vmdk_capacity :: "bool \<Rightarrow> host \<Rightarrow> path \<Rightarrow> bytes \<Rightarrow> (io_error, nat option) res" where
  "native_vmdk_capacity oc h p hd' =
     (if is_sparse_header hd'
      then and_then (read_sparse_header hd') (\<lambda>cab.
             and_then (mul64 oc (sh_capacity_sectors cab) SECTOR) (\<lambda>c. Ok (Some c)))
      else if is_text_descriptor hd'
      then and_then (sum64 oc (map ed_sectors (ds_extents (parse_descriptor
               (text_or_default (read_to_string h p)))))) (\<lambda>n.
             if n > 0 then and_then (mul64 oc n SECTOR) (\<lambda>c. Ok (Some c)) else Ok None)
      else Ok None)"

definition extent_file_len :: "host \<Rightarrow> path \<Rightarrow> extent_descriptor \<Rightarrow> nat" where
  "extent_file_len h p e = (case ed_file e of
       None \<Rightarrow> 0
     | Some name \<Rightarrow> (case host_metadata h (resolve_extent_path p name) of
         Ok m \<Rightarrow> md_len m | _ \<Rightarrow> 0))"

definition compute_actual_vmdk_size :: "bool \<Rightarrow> host \<Rightarrow> path \<Rightarrow> bytes \<Rightarrow> (io_error, nat) res" where
  "compute_actual_vmdk_size oc h p hd' =
     (let own = (case host_metadata h p of Ok m \<Rightarrow> md_len m | _ \<Rightarrow> 0) in
      if is_text_descriptor hd'
      then (case read_to_string h p of
          Ok body \<Rightarrow> sum64 oc (own # map (extent_file_len h p) (ds_extents (parse_descriptor body)))
        | _ \<Rightarrow> Ok own)
      else Ok own)"

text \<open>A single \<open>read\<close> into a zeroed buffer of \<open>n\<close> bytes, its result ignored.\<close>

definition read_header :: "nat \<Rightarrow> handle \<Rightarrow> bytes \<times> handle" where
  "read_header n f = (case file_read n f of
       (Ok bs, f') \<Rightarrow> (bs @ replicate (n - length bs) 0, f')
     | (_, f') \<Rightarrow> (replicate n 0, f'))"

definition positive_or :: "nat \<Rightarrow> nat \<Rightarrow> nat" where
  "positive_or v d = (if v > 0 then v else d)"

text \<open>The virtual size of a fixed or dynamic VHD: its footer, or the copy at its start.\<close>

definition vpc_virtual_size :: "nat \<Rightarrow> bytes \<Rightarrow> handle \<Rightarrow> nat" where
  "vpc_virtual_size file_size hd' f =
     (if file_size \<ge> 512 then
        (case io_bind (seek_start (file_size - 512)) (\<lambda>_. read_exact 512) f of
           (Ok footer, _) \<Rightarrow>
             if starts_with footer (ascii_bytes ''conectix'')
             then positive_or (be_nat (subrange footer 48 56)) file_size
             else if starts_with hd' (ascii_bytes ''conectix'')
             then positive_or (be_nat (subrange hd' 48 56)) file_size else file_size
         | _ \<Rightarrow> if starts_with hd' (ascii_bytes ''conectix'')
             then positive_or (be_nat (subrange hd' 48 56)) file_size else file_size)
      else file_size)"

definition identify_image :: "bool \<Rightarrow> host \<Rightarrow> path \<Rightarrow> (io_error, image_info) res" where
  "identify_image oc h p =
     and_then (open_read_file h p) (\<lambda>f.
     and_then (host_metadata h p) (\<lambda>md.
       (let file_size = md_len md;
            (hd', f') = read_header (min 1024 file_size) f;
            info = (\<lambda>fmt vsize asize hv. \<lparr>im_path = p, im_format = fmt, im_virtual_size = vsize,
              im_actual_size = asize, im_hypervisor = hv\<rparr>)
        in (case (case format_by_signature hd' of Some s \<Rightarrow> Some s | None \<Rightarrow> format_by_extension p) of
              None \<Rightarrow> (let fmt = option_or (format_by_extension p) ''raw''
                       in Ok (info fmt file_size file_size (hypervisor_from_format fmt)))
            | Some fmt \<Rightarrow>
                if fmt = ''raw'' then Ok (info ''raw'' file_size file_size HvUnknown)
                else if fmt = ''vmdk'' then
                  and_then (native_vmdk_capacity oc h p hd') (\<lambda>cap.
                  and_then (compute_actual_vmdk_size oc h p hd') (\<lambda>actual.
                    (case cap of
                       Some c \<Rightarrow> Ok (info ''vmdk'' c actual VMware)
                     | None \<Rightarrow> Ok (info ''vmdk'' file_size (positive_or actual file_size) VMware))))
                else if fmt = ''qcow2'' then
                  Ok (info ''qcow2'' (if 32 \<le> length hd' \<and> starts_with hd' (ascii_bytes ''QFI'' @ [0xFB])
                     then positive_or (be_nat (subrange hd' 24 32)) file_size else file_size)
                    file_size Qemu)
                else if fmt = ''vpc'' \<or> fmt = ''vhd'' then
                  Ok (info ''vpc'' (vpc_virtual_size file_size hd' f') file_size HyperV)
                else if fmt = ''vdi'' then
                  Ok (info ''vdi'' (if 0x178 \<le> length hd' \<and> starts_with hd' (ascii_bytes ''<<< '')
                     then positive_or (le_nat (subrange hd' 0x170 0x178)) file_size else file_size)
                    file_size VirtualBox)
                else Ok (info fmt file_size file_size (hypervisor_from_format fmt))))))"

section \<open>Backends\<close>

datatype extent_data = FlatData handle nat | SparseData sparse_extent | ZeroData

record open_extent =
  oe_start :: nat
  oe_length :: nat
  oe_data :: extent_data

datatype backend = RawFile handle | SparseDisk sparse_extent | Extents "open_extent list"
  | NbdServer nbd_stream

record disk_reader =
  dk_backend :: backend
  dk_virtual_size :: nat
  dk_access_mode :: string
  dk_stats :: stats
  dk_cancel :: token

definition recommended_chunk_size :: "disk_reader \<Rightarrow> nat" where
  "recommended_chunk_size d = (case dk_backend d of NbdServer _ \<Rightarrow> 512 * 1024 | _ \<Rightarrow> 256 * 1024)"

definition is_native :: "disk_reader \<Rightarrow> bool" where
  "is_native d = (case dk_backend d of NbdServer _ \<Rightarrow> False | _ \<Rightarrow> True)"

definition record_cache_hit :: "disk_reader \<Rightarrow> disk_reader" where
  "record_cache_hit d = d\<lparr>dk_stats := (dk_stats d)\<lparr>st_cache_hits := st_cache_hits (dk_stats d) + 1\<rparr>\<rparr>"

subsection \<open>Extents\<close>

text \<open>The first extent that holds \<open>pos\<close>; the end of an extent is an unchecked sum.\<close>

fun find_extent :: "bool \<Rightarrow> nat \<Rightarrow> open_extent list \<Rightarrow> (io_error, nat option) res" where
  "find_extent oc pos [] = Ok None"
| "find_extent oc pos (e # es) =
     (let later = and_then (find_extent oc pos es) (\<lambda>r. Ok (map_option Suc r)) in
      if oe_start e \<le> pos
      then and_then (add64 oc (oe_start e) (oe_length e)) (\<lambda>stop. if pos < stop then Ok (Some 0) else later)
      else later)"

text \<open>One round of the loop of \<open>read_from_extents\<close>: \<open>n\<close> bytes at \<open>within\<close> of one extent.\<close>

definition read_extent :: "bool \<Rightarrow> nat \<Rightarrow> nat \<Rightarrow> (open_extent, io_error, bytes) io" where
  "read_extent oc within n e = (case oe_data e of
       FlatData f base \<Rightarrow>
         (case io_bind (io_lift (add64 oc base within)) (\<lambda>at.
               io_bind (seek_start at) (\<lambda>_. read_or_zeros n)) f of
            (r, f') \<Rightarrow> (r, e\<lparr>oe_data := FlatData f' base\<rparr>))
     | SparseData s \<Rightarrow>
         (case io_bind (read_at oc within (replicate n 0)) (\<lambda>(k, b).
               io_ret (take k b @ replicate (n - k) 0)) s of
            (r, s') \<Rightarrow> (r, e\<lparr>oe_data := SparseData s'\<rparr>))
     | ZeroData \<Rightarrow> (Ok (replicate n 0), e))"

definition on_extent :: "nat \<Rightarrow> (open_extent, io_error, 'a) io \<Rightarrow> (open_extent list, io_error, 'a) io" where
  "on_extent i m es = (case m (es ! i) of (r, e') \<Rightarrow> (r, es[i := e']))"

text \<open>The loop of \<open>read_from_extents\<close>.  The extent found holds the position, so a round always
  copies at least one byte; the test for \<open>n = 0\<close> is only there for the recursion.\<close>

function read_from_extents_loop :: "bool \<Rightarrow> nat \<Rightarrow> nat \<Rightarrow> nat \<Rightarrow> bytes \<Rightarrow> open_extent list
    \<Rightarrow> (io_error, bytes) res \<times> open_extent list" where
  "read_from_extents_loop oc offset len filled buf es =
     (if filled < len then
        (let pos = offset + filled in
         (case find_extent oc pos es of
            Err x \<Rightarrow> (Err x, es)
          | Panic \<Rightarrow> (Panic, es)
          | Ok None \<Rightarrow> (Ok buf, es)
          | Ok (Some i) \<Rightarrow>
              (let within = pos - oe_start (es ! i);
                   n = min (oe_length (es ! i) - within) (len - filled)
               in if n = 0 then (Panic, es)
                  else (case on_extent i (read_extent oc within n) es of
                      (Ok bs, es') \<Rightarrow> read_from_extents_loop oc offset len (filled + n) (splice buf filled bs) es'
                    | (Err x, es') \<Rightarrow> (Err x, es')
                    | (Panic, es') \<Rightarrow> (Panic, es')))))
      else (Ok buf, es))"
  by pat_completeness auto
termination by (relation "measure (\<lambda>(oc, offset, len, filled, buf, es). len - filled)") auto

declare read_from_extents_loop.simps [simp del]

definition read_from_extents :: "bool \<Rightarrow> nat \<Rightarrow> nat \<Rightarrow> (open_extent list, io_error, bytes) io" where
  "read_from_extents oc offset len = read_from_extents_loop oc offset len 0 (replicate len 0)"

subsection \<open>Reading a range\<close>

definition read_backend :: "bool \<Rightarrow> nat \<Rightarrow> nat \<Rightarrow> (backend, io_error, bytes) io" where
  "read_backend oc offset len b = (case b of
       RawFile f \<Rightarrow> (case io_bind (seek_start offset) (\<lambda>_. read_or_zeros len) f of (r, f') \<Rightarrow> (r, RawFile f'))
     | SparseDisk s \<Rightarrow> (case io_bind (read_at oc offset (replicate len 0)) (\<lambda>(n, buf). io_ret (take n buf)) s of
         (r, s') \<Rightarrow> (r, SparseDisk s'))
     | Extents es \<Rightarrow> (case read_from_extents oc offset len es of (r, es') \<Rightarrow> (r, Extents es'))
     | NbdServer s \<Rightarrow> (case nbd_read_range offset len s of (r, s') \<Rightarrow> (r, NbdServer s')))"

text \<open>The counters of the statistics stay far below \<open>2 ^ 64\<close> and are unbounded here.\<close>

definition count_read :: "backend \<Rightarrow> stats \<Rightarrow> stats" where
  "count_read b s = (case b of
       NbdServer _ \<Rightarrow> s\<lparr>st_read_operations := st_read_operations s + 1, st_nbd_requests := st_nbd_requests s + 1\<rparr>
     | _ \<Rightarrow> s\<lparr>st_read_operations := st_read_operations s + 1\<rparr>)"

definition read_range :: "bool \<Rightarrow> nat \<Rightarrow> nat \<Rightarrow> (disk_reader, io_error, bytes) io" where
  "read_range oc offset len d = (case load_token (dk_cancel d) of
       (True, t) \<Rightarrow> (Err (IoError Interrupted ''Analysis cancelled by the user''), d\<lparr>dk_cancel := t\<rparr>)
     | (False, t) \<Rightarrow>
         (let d1 = d\<lparr>dk_cancel := t\<rparr> in
          if dk_virtual_size d \<le> offset \<or> len = 0 then (Ok [], d1)
          else
            (let len' = min len (dk_virtual_size d - offset) in
             (case read_backend oc offset len' (dk_backend d) of (r, b') \<Rightarrow>
                (let d2 = d1\<lparr>dk_backend := b', dk_stats := count_read (dk_backend d) (dk_stats d)\<rparr> in
                 (case r of
                    Ok bs \<Rightarrow> (Ok bs, d2\<lparr>dk_stats := (dk_stats d2)
                      \<lparr>st_bytes_read := st_bytes_read (dk_stats d2) + length bs\<rparr>\<rparr>)
                  | Err e \<Rightarrow> (Err e, d2)
                  | Panic \<Rightarrow> (Panic, d2)))))))"

text \<open>\<open>VmDriver::read_range\<close> for a buffer of \<open>n\<close> bytes: what is missing is zeroed.\<close>

definition driver_read_range :: "bool \<Rightarrow> nat \<Rightarrow> nat \<Rightarrow> (disk_reader, vm_error, bytes) io" where
  "driver_read_range oc offset n = io_bind (io_map_err Io (read_range oc offset n)) (\<lambda>bs.
     io_ret (bs @ replicate (n - length bs) 0))"

section \<open>Opening\<close>

definition diagnostic_error_kind :: "vm_error \<Rightarrow> io_kind" where
  "diagnostic_error_kind e = (case e of
       ImageNotFound _ \<Rightarrow> NotFound
     | MissingDiskComponent _ _ _ _ src \<Rightarrow> kind_of src
     | QemuNotFound _ \<Rightarrow> NotFound
     | Cancelled \<Rightarrow> Interrupted
     | _ \<Rightarrow> OtherKind)"

definition diagnostic_to_io :: "vm_error \<Rightarrow> io_error" where
  "diagnostic_to_io e = (case e of
       Io src \<Rightarrow> src
     | other \<Rightarrow> IoError (diagnostic_error_kind other) (display_error other))"

definition nbd_error_to_vm :: "io_error \<Rightarrow> vm_error" where
  "nbd_error_to_vm e = (if kind_of e = Interrupted then Cancelled else Nbd (io_text e))"

definition classify_source_path :: "path \<Rightarrow> string \<times> bool option" where
  "classify_source_path p = (if starts_with p [CHR 0x5C, CHR 0x5C]
     then (''unc-network'', Some True) else (''unclassified'', None))"

definition open_main_image_file :: "host \<Rightarrow> path \<Rightarrow> (vm_error, handle) res" where
  "open_main_image_file h p = map_err
     (\<lambda>e. if kind_of e = NotFound then ImageNotFound p else Io e) (open_read_file h p)"

definition parent_name :: "descriptor \<Rightarrow> string option" where
  "parent_name d = (case ds_parent_hint d of
       Some n \<Rightarrow> if trim n \<noteq> [] then Some n else None
     | None \<Rightarrow> None)"

definition validate_parent_reference :: "host \<Rightarrow> path \<Rightarrow> descriptor \<Rightarrow> (vm_error, unit) res" where
  "validate_parent_reference h dpath d = (case parent_name d of
       Some n \<Rightarrow> ensure_component_exists h dpath n (resolve_extent_path dpath n) ''VMDK parent disk''
     | None \<Rightarrow> Ok ())"

fun validate_extents :: "host \<Rightarrow> path \<Rightarrow> extent_descriptor list \<Rightarrow> (vm_error, unit) res" where
  "validate_extents h dpath [] = Ok ()"
| "validate_extents h dpath (e # es) =
     (if ed_kind e = ''ZERO'' then validate_extents h dpath es
      else (case ed_file e of
          None \<Rightarrow> validate_extents h dpath es
        | Some n \<Rightarrow> and_then (ensure_component_exists h dpath n (resolve_extent_path dpath n) ''VMDK extent'')
            (\<lambda>_. validate_extents h dpath es)))"

definition validate_extent_paths :: "host \<Rightarrow> path \<Rightarrow> descriptor \<Rightarrow> (vm_error, unit) res" where
  "validate_extent_paths h dpath d = validate_extents h dpath (ds_extents d)"

definition validate_descriptor_components :: "host \<Rightarrow> path \<Rightarrow> descriptor \<Rightarrow> (vm_error, unit) res" where
  "validate_descriptor_components h dpath d =
     and_then (validate_parent_reference h dpath d) (\<lambda>_. validate_extent_paths h dpath d)"

definition MAX_VMDK_PARENT_DEPTH :: nat where
  "MAX_VMDK_PARENT_DEPTH = 32"

text \<open>\<open>vec![0u8; n]\<close>: a capacity over \<open>isize::MAX\<close> panics.\<close>

definition alloc_zeroed :: "nat \<Rightarrow> ('e, bytes) res" where
  "alloc_zeroed n = (if n < 2 ^ 63 then Ok (replicate n 0) else Panic)"

text \<open>The descriptor embedded in a sparse file, as the opening and the validating code read it.\<close>

definition embedded_descriptor :: "bool \<Rightarrow> handle \<Rightarrow> sparse_header \<Rightarrow> (io_error, descriptor) res \<times> handle" where
  "embedded_descriptor oc f cab =
     (case and_then (mul64 oc (sh_descriptor_sectors cab) SECTOR) (\<lambda>n.
           and_then (alloc_zeroed n) (\<lambda>buf.
           and_then (mul64 oc (sh_descriptor_offset cab) SECTOR) (\<lambda>pos. Ok (n, pos)))) of
        Err e \<Rightarrow> (Err e, f)
      | Panic \<Rightarrow> (Panic, f)
      | Ok (n, pos) \<Rightarrow> io_bind (seek_start pos) (\<lambda>_. io_bind (read_or_zeros n) (\<lambda>body.
          io_ret (parse_descriptor (utf8_lossy body)))) f)"

text \<open>The descriptor a VMDK file carries, if any.\<close>

definition file_descriptor :: "bool \<Rightarrow> host \<Rightarrow> path \<Rightarrow> handle \<Rightarrow> bytes \<Rightarrow> (io_error, descriptor option) res" where
  "file_descriptor oc h p f hd' =
     (if is_sparse_header hd'
      then and_then (read_sparse_header hd') (\<lambda>cab.
        if sh_descriptor_offset cab = 0 \<or> sh_descriptor_sectors cab = 0 then Ok None
        else and_then (fst (embedded_descriptor oc f cab)) (\<lambda>d. Ok (Some d)))
      else if is_text_descriptor hd'
      then and_then (read_to_string h p) (\<lambda>body. Ok (Some (parse_descriptor body)))
      else Ok None)"

definition open_for_validation :: "host \<Rightarrow> path \<Rightarrow> (path \<times> string) option \<Rightarrow> (vm_error, handle) res" where
  "open_for_validation h p ctx = (case ctx of
       Some (dpath, name) \<Rightarrow> open_component_file h p dpath name ''VMDK parent disk''
     | None \<Rightarrow> open_main_image_file h p)"

function validate_vmdk_components_inner :: "bool \<Rightarrow> host \<Rightarrow> path \<Rightarrow> path list \<Rightarrow> nat
    \<Rightarrow> (path \<times> string) option \<Rightarrow> (vm_error, unit) res" where
  "validate_vmdk_components_inner oc h p visited depth ctx =
     (if depth > MAX_VMDK_PARENT_DEPTH
      then Err (Parse (''VMDK parent chain exceeds the maximum depth of '' @ dec_str MAX_VMDK_PARENT_DEPTH
        @ '' at '' @ quoted p))
      else
        (let identity = (case h_canon h p of Inr q \<Rightarrow> q | Inl _ \<Rightarrow> p) in
         if list_ex (same_path identity) visited
         then Err (Parse (''VMDK parent chain contains a cycle at '' @ quoted p))
         else
           and_then (open_for_validation h p ctx) (\<lambda>f.
             (case file_read 512 f of (r, f') \<Rightarrow>
               and_then (map_err Io r) (\<lambda>hd'.
               and_then (map_err Io (file_descriptor oc h p f' hd')) (\<lambda>d.
                 (case d of
                    None \<Rightarrow> Ok ()
                  | Some d \<Rightarrow> and_then (validate_descriptor_components h p d) (\<lambda>_.
                      (case parent_name d of
                         None \<Rightarrow> Ok ()
                       | Some n \<Rightarrow> validate_vmdk_components_inner oc h (resolve_extent_path p n)
                           (identity # visited) (depth + 1) (Some (p, n)))))))))))"
  by pat_completeness auto
termination
  by (relation "measure (\<lambda>(oc, h, p, visited, depth, ctx). MAX_VMDK_PARENT_DEPTH + 1 - depth)") auto

declare validate_vmdk_components_inner.simps [simp del]

definition validate_vmdk_components :: "bool \<Rightarrow> host \<Rightarrow> path \<Rightarrow> (vm_error, unit) res" where
  "validate_vmdk_components oc h p = validate_vmdk_components_inner oc h p [] 0 None"

text \<open>Opening one extent of a text descriptor, and all of them at consecutive positions.\<close>

definition open_extent_data :: "bool \<Rightarrow> host \<Rightarrow> path \<Rightarrow> extent_descriptor
    \<Rightarrow> (vm_error, extent_data open_result) res" where
  "open_extent_data oc h p e =
     (if ed_kind e = ''ZERO'' then Ok (Native ZeroData)
      else if ed_kind e \<in> {''FLAT'', ''VMFS'', ''VMFSRAW''} then
        (case ed_file e of
           None \<Rightarrow> Ok (NeedsNbd ''FLAT extent without a file'')
         | Some name \<Rightarrow> and_then (open_component_file h (resolve_extent_path p name) p name ''VMDK extent'') (\<lambda>f.
             and_then (mul64 oc (ed_offset_sectors e) SECTOR) (\<lambda>off. Ok (Native (FlatData f off)))))
      else if ed_kind e \<in> {''SPARSE'', ''VMFSSPARSE''} then
        (case ed_file e of
           None \<Rightarrow> Ok (NeedsNbd ''SPARSE extent without a file'')
         | Some name \<Rightarrow> and_then (open_sparse oc h (resolve_extent_path p name) p name ''VMDK extent'') (\<lambda>r.
             (case r of Native s \<Rightarrow> Ok (Native (SparseData s)) | NeedsNbd m \<Rightarrow> Ok (NeedsNbd m))))
      else Ok (NeedsNbd (''VMDK extent of type '' @ ed_kind e @ '' is not supported'')))"

fun open_extents :: "bool \<Rightarrow> host \<Rightarrow> path \<Rightarrow> nat \<Rightarrow> extent_descriptor list
    \<Rightarrow> (vm_error, open_extent list open_result) res" where
  "open_extents oc h p start [] = Ok (Native [])"
| "open_extents oc h p start (e # es) =
     and_then (mul64 oc (ed_sectors e) SECTOR) (\<lambda>len.
     and_then (open_extent_data oc h p e) (\<lambda>r.
       (case r of
          NeedsNbd m \<Rightarrow> Ok (NeedsNbd m)
        | Native dat \<Rightarrow> and_then (add64 oc start len) (\<lambda>next_start.
            and_then (open_extents oc h p next_start es) (\<lambda>rest.
              (case rest of
                 NeedsNbd m \<Rightarrow> Ok (NeedsNbd m)
               | Native xs \<Rightarrow> Ok (Native (\<lparr>oe_start = start, oe_length = len, oe_data = dat\<rparr> # xs))))))))"

definition open_sparse_image :: "bool \<Rightarrow> handle \<Rightarrow> bytes \<Rightarrow> (io_error, (backend \<times> string) open_result) res" where
  "open_sparse_image oc f hd' =
     and_then (read_sparse_header hd') (\<lambda>cab.
       (let finish = (\<lambda>f'. and_then (from_header oc f' cab) (\<lambda>r. (case r of
              Native ext \<Rightarrow> Ok (Native (SparseDisk ext, ''vmdk monolithicSparse''))
            | NeedsNbd m \<Rightarrow> Ok (NeedsNbd m))))
        in if sh_descriptor_offset cab \<noteq> 0 \<and> sh_descriptor_sectors cab \<noteq> 0
           then (case embedded_descriptor oc f cab of (r, f') \<Rightarrow>
             and_then r (\<lambda>d.
               if has_parent d then Ok (NeedsNbd ''VMDK delta/snapshot with a parent disk'')
               else if length (ds_extents d) > 1
               then Ok (NeedsNbd ''VMDK sparse with multiple declared extents'')
               else finish f'))
           else finish f))"

definition open_descriptor_image :: "bool \<Rightarrow> host \<Rightarrow> path \<Rightarrow> (vm_error, (backend \<times> string) open_result) res" where
  "open_descriptor_image oc h p =
     and_then (map_err Io (read_to_string h p)) (\<lambda>body.
       (let d = parse_descriptor body in
        if has_parent d then Ok (NeedsNbd ''VMDK delta/snapshot with a parent disk'')
        else if ds_extents d = [] then Ok (NeedsNbd ''VMDK descriptor with no extents'')
        else and_then (open_extents oc h p 0 (ds_extents d)) (\<lambda>r. (case r of
            NeedsNbd m \<Rightarrow> Ok (NeedsNbd m)
          | Native es \<Rightarrow> Ok (Native (Extents es, ''vmdk '' @
              (if ds_create_type d = [] then dec_str (length es) @ '' extents'' else ds_create_type d)))))))"

definition open_vmdk_native :: "bool \<Rightarrow> host \<Rightarrow> path \<Rightarrow> (vm_error, (backend \<times> string) open_result) res" where
  "open_vmdk_native oc h p =
     and_then (validate_vmdk_components oc h p) (\<lambda>_.
     and_then (open_main_image_file h p) (\<lambda>f.
       (case file_read 512 f of (r, f') \<Rightarrow>
         and_then (map_err Io r) (\<lambda>hd'.
           if is_sparse_header hd' then map_err Io (open_sparse_image oc f' hd')
           else if is_text_descriptor hd' then open_descriptor_image oc h p
           else Ok (NeedsNbd ''VMDK with unrecognized header'')))))"

definition open_native :: "bool \<Rightarrow> host \<Rightarrow> image_info \<Rightarrow> (vm_error, (backend \<times> string) open_result) res" where
  "open_native oc h info =
     (let fmt = to_ascii_lowercase (im_format info) in
      if fmt = ''raw'' then and_then (open_main_image_file h (im_path info)) (\<lambda>f.
        Ok (Native (RawFile f, ''raw'')))
      else if fmt = ''vmdk'' then open_vmdk_native oc h (im_path info)
      else Ok (NeedsNbd (''format '' @ fmt)))"

text \<open>\<open>DiskReader::open_with_options_diagnostic\<close>.  \<open>resolved\<close> is what
  \<open>resolve_qemu_nbd\<close> finds and \<open>env\<close> the environment of \<open>nbd_open\<close>.\<close>

definition make_reader :: "image_info \<Rightarrow> backend \<Rightarrow> string \<Rightarrow> nat \<Rightarrow> token \<Rightarrow> disk_reader" where
  "make_reader info b mode sz tok = (case classify_source_path (im_path info) of (loc, net) \<Rightarrow>
     \<lparr>dk_backend = b, dk_virtual_size = sz, dk_access_mode = mode,
      dk_stats = default_stats\<lparr>st_access_mode := mode, st_source_location := loc, st_source_is_network := net\<rparr>,
      dk_cancel = tok\<rparr>)"

definition unsupported_message :: "image_info \<Rightarrow> string \<Rightarrow> string" where
  "unsupported_message info reason = im_format info @ '' requires an external read backend ('' @ reason
     @ ''). Standard inspection uses direct, read-only file access only and will not launch qemu-nbd ''
     @ ''automatically. Enable Options::with_force_nbd(true) or --force-nbd only after reviewing its ''
     @ ''external-helper warning.''"

definition open_with_options_diagnostic :: "bool \<Rightarrow> host \<Rightarrow> (io_error, path) res \<Rightarrow> nbd_env \<Rightarrow> image_info
    \<Rightarrow> options \<Rightarrow> (vm_error, disk_reader) res \<times> token" where
  "open_with_options_diagnostic oc h resolved env info o' =
     (if op_force_nbd o' then
        (case and_then (if eq_ignore_ascii_case (im_format info) ''vmdk''
                        then validate_vmdk_components oc h (im_path info) else Ok ()) (\<lambda>_.
              map_err (\<lambda>e. QemuNotFound (io_text e)) resolved) of
           Err e \<Rightarrow> (Err e, op_cancel_token o')
         | Panic \<Rightarrow> (Panic, op_cancel_token o')
         | Ok p \<Rightarrow> (case nbd_open env p info o' of (r, tok) \<Rightarrow>
             (and_then (map_err nbd_error_to_vm r) (\<lambda>s.
                Ok (make_reader info (NbdServer s)
                  (''explicit qemu-nbd '' @ (if op_unix_socket o' \<noteq> None then ''unix'' else ''tcp''))
                  (max (nb_export_size s) (im_virtual_size info)) tok)), tok)))
      else
        (and_then (open_native oc h info) (\<lambda>r. (case r of
             Native (b, mode) \<Rightarrow> Ok (make_reader info b (''direct-read ('' @ mode @ '')'')
               (im_virtual_size info) (op_cancel_token o'))
           | NeedsNbd reason \<Rightarrow> Err (UnsupportedFormat (unsupported_message info reason)))),
         op_cancel_token o'))"

definition open_with_options :: "bool \<Rightarrow> host \<Rightarrow> (io_error, path) res \<Rightarrow> nbd_env \<Rightarrow> image_info
    \<Rightarrow> options \<Rightarrow> (io_error, disk_reader) res \<times> token" where
  "open_with_options oc h resolved env info o' =
     (case open_with_options_diagnostic oc h resolved env info o' of
        (r, tok) \<Rightarrow> (map_err diagnostic_to_io r, tok))"

text \<open>\<open>DiskReader::open\<close> and \<open>DiskReader::from_nbd\<close>.\<close>

definition open_reader :: "bool \<Rightarrow> host \<Rightarrow> (io_error, path) res \<Rightarrow> nbd_env \<Rightarrow> path option \<Rightarrow> image_info
    \<Rightarrow> token \<Rightarrow> (io_error, disk_reader) res \<times> token" where
  "open_reader oc h resolved env qemu_nbd info tok =
     open_with_options oc h resolved env info (default_options\<lparr>op_qemu_nbd := qemu_nbd, op_cancel_token := tok\<rparr>)"

definition from_nbd :: "nbd_stream \<Rightarrow> image_info \<Rightarrow> token \<Rightarrow> disk_reader" where
  "from_nbd s info tok = make_reader info (NbdServer s) ''explicit qemu-nbd tcp''
     (max (nb_export_size s) (im_virtual_size info)) tok"

section \<open>The bytes of an extent\<close>

fun data_byte :: "extent_data \<Rightarrow> nat \<Rightarrow> byte" where
  "data_byte (FlatData f base) p = byte_fun (f_data f) (base + p)"
| "data_byte (SparseData s) p = (if p < se_capacity_bytes s then extent_byte s p else 0)"
| "data_byte ZeroData p = 0"

text \<open>Well-formed data of an extent of the given length; and data whose reads do not fail.\<close>

fun data_wf :: "nat \<Rightarrow> extent_data \<Rightarrow> bool" where
  "data_wf len (FlatData f base) \<longleftrightarrow> base + len \<le> 2 ^ 63"
| "data_wf len (SparseData s) \<longleftrightarrow> wf_extent s"
| "data_wf len ZeroData \<longleftrightarrow> True"

fun data_live :: "extent_data \<Rightarrow> bool" where
  "data_live (FlatData f base) \<longleftrightarrow> healthy f"
| "data_live (SparseData s) \<longleftrightarrow> readable s"
| "data_live ZeroData \<longleftrightarrow> True"

lemma take_zeros_window:
  assumes "k = min n (c - p)"
  shows "take k (window g p k @ drop k (replicate n (0 :: byte))) @ replicate (n - k) 0 =
    window (\<lambda>q. if q < c then g q else 0) p n"
  by (rule nth_equalityI) (use assms in \<open>auto simp: nth_append\<close>)

text \<open>Positioned reads of a plain file.\<close>

lemma seek_read_or_zeros:
  assumes "io_bind (seek_start p) (\<lambda>_. read_or_zeros n) f = (r, f')"
  shows "f_data f' = f_data f" "r \<noteq> Panic" "r = Ok bs \<Longrightarrow> bs = window (byte_fun (f_data f)) p n"
    "healthy f \<Longrightarrow> p < 2 ^ 63 \<Longrightarrow> healthy f' \<and> r = Ok (window (byte_fun (f_data f)) p n)"
proof -
  let ?f = "f\<lparr>f_pos := p\<rparr>"
  consider "p < 2 ^ 63" "read_or_zeros n ?f = (r, f')" | "\<not> p < 2 ^ 63" "f' = f" "\<exists>e. r = Err e"
    using assms by (auto simp: io_bind_def seek_start_def split: if_splits)
  note C = this
  show "f_data f' = f_data f" "r \<noteq> Panic" "r = Ok bs \<Longrightarrow> bs = window (byte_fun (f_data f)) p n"
    using C read_or_zeros_safe [of n ?f r f'] by (auto split: if_splits)
  assume "healthy f" "p < 2 ^ 63"
  then have "healthy ?f" "read_or_zeros n ?f = (r, f')" using C by (auto simp: healthy_def)
  then show "healthy f' \<and> r = Ok (window (byte_fun (f_data f)) p n)"
    using read_or_zeros_healthy [of ?f n] by auto
qed

lemma read_sparse_padded:
  assumes "wf_extent s" and "k = min n (se_capacity_bytes s - within)"
    and "read_at oc within (replicate n 0) s = (r, s')"
  shows "same_extent s s'" "wf_extent s'" "r \<noteq> Panic"
    "r = Ok x \<Longrightarrow> x = (k, window (extent_byte s) within k @ drop k (replicate n 0))"
    "readable s \<Longrightarrow> readable s' \<and> r = Ok (k, window (extent_byte s) within k @ drop k (replicate n 0))"
proof -
  have k: "k = min (length (replicate n (0 :: byte))) (se_capacity_bytes s - within)" using assms(2) by simp
  from read_at_safe [OF assms(1) k, of oc] assms(3)
  show "same_extent s s'" "wf_extent s'" "r \<noteq> Panic"
      "r = Ok x \<Longrightarrow> x = (k, window (extent_byte s) within k @ drop k (replicate n 0))"
    by (auto simp: safe_def keeps_def)
  assume "readable s"
  from read_at_total [OF assms(1) this k, of oc] assms(3)
  show "readable s' \<and> r = Ok (k, window (extent_byte s) within k @ drop k (replicate n 0))"
    by (auto simp: reads_to_def)
qed

lemma read_extent_spec:
  assumes wf: "data_wf (oe_length e) (oe_data e)" and n: "within + n \<le> oe_length e" "0 < n"
    and rd: "read_extent oc within n e = (r, e')"
  shows "oe_start e' = oe_start e \<and> oe_length e' = oe_length e \<and> data_wf (oe_length e) (oe_data e') \<and>
    data_byte (oe_data e') = data_byte (oe_data e) \<and> r \<noteq> Panic \<and>
    (\<forall>bs. r = Ok bs \<longrightarrow> bs = window (data_byte (oe_data e)) within n) \<and>
    (data_live (oe_data e) \<longrightarrow> data_live (oe_data e') \<and> (\<exists>bs. r = Ok bs))"
proof (cases "oe_data e")
  case (FlatData f base)
  have b: "base + within < 2 ^ 63" using wf n FlatData by simp
  then have "add64 oc base within = (Ok (base + within) :: (io_error, nat) res)" by (intro add64_ok) simp
  then obtain f' where io: "io_bind (seek_start (base + within)) (\<lambda>_. read_or_zeros n) f = (r, f')"
      and e': "e' = e\<lparr>oe_data := FlatData f' base\<rparr>"
    using rd FlatData by (auto simp: read_extent_def io_bind_def split: prod.splits)
  have "window (byte_fun (f_data f)) (base + within) n = window (data_byte (oe_data e)) within n"
    using FlatData by (intro window_shift) (simp add: add.assoc)
  moreover have "data_byte (oe_data e') = data_byte (oe_data e)" "data_wf (oe_length e) (oe_data e')"
    using seek_read_or_zeros(1) [OF io] wf FlatData e' by (auto simp: fun_eq_iff)
  moreover have "r \<noteq> Panic" "\<forall>bs. r = Ok bs \<longrightarrow> bs = window (byte_fun (f_data f)) (base + within) n"
    using seek_read_or_zeros(2,3) [OF io] by blast+
  moreover have "data_live (oe_data e) \<longrightarrow> data_live (oe_data e') \<and> (\<exists>bs. r = Ok bs)"
    using seek_read_or_zeros(4) [OF io _ b] FlatData e' by simp
  ultimately show ?thesis using e' by simp
next
  case (SparseData s)
  let ?k = "min n (se_capacity_bytes s - within)"
  obtain r1 s' where r1: "read_at oc within (replicate n 0) s = (r1, s')" by fastforce
  have wfs: "wf_extent s" using wf SparseData by simp
  note sp = read_sparse_padded [OF wfs refl r1]
  have e': "e' = e\<lparr>oe_data := SparseData s'\<rparr>"
    using rd SparseData r1 by (cases r1) (auto simp: read_extent_def io_bind_def split: prod.splits)
  have r: "r = (case r1 of Ok (k, b) \<Rightarrow> Ok (take k b @ replicate (n - k) 0) | Err x \<Rightarrow> Err x | Panic \<Rightarrow> Panic)"
    using rd SparseData r1 by (cases r1) (auto simp: read_extent_def io_bind_def split: prod.splits)
  have win: "take ?k (window (extent_byte s) within ?k @ drop ?k (replicate n 0)) @ replicate (n - ?k) 0 =
      window (data_byte (oe_data e)) within n"
  proof -
    have "data_byte (oe_data e) = (\<lambda>q. if q < se_capacity_bytes s then extent_byte s q else 0)"
      using SparseData by (simp add: fun_eq_iff)
    then show ?thesis by (simp only: take_zeros_window [OF refl])
  qed
  have "data_byte (SparseData s') = data_byte (SparseData s)"
    using sp(1) same_extent_meaning(3) [OF sp(1)] by (auto simp: same_extent_def fun_eq_iff)
  moreover have "r \<noteq> Panic" using r sp(3) by (auto split: res.splits)
  moreover have "\<forall>bs. r = Ok bs \<longrightarrow> bs = window (data_byte (oe_data e)) within n"
  proof (intro allI impI)
    fix bs
    assume bs: "r = Ok bs"
    then obtain x where x: "r1 = Ok x" using r by (cases r1) auto
    show "bs = window (data_byte (oe_data e)) within n"
      using bs r x unfolding sp(4) [OF x] by (simp only: win prod.case res.case res.inject)
  qed
  moreover have "data_live (oe_data e) \<longrightarrow> data_live (oe_data e') \<and> (\<exists>bs. r = Ok bs)"
    using r sp(5) SparseData e' by auto
  ultimately show ?thesis using e' sp(2) SparseData by simp
next
  case ZeroData
  then have "window (data_byte (oe_data e)) within n = replicate n 0" by (intro window_zero) simp
  then show ?thesis using rd ZeroData by (auto simp: read_extent_def)
qed

section \<open>The bytes of a list of extents\<close>

text \<open>Consecutive extents from a start, and where they end.\<close>

fun contiguous :: "nat \<Rightarrow> open_extent list \<Rightarrow> bool" where
  "contiguous p [] \<longleftrightarrow> True"
| "contiguous p (e # es) \<longleftrightarrow> oe_start e = p \<and> contiguous (p + oe_length e) es"

definition extents_end :: "nat \<Rightarrow> open_extent list \<Rightarrow> nat" where
  "extents_end p es = p + sum_list (map oe_length es)"

definition covers :: "nat \<Rightarrow> open_extent \<Rightarrow> bool" where
  "covers p e \<longleftrightarrow> oe_start e \<le> p \<and> p < oe_start e + oe_length e"

definition extents_byte :: "open_extent list \<Rightarrow> nat \<Rightarrow> byte" where
  "extents_byte es p = (case List.find (covers p) es of
       None \<Rightarrow> 0 | Some e \<Rightarrow> data_byte (oe_data e) (p - oe_start e))"

definition extents_wf :: "open_extent list \<Rightarrow> bool" where
  "extents_wf es \<longleftrightarrow> contiguous 0 es \<and> extents_end 0 es \<le> 2 ^ 63 \<and>
     (\<forall>e \<in> set es. data_wf (oe_length e) (oe_data e))"

definition extents_live :: "open_extent list \<Rightarrow> bool" where
  "extents_live es \<longleftrightarrow> (\<forall>e \<in> set es. data_live (oe_data e))"

lemma extents_end_Cons [simp]: "extents_end p (e # es) = extents_end (p + oe_length e) es"
  by (simp add: extents_end_def)

lemma find_extent_spec:
  assumes "contiguous p es" "extents_end p es < 2 ^ 64" "p \<le> pos"
  shows "\<exists>r. find_extent oc pos es = Ok r \<and> (case r of
      None \<Rightarrow> List.find (covers pos) es = None \<and> extents_end p es \<le> pos
    | Some i \<Rightarrow> i < length es \<and> covers pos (es ! i) \<and> List.find (covers pos) es = Some (es ! i))"
  using assms
proof (induction es arbitrary: p)
  case Nil
  then show ?case by (simp add: extents_end_def)
next
  case (Cons e es)
  then have st: "oe_start e = p" and ce: "contiguous (p + oe_length e) es"
    and en: "extents_end (p + oe_length e) es < 2 ^ 64" by auto
  have "p + oe_length e < 2 ^ 64" using en by (simp add: extents_end_def)
  then have add: "add64 oc p (oe_length e) = (Ok (p + oe_length e) :: (io_error, nat) res)" by (rule add64_ok)
  show ?case
  proof (cases "pos < p + oe_length e")
    case True
    then show ?thesis using st add Cons(4) by (auto simp: Let_def covers_def intro!: exI [of _ "Some 0"])
  next
    case False
    from Cons(1) [OF ce en] False obtain r where "find_extent oc pos es = Ok r" "case r of
        None \<Rightarrow> List.find (covers pos) es = None \<and> extents_end (p + oe_length e) es \<le> pos
      | Some i \<Rightarrow> i < length es \<and> covers pos (es ! i) \<and> List.find (covers pos) es = Some (es ! i)" by auto
    then show ?thesis using False st add
      by (auto simp: Let_def covers_def split: option.splits intro!: exI [of _ "map_option Suc r"])
  qed
qed

text \<open>Replacing an extent by one with the same place and the same bytes changes nothing.\<close>

definition same_bytes :: "open_extent \<Rightarrow> open_extent \<Rightarrow> bool" where
  "same_bytes e e' \<longleftrightarrow> oe_start e' = oe_start e \<and> oe_length e' = oe_length e \<and>
     data_byte (oe_data e') = data_byte (oe_data e)"

lemma same_bytes_update:
  assumes "i < length es" "same_bytes (es ! i) e'"
  shows "contiguous p (es[i := e']) = contiguous p es" "extents_end p (es[i := e']) = extents_end p es"
    "extents_byte (es[i := e']) = extents_byte es"
proof -
  show "contiguous p (es[i := e']) = contiguous p es" using assms
  proof (induction es arbitrary: i p)
    case (Cons e es)
    then show ?case by (cases i) (auto simp: same_bytes_def)
  qed simp
  have "map oe_length (es[i := e']) = map oe_length es"
    using assms by (metis list_update_id map_update same_bytes_def)
  then show "extents_end p (es[i := e']) = extents_end p es" by (simp add: extents_end_def)
  have "extents_byte (es[i := e']) q = extents_byte es q" for q using assms
  proof (induction es arbitrary: i)
    case (Cons e es)
    then show ?case by (cases i) (auto simp: same_bytes_def extents_byte_def covers_def)
  qed simp
  then show "extents_byte (es[i := e']) = extents_byte es" by blast
qed

lemma contiguous_after: "contiguous p es \<Longrightarrow> i < length es \<Longrightarrow> p \<le> oe_start (es ! i)"
proof (induction es arbitrary: i p)
  case (Cons e es)
  then show ?case by (cases i) (auto dest: add_leD1)
qed simp

lemma covers_window:
  assumes "contiguous p es" "i < length es" "covers pos (es ! i)"
    "n \<le> oe_start (es ! i) + oe_length (es ! i) - pos"
  shows "window (extents_byte es) pos n = window (data_byte (oe_data (es ! i))) (pos - oe_start (es ! i)) n"
proof (rule window_shift)
  fix k
  assume "k < n"
  then have c: "covers (pos + k) (es ! i)" using assms(3,4) by (auto simp: covers_def)
  have uniq: "List.find (covers q) es = Some (es ! i)" if "covers q (es ! i)" for q
    using assms(1,2) that
  proof (induction es arbitrary: i p)
    case (Cons e es)
    show ?case
    proof (cases i)
      case (Suc j)
      have "p + oe_length e \<le> oe_start (es ! j)"
        using Cons(2,3) Suc contiguous_after [of "p + oe_length e" es j] by simp
      then have "\<not> covers q e" using Cons(2,4) Suc by (auto simp: covers_def)
      then show ?thesis using Cons(1) [of "p + oe_length e" j] Cons(2-4) Suc by simp
    qed (use Cons in simp)
  qed simp
  show "extents_byte es (pos + k) = data_byte (oe_data (es ! i)) (pos - oe_start (es ! i) + k)"
    using uniq [OF c] assms(3) by (simp add: extents_byte_def covers_def)
qed

lemma extents_byte_past:
  assumes "contiguous p es" "extents_end p es \<le> q"
  shows "extents_byte es q = 0"
proof -
  have "List.find (covers q) es = None" using assms
  proof (induction es arbitrary: p)
    case (Cons e es)
    then show ?case by (auto simp: covers_def extents_end_def)
  qed simp
  then show ?thesis by (simp add: extents_byte_def)
qed

lemma on_extent_spec:
  assumes wf: "extents_wf es" and i: "i < length es"
    and n: "within + n \<le> oe_length (es ! i)" "0 < n"
    and rd: "on_extent i (read_extent oc within n) es = (r, es')"
  shows "extents_wf es'" "extents_byte es' = extents_byte es" "extents_end 0 es' = extents_end 0 es"
    "r \<noteq> Panic" "r = Ok bs \<Longrightarrow> bs = window (data_byte (oe_data (es ! i))) within n"
    "extents_live es \<Longrightarrow> extents_live es' \<and> (\<exists>bs. r = Ok bs)"
proof -
  obtain e' where e': "read_extent oc within n (es ! i) = (r, e')" and es': "es' = es[i := e']"
    using rd by (auto simp: on_extent_def split: prod.splits)
  have "data_wf (oe_length (es ! i)) (oe_data (es ! i))" using wf i by (simp add: extents_wf_def)
  note spec = read_extent_spec [OF this n e']
  then have sb: "same_bytes (es ! i) e'" by (simp add: same_bytes_def)
  note upd = same_bytes_update [OF i sb]
  have mem: "x \<in> set es \<or> x = e'" if "x \<in> set es'" for x
    using that es' set_update_subset_insert [of es i e'] by auto
  show "extents_byte es' = extents_byte es" "extents_end 0 es' = extents_end 0 es" using upd es' by simp_all
  show "extents_wf es'" using wf upd es' spec mem by (fastforce simp: extents_wf_def)
  show "r \<noteq> Panic" "r = Ok bs \<Longrightarrow> bs = window (data_byte (oe_data (es ! i))) within n" using spec by auto
  show "extents_live es \<Longrightarrow> extents_live es' \<and> (\<exists>bs. r = Ok bs)"
    using spec mem i by (fastforce simp: extents_live_def)
qed

lemma read_from_extents_loop_spec:
  assumes "extents_wf es" "length buf = len" "filled \<le> len" "drop filled buf = replicate (len - filled) 0"
    "read_from_extents_loop oc offset len filled buf es = (r, es')"
  shows "extents_wf es' \<and> extents_byte es' = extents_byte es \<and> r \<noteq> Panic \<and>
    (\<forall>bs. r = Ok bs \<longrightarrow> bs = take filled buf @ window (extents_byte es) (offset + filled) (len - filled)) \<and>
    (extents_live es \<longrightarrow> extents_live es' \<and> (\<exists>bs. r = Ok bs))"
  using assms
proof (induction oc offset len filled buf es arbitrary: r es' rule: read_from_extents_loop.induct)
  case (1 oc offset len filled buf es)
  let ?pos = "offset + filled"
  show ?case
  proof (cases "filled < len")
    case False
    then have "filled = len" using 1(4) by simp
    then have "r = Ok buf" "es' = es" using 1(6) by (auto simp: read_from_extents_loop.simps [of oc offset len])
    then show ?thesis using 1(2,3) \<open>filled = len\<close> by simp
  next
    case lt: True
    have cont: "contiguous 0 es" and small: "extents_end 0 es < 2 ^ 64"
      using 1(2) by (auto simp: extents_wf_def)
    obtain x where x: "find_extent oc ?pos es = Ok x" and xs: "case x of
        None \<Rightarrow> List.find (covers ?pos) es = None \<and> extents_end 0 es \<le> ?pos
      | Some i \<Rightarrow> i < length es \<and> covers ?pos (es ! i) \<and> List.find (covers ?pos) es = Some (es ! i)"
      using find_extent_spec [OF cont small, of ?pos oc] by auto
    show ?thesis
    proof (cases x)
      case None
      then have res: "r = Ok buf" "es' = es" and past: "extents_end 0 es \<le> ?pos"
        using 1(6) lt x xs by (auto simp: read_from_extents_loop.simps [of oc offset len] Let_def)
      have "window (extents_byte es) ?pos (len - filled) = replicate (len - filled) 0"
        using past extents_byte_past [OF cont] by (intro window_zero) simp
      then have "buf = take filled buf @ window (extents_byte es) ?pos (len - filled)"
        using 1(5) by (metis append_take_drop_id)
      then show ?thesis using res 1(2) by blast
    next
      case (Some i)
      then have i: "i < length es" and cov: "covers ?pos (es ! i)" using xs by auto
      define within where "within = ?pos - oe_start (es ! i)"
      define n where "n = min (oe_length (es ! i) - within) (len - filled)"
      have n: "within + n \<le> oe_length (es ! i)" "0 < n" "filled + n \<le> len"
        using cov lt by (auto simp: within_def n_def covers_def)
      obtain r1 es1 where st: "on_extent i (read_extent oc within n) es = (r1, es1)" by fastforce
      note one = on_extent_spec [OF 1(2) i n(1,2) st]
      have eq: "read_from_extents_loop oc offset len filled buf es =
          (case r1 of Ok bs \<Rightarrow> read_from_extents_loop oc offset len (filled + n) (splice buf filled bs) es1
           | Err y \<Rightarrow> (Err y, es1) | Panic \<Rightarrow> (Panic, es1))"
        using lt x Some st n(2)
        by (cases r1) (simp_all add: read_from_extents_loop.simps [of oc offset len filled] Let_def
            within_def [symmetric] n_def [symmetric])
      show ?thesis
      proof (cases r1)
        case (Ok bs)
        have bs: "bs = window (extents_byte es) ?pos n"
          using one(5) [OF Ok] covers_window [OF cont i cov, of n] n(1) cov
          by (simp add: within_def covers_def)
        have len': "length (splice buf filled bs) = len" using 1(3) bs n(3) by (simp add: length_splice)
        have zeros: "drop (filled + n) (splice buf filled bs) = replicate (len - (filled + n)) 0"
        proof -
          have "drop (filled + n) (splice buf filled bs) = drop n (drop filled buf)"
            using drop_splice [of filled bs "filled + n" buf] 1(3) bs n(3) by (simp add: add.commute)
          then show ?thesis using 1(5) by simp
        qed
        have loop: "read_from_extents_loop oc offset len (filled + n) (splice buf filled bs) es1 = (r, es')"
          using 1(6) eq Ok by simp
        have n0: "n \<noteq> 0" using n(2) by simp
        note IH = 1(1) [OF lt refl x [unfolded Some] refl within_def n_def n0 st [unfolded Ok, symmetric] refl
            one(1) len' n(3) zeros loop]
        have tk: "take (filled + n) (splice buf filled bs) = take filled buf @ window (extents_byte es) ?pos n"
          using take_splice_end [of filled bs buf] 1(3) bs n(3) by simp
        have "window (extents_byte es) ?pos (len - filled) = window (extents_byte es) ?pos n @
            window (extents_byte es) (offset + (filled + n)) (len - (filled + n))"
          using window_append [of "extents_byte es" ?pos n "len - (filled + n)"] n(3) by (simp add: add.assoc)
        then show ?thesis using IH tk one(2,6) Ok by auto
      qed (use 1(6) eq one in auto)
    qed
  qed
qed

section \<open>The driver contract\<close>

text \<open>
  The interface of \<open>models/traits.rs\<close>, \<open>VmDriver\<close>, as a client uses it: the size, the
  reads, the cache-hit counter, and the cancellation flag the reader shares with its user.
\<close>

record 'w driver =
  dr_size :: "'w \<Rightarrow> nat"
  dr_read :: "nat \<Rightarrow> nat \<Rightarrow> ('w, vm_error, bytes) io"
  dr_hit :: "'w \<Rightarrow> 'w"
  dr_cancelled :: "'w \<Rightarrow> bool \<times> 'w"

text \<open>What a driver promises: it keeps its invariant, does not panic, and a read that succeeds returns
  the bytes of the disk, which are zero from its size on, for requests below a limit
  of at least 4 GiB.\<close>

locale vm_driver =
  fixes d :: "'w driver" and inv :: "'w \<Rightarrow> bool" and sz :: nat and disk :: "nat \<Rightarrow> byte" and lim :: nat
  assumes lim_ok: "2 ^ 32 \<le> lim"
    and size_law: "inv w \<Longrightarrow> dr_size d w = sz"
    and size_small: "inv w \<Longrightarrow> sz \<le> 2 ^ 63"
    and disk_end: "inv w \<Longrightarrow> sz \<le> p \<Longrightarrow> disk p = 0"
    and read_law: "inv w \<Longrightarrow> n < lim \<Longrightarrow> dr_read d off n w = (r, w') \<Longrightarrow>
      inv w' \<and> r \<noteq> Panic \<and> (\<forall>bs. r = Ok bs \<longrightarrow> bs = window disk off n)"
    and hit_law: "inv w \<Longrightarrow> inv (dr_hit d w)"
    and cancel_law: "inv w \<Longrightarrow> inv (snd (dr_cancelled d w))"

text \<open>A driver that moreover does not fail and is not cancelled.\<close>

locale reliable_driver = vm_driver +
  assumes read_total: "inv w \<Longrightarrow> n < lim \<Longrightarrow> \<exists>bs w'. dr_read d off n w = (Ok bs, w')"
    and not_cancelled: "inv w \<Longrightarrow> \<not> fst (dr_cancelled d w)"
begin

lemma read_window:
  assumes "inv w" "n < lim"
  obtains w' where "dr_read d off n w = (Ok (window disk off n), w')" "inv w'"
proof -
  obtain bs w' where "dr_read d off n w = (Ok bs, w')" using read_total [OF assms] by blast
  then show thesis using that read_law [OF assms] by fastforce
qed

end

definition reader_driver :: "bool \<Rightarrow> disk_reader driver" where
  "reader_driver oc = \<lparr>dr_size = dk_virtual_size, dr_read = driver_read_range oc, dr_hit = record_cache_hit,
     dr_cancelled = (\<lambda>d. case load_token (dk_cancel d) of (c, t) \<Rightarrow> (c, d\<lparr>dk_cancel := t\<rparr>))\<rparr>"

section \<open>Backends as drivers\<close>

fun backend_byte :: "backend \<Rightarrow> nat \<Rightarrow> byte" where
  "backend_byte (RawFile f) p = byte_fun (f_data f) p"
| "backend_byte (SparseDisk s) p = (if p < se_capacity_bytes s then extent_byte s p else 0)"
| "backend_byte (Extents es) p = extents_byte es p"
| "backend_byte (NbdServer s) p = 0"

fun backend_wf :: "backend \<Rightarrow> bool" where
  "backend_wf (RawFile f) \<longleftrightarrow> True"
| "backend_wf (SparseDisk s) \<longleftrightarrow> wf_extent s"
| "backend_wf (Extents es) \<longleftrightarrow> extents_wf es"
| "backend_wf (NbdServer s) \<longleftrightarrow> False"

fun backend_live :: "backend \<Rightarrow> bool" where
  "backend_live (RawFile f) \<longleftrightarrow> healthy f"
| "backend_live (SparseDisk s) \<longleftrightarrow> readable s"
| "backend_live (Extents es) \<longleftrightarrow> extents_live es"
| "backend_live (NbdServer s) \<longleftrightarrow> False"

text \<open>What a reader shows of its backend: nothing past the virtual size.\<close>

definition reader_byte :: "disk_reader \<Rightarrow> nat \<Rightarrow> byte" where
  "reader_byte d = (\<lambda>p. if p < dk_virtual_size d then backend_byte (dk_backend d) p else 0)"

definition reader_inv :: "nat \<Rightarrow> (nat \<Rightarrow> byte) \<Rightarrow> disk_reader \<Rightarrow> bool" where
  "reader_inv sz disk d \<longleftrightarrow> backend_wf (dk_backend d) \<and> dk_virtual_size d = sz \<and> sz \<le> 2 ^ 63 \<and>
     disk = reader_byte d"

definition reader_live :: "nat \<Rightarrow> (nat \<Rightarrow> byte) \<Rightarrow> disk_reader \<Rightarrow> bool" where
  "reader_live sz disk d \<longleftrightarrow> reader_inv sz disk d \<and> backend_live (dk_backend d) \<and> dk_cancel d = None"

text \<open>A reader over an NBD session of an export of at least the virtual size.\<close>

definition reader_nbd :: "nat \<Rightarrow> (nat \<Rightarrow> byte) \<Rightarrow> disk_reader \<Rightarrow> bool" where
  "reader_nbd sz disk d \<longleftrightarrow> dk_virtual_size d = sz \<and> sz \<le> 2 ^ 63 \<and> dk_cancel d = None \<and>
     (\<exists>s g. dk_backend d = NbdServer s \<and> in_sync g s \<and>
       disk = (\<lambda>p. if p < sz then if p < nb_export_size s then g p else 0 else 0))"

text \<open>A native read returns at most what was asked; what is missing are zero bytes of the disk.\<close>

definition native_read :: "backend \<Rightarrow> nat \<Rightarrow> nat \<Rightarrow> (io_error, bytes) res \<Rightarrow> backend \<Rightarrow> bool" where
  "native_read b offset len r b' \<longleftrightarrow> backend_wf b' \<and> backend_byte b' = backend_byte b \<and> r \<noteq> Panic \<and>
    (\<forall>bs. r = Ok bs \<longrightarrow> length bs \<le> len \<and>
      bs @ replicate (len - length bs) 0 = window (backend_byte b) offset len) \<and>
    (backend_live b \<longrightarrow> offset < 2 ^ 63 \<longrightarrow> backend_live b' \<and> (\<exists>bs. r = Ok bs))"

lemma native_readI:
  assumes "backend_wf b'" "backend_byte b' = backend_byte b" "r \<noteq> Panic"
    "\<And>bs. r = Ok bs \<Longrightarrow> length bs \<le> len"
    "\<And>bs. r = Ok bs \<Longrightarrow> bs @ replicate (len - length bs) 0 = window (backend_byte b) offset len"
    "backend_live b \<Longrightarrow> offset < 2 ^ 63 \<Longrightarrow> backend_live b'"
    "backend_live b \<Longrightarrow> offset < 2 ^ 63 \<Longrightarrow> \<exists>bs. r = Ok bs"
  shows "native_read b offset len r b'"
  unfolding native_read_def using assms by blast

lemma read_raw:
  assumes "read_backend oc offset len (RawFile f) = (r, b')"
  shows "native_read (RawFile f) offset len r b'"
proof -
  obtain f' where io: "io_bind (seek_start offset) (\<lambda>_. read_or_zeros len) f = (r, f')" and b': "b' = RawFile f'"
    using assms by (auto simp: read_backend_def split: prod.splits)
  have f: "backend_byte (RawFile f) = byte_fun (f_data f)" "backend_byte b' = byte_fun (f_data f')"
    using b' by (simp_all add: fun_eq_iff)
  note rd = seek_read_or_zeros [OF io]
  show ?thesis
  proof (rule native_readI)
    show "backend_byte b' = backend_byte (RawFile f)" using f rd(1) by simp
    fix bs
    assume "r = Ok bs"
    from rd(3) [OF this] show "length bs \<le> len"
        "bs @ replicate (len - length bs) 0 = window (backend_byte (RawFile f)) offset len"
      unfolding f by simp_all
  qed (use rd(2,4) b' in auto)
qed

lemma read_sparse_disk:
  assumes wf: "wf_extent s" and rd: "read_backend oc offset len (SparseDisk s) = (r, b')"
  shows "native_read (SparseDisk s) offset len r b'"
proof -
  let ?k = "min len (se_capacity_bytes s - offset)"
  obtain r1 s' where r1: "read_at oc offset (replicate len 0) s = (r1, s')" by fastforce
  note sp = read_sparse_padded [OF wf refl r1]
  have b': "b' = SparseDisk s'" and r: "r = (case r1 of Ok (n, buf) \<Rightarrow> Ok (take n buf) | Err x \<Rightarrow> Err x | Panic \<Rightarrow> Panic)"
    using rd r1 by (cases r1; auto simp: read_backend_def io_bind_def split: prod.splits)+
  have bb: "backend_byte (SparseDisk s) = (\<lambda>q. if q < se_capacity_bytes s then extent_byte s q else 0)"
    by (simp add: fun_eq_iff)
  show ?thesis
  proof (rule native_readI)
    show "backend_byte b' = backend_byte (SparseDisk s)"
      using b' sp(1) same_extent_meaning(3) [OF sp(1)] by (auto simp: same_extent_def fun_eq_iff)
    fix bs
    assume bs: "r = Ok bs"
    then obtain x where x: "r1 = Ok x" using r by (cases r1) auto
    have k: "bs = window (extent_byte s) offset ?k" using bs r x unfolding sp(4) [OF x] by simp
    then show "length bs \<le> len" by simp
    show "bs @ replicate (len - length bs) 0 = window (backend_byte (SparseDisk s)) offset len"
      unfolding k bb using take_zeros_window [OF refl, of len "se_capacity_bytes s" offset "extent_byte s"] by simp
  qed (use r sp(2,3,5) b' in \<open>auto split: res.splits\<close>)
qed

lemma read_extents:
  assumes wf: "extents_wf es" and rd: "read_backend oc offset len (Extents es) = (r, b')"
  shows "native_read (Extents es) offset len r b'"
proof -
  obtain es' where io: "read_from_extents_loop oc offset len 0 (replicate len 0) es = (r, es')"
      and b': "b' = Extents es'"
    using rd by (auto simp: read_backend_def read_from_extents_def split: prod.splits)
  have bb: "backend_byte (Extents es) = extents_byte es" "backend_byte b' = extents_byte es'"
    using b' by (simp_all add: fun_eq_iff)
  note lp = read_from_extents_loop_spec [OF wf _ _ _ io]
  show ?thesis
  proof (rule native_readI)
    fix bs
    assume "r = Ok bs"
    then have "bs = window (extents_byte es) offset len" using lp by simp
    then show "length bs \<le> len" "bs @ replicate (len - length bs) 0 = window (backend_byte (Extents es)) offset len"
      unfolding bb by simp_all
  qed (use lp b' bb in auto)
qed

lemma read_backend_native:
  assumes "backend_wf b" "read_backend oc offset len b = (r, b')"
  shows "native_read b offset len r b'"
  using assms read_raw read_sparse_disk read_extents by (cases b) auto

lemma clip_window:
  assumes "bs @ replicate (k - length bs) 0 = window g off k" "length bs \<le> k" "k = min n (sz - off)"
  shows "bs @ replicate (n - length bs) 0 = window (\<lambda>p. if p < sz then g p else 0) off n"
proof -
  have "replicate (n - length bs) (0 :: byte) = replicate (k - length bs) 0 @ replicate (n - k) 0"
    using assms(2,3) by (simp add: replicate_add [symmetric])
  then have "bs @ replicate (n - length bs) 0 = window g off k @ replicate (n - k) 0"
    using assms(1) by (metis append_assoc)
  also have "\<dots> = window (\<lambda>p. if p < sz then g p else 0) off n"
    by (rule nth_equalityI) (use assms(3) in \<open>auto simp: nth_append\<close>)
  finally show ?thesis .
qed

text \<open>The cases of \<open>read_range\<close>: cancelled, nothing to read, or one read of the backend.\<close>

lemma read_range_cases:
  assumes "read_range oc off n d = (r, d')"
  obtains (cancelled) t where "load_token (dk_cancel d) = (True, t)" "\<exists>e. r = Err e" "d' = d\<lparr>dk_cancel := t\<rparr>"
  | (outside) t where "load_token (dk_cancel d) = (False, t)" "dk_virtual_size d \<le> off \<or> n = 0" "r = Ok []"
      "d' = d\<lparr>dk_cancel := t\<rparr>"
  | (inside) t b' st where "load_token (dk_cancel d) = (False, t)" "off < dk_virtual_size d" "0 < n"
      "read_backend oc off (min n (dk_virtual_size d - off)) (dk_backend d) = (r, b')"
      "d' = d\<lparr>dk_cancel := t, dk_backend := b', dk_stats := st\<rparr>"
proof -
  obtain c t where ct: "load_token (dk_cancel d) = (c, t)" by fastforce
  show thesis
  proof (cases c)
    case True
    then show thesis using cancelled ct assms by (auto simp: read_range_def)
  next
    case nc: False
    show thesis
    proof (cases "dk_virtual_size d \<le> off \<or> n = 0")
      case True
      then show thesis using outside ct nc assms by (auto simp: read_range_def Let_def)
    next
      case False
      obtain r1 b' where rb: "read_backend oc off (min n (dk_virtual_size d - off)) (dk_backend d) = (r1, b')"
        by fastforce
      then have "r = r1" "\<exists>st. d' = d\<lparr>dk_cancel := t, dk_backend := b', dk_stats := st\<rparr>"
        using assms ct nc False by (cases r1; auto simp: read_range_def Let_def)+
      then show thesis using inside ct nc False rb by auto
    qed
  qed
qed

lemma driver_read_spec:
  assumes inv: "reader_inv sz disk d" and rd: "driver_read_range oc off n d = (r, d')"
  shows "reader_inv sz disk d'" "r \<noteq> Panic" "r = Ok bs \<Longrightarrow> bs = window disk off n"
    "reader_live sz disk d \<Longrightarrow> reader_live sz disk d' \<and> (\<exists>bs. r = Ok bs)"
proof -
  obtain r1 where r1: "read_range oc off n d = (r1, d')"
      and r: "r = (case r1 of Ok bs \<Rightarrow> Ok (bs @ replicate (n - length bs) 0) | Err e \<Rightarrow> Err (Io e) | Panic \<Rightarrow> Panic)"
    using rd by (cases "read_range oc off n d"; cases "fst (read_range oc off n d)")
      (auto simp: driver_read_range_def io_bind_def io_map_err_def)
  note I = inv [unfolded reader_inv_def]
  have disk: "disk = (\<lambda>p. if p < sz then backend_byte (dk_backend d) p else 0)"
    using I by (simp add: reader_byte_def)
  from r1 have "reader_inv sz disk d' \<and> r \<noteq> Panic \<and> (\<forall>bs. r = Ok bs \<longrightarrow> bs = window disk off n) \<and>
    (reader_live sz disk d \<longrightarrow> reader_live sz disk d' \<and> (\<exists>bs. r = Ok bs))"
  proof (cases rule: read_range_cases)
    case (cancelled t)
    then show ?thesis using inv r by (auto simp: reader_inv_def reader_live_def reader_byte_def)
  next
    case (outside t)
    have "window disk off n = replicate n 0" using outside(2) disk I by (intro window_zero) auto
    then show ?thesis using inv r outside by (auto simp: reader_inv_def reader_live_def reader_byte_def)
  next
    case (inside t b' st)
    have "native_read (dk_backend d) off (min n (sz - off)) r1 b'"
      using read_backend_native inside(4) I by blast
    note nr = this [unfolded native_read_def]
    have keep: "reader_inv sz disk d'" using inv inside(5) nr
      by (simp add: reader_inv_def reader_byte_def cong: if_cong)
    moreover have "r \<noteq> Panic" using r nr by (auto split: res.splits)
    moreover have "bs = window disk off n" if bs: "r = Ok bs" for bs
    proof -
      obtain ys where ys: "r1 = Ok ys" "bs = ys @ replicate (n - length ys) 0" using bs r by (cases r1) auto
      show ?thesis unfolding disk ys(2) by (rule clip_window) (use nr ys(1) in auto)
    qed
    moreover have "reader_live sz disk d' \<and> (\<exists>bs. r = Ok bs)" if live: "reader_live sz disk d"
    proof -
      have "off < 2 ^ 63" using inside(2) I by simp
      then have "backend_live b' \<and> (\<exists>bs. r1 = Ok bs)" using nr live by (simp add: reader_live_def)
      then show ?thesis using keep inside(1,5) r live by (auto simp: reader_live_def)
    qed
    ultimately show ?thesis by blast
  qed
  then show "reader_inv sz disk d'" "r \<noteq> Panic" "r = Ok bs \<Longrightarrow> bs = window disk off n"
    "reader_live sz disk d \<Longrightarrow> reader_live sz disk d' \<and> (\<exists>bs. r = Ok bs)" by blast+
qed

lemma reader_other_ops:
  "reader_inv sz disk d \<Longrightarrow> reader_inv sz disk (record_cache_hit d)"
  "reader_inv sz disk d \<Longrightarrow> reader_inv sz disk (d\<lparr>dk_cancel := t\<rparr>)"
  "reader_live sz disk d \<Longrightarrow> reader_live sz disk (record_cache_hit d)"
  "reader_nbd sz disk d \<Longrightarrow> reader_nbd sz disk (record_cache_hit d)"
  "reader_nbd sz disk d \<Longrightarrow> reader_nbd sz disk (d\<lparr>dk_cancel := None\<rparr>)"
  by (auto simp: reader_inv_def reader_live_def reader_nbd_def record_cache_hit_def reader_byte_def)

interpretation native: vm_driver "reader_driver oc" "reader_inv sz disk" sz disk "2 ^ 64" for oc sz disk
  by unfold_locales
     (auto simp: reader_driver_def reader_other_ops dest: driver_read_spec(1-3) split: prod.splits,
      auto simp: reader_inv_def reader_byte_def)

interpretation live: reliable_driver "reader_driver oc" "reader_live sz disk" sz disk "2 ^ 64" for oc sz disk
proof unfold_locales
  fix w :: disk_reader and off n r w'
  assume live: "reader_live sz disk w" and rd: "dr_read (reader_driver oc) off n w = (r, w')"
  then have "reader_inv sz disk w" "driver_read_range oc off n w = (r, w')"
    by (auto simp: reader_live_def reader_driver_def)
  from driver_read_spec [OF this] live
  show "reader_live sz disk w' \<and> r \<noteq> Panic \<and> (\<forall>bs. r = Ok bs \<longrightarrow> bs = window disk off n)" by blast
next
  fix w :: disk_reader and n off
  assume live: "reader_live sz disk w"
  obtain r w' where rd: "driver_read_range oc off n w = (r, w')" by fastforce
  have "reader_inv sz disk w" using live by (simp add: reader_live_def)
  from driver_read_spec(4) [OF this rd live] rd
  show "\<exists>bs w'. dr_read (reader_driver oc) off n w = (Ok bs, w')" by (auto simp: reader_driver_def)
qed (auto simp: reader_live_def reader_inv_def reader_byte_def reader_driver_def record_cache_hit_def)

text \<open>The same contract over an NBD session, for requests that fit the protocol's length field.\<close>

lemma nbd_driver_read:
  assumes nbd: "reader_nbd sz disk d" and n: "n < 2 ^ 32"
  shows "\<exists>d'. driver_read_range oc off n d = (Ok (window disk off n), d') \<and> reader_nbd sz disk d'"
proof -
  obtain s g where s: "dk_backend d = NbdServer s" "in_sync g s"
      and disk: "disk = (\<lambda>p. if p < sz then if p < nb_export_size s then g p else 0 else 0)"
    using nbd by (auto simp: reader_nbd_def)
  obtain r d' where rd: "read_range oc off n d = (r, d')" by fastforce
  have d: "dk_virtual_size d = sz" "dk_cancel d = None" using nbd by (auto simp: reader_nbd_def)
  from rd have "\<exists>bs. r = Ok bs \<and> bs @ replicate (n - length bs) 0 = window disk off n \<and> reader_nbd sz disk d'"
  proof (cases rule: read_range_cases)
    case (cancelled t)
    then show ?thesis using d by simp
  next
    case (outside t)
    have "window disk off n = replicate n 0" using outside(2) disk d by (intro window_zero) auto
    then show ?thesis using outside d nbd by (auto simp: reader_nbd_def)
  next
    case (inside t b' st)
    let ?k = "min n (sz - off)"
    have "min ?k (nb_export_size s - off) < 2 ^ 32" using n by simp
    then obtain s' where s': "nbd_read_range off ?k s = (Ok (window g off (min ?k (nb_export_size s - off))), s')"
        "in_sync g s'" "nb_export_size s' = nb_export_size s"
      using nbd_read_total [OF s(2)] by blast
    then have r: "r = Ok (window g off (min ?k (nb_export_size s - off)))" and b': "b' = NbdServer s'"
      using inside(4) s(1) d(1) by (auto simp: read_backend_def)
    have "window g off (min ?k (nb_export_size s - off)) @ replicate (n - min ?k (nb_export_size s - off)) 0 =
        window disk off n"
      by (rule nth_equalityI) (auto simp: nth_append disk)
    moreover have "reader_nbd sz disk d'"
    proof -
      have "sz \<le> 2 ^ 63" "t = None" using nbd inside(1) d(2) by (auto simp: reader_nbd_def)
      then show ?thesis unfolding reader_nbd_def inside(5) b'
        by (intro conjI exI [of _ s'] exI [of _ g]) (use s'(2,3) disk d in \<open>simp_all cong: if_cong\<close>)
    qed
    ultimately show ?thesis using r by simp
  qed
  then show ?thesis using rd by (auto simp: driver_read_range_def io_bind_def io_map_err_def)
qed

interpretation nbd: reliable_driver "reader_driver oc" "reader_nbd sz disk" sz disk "2 ^ 32" for oc sz disk
proof unfold_locales
  fix w :: disk_reader and off n r w'
  assume "reader_nbd sz disk w" "n < 2 ^ 32" and rd: "dr_read (reader_driver oc) off n w = (r, w')"
  from nbd_driver_read [OF this(1,2), of oc off] rd
  show "reader_nbd sz disk w' \<and> r \<noteq> Panic \<and> (\<forall>bs. r = Ok bs \<longrightarrow> bs = window disk off n)"
    by (auto simp: reader_driver_def)
next
  fix w :: disk_reader and n :: nat and off
  assume "reader_nbd sz disk w" "n < 2 ^ 32"
  from nbd_driver_read [OF this, of oc off]
  show "\<exists>bs w'. dr_read (reader_driver oc) off n w = (Ok bs, w')" by (auto simp: reader_driver_def)
next
  fix w :: disk_reader
  assume n: "reader_nbd sz disk w"
  then have c: "dk_cancel w = None" by (simp add: reader_nbd_def)
  show "reader_nbd sz disk (snd (dr_cancelled (reader_driver oc) w))"
    using reader_other_ops(5) [OF n] c by (simp add: reader_driver_def)
  show "\<not> fst (dr_cancelled (reader_driver oc) w)" using c by (simp add: reader_driver_def)
qed (auto simp: reader_nbd_def reader_driver_def record_cache_hit_def)

section \<open>What opening produces\<close>

lemma open_result_eq [res_simps]:
  "(case r of Native a \<Rightarrow> f a | NeedsNbd m \<Rightarrow> Ok (NeedsNbd m)) = Ok (Native x) \<longleftrightarrow>
    (\<exists>a. r = Native a \<and> f a = Ok (Native x))"
  by (cases r) auto

lemma open_extents_checked:
  assumes "open_extents True h p start ds = Ok (Native es)"
  shows "contiguous start es \<and> map oe_length es = map (\<lambda>e. ed_sectors e * SECTOR) ds \<and>
    (es = [] \<or> extents_end start es < 2 ^ 64)"
  using assms
proof (induction ds arbitrary: start es)
  case (Cons e ds)
  let ?len = "ed_sectors e * SECTOR"
  obtain dat xs where m: "mul64 True (ed_sectors e) SECTOR = (Ok ?len :: (vm_error, nat) res)"
      and a: "start + ?len < 2 ^ 64"
      and rest: "open_extents True h p (start + ?len) ds = Ok (Native xs)"
      and es: "es = \<lparr>oe_start = start, oe_length = ?len, oe_data = dat\<rparr> # xs"
    using Cons(2) by (auto simp: res_simps add64_def mul64_def split: if_splits)
  from Cons(1) [OF rest] show ?case using es a by (auto simp: extents_end_def)
qed simp

lemma no_extents_iff: "open_extents oc h p start ds = Ok (Native es) \<Longrightarrow> es = [] \<longleftrightarrow> ds = []"
  by (cases ds) (auto simp: res_simps)

lemma open_descriptor_backend:
  assumes "open_descriptor_image oc h p = Ok (Native (b, mode))"
  obtains body es where "read_to_string h p = Ok body" "b = Extents es"
    "open_extents oc h p 0 (ds_extents (parse_descriptor body)) = Ok (Native es)"
    "\<not> has_parent (parse_descriptor body)" "ds_extents (parse_descriptor body) \<noteq> []"
  using assms by (auto simp: open_descriptor_image_def res_simps Let_def split: if_splits)

lemma open_sparse_image_backend:
  "open_sparse_image oc f hd' = Ok (Native (b, mode)) \<Longrightarrow> \<exists>s. b = SparseDisk s"
  by (auto simp: open_sparse_image_def res_simps Let_def case_prod_unfold split: if_splits)

lemma open_native_not_nbd:
  assumes "open_native oc h info = Ok (Native (b, mode))"
  shows "b \<noteq> NbdServer s"
proof -
  have "b \<noteq> NbdServer s" if "open_vmdk_native oc h p = Ok (Native (b, mode))" for p
    using that open_sparse_image_backend [of oc _ _ b mode]
    by (fastforce simp: open_vmdk_native_def res_simps case_prod_unfold split: if_splits
        elim: open_descriptor_backend)
  then show ?thesis using assms by (auto simp: open_native_def res_simps Let_def split: if_splits)
qed

lemma validate_extents_ok:
  "validate_extents h p es = Ok () \<longleftrightarrow>
    (\<forall>e \<in> set es. ed_kind e \<noteq> ''ZERO'' \<longrightarrow> (\<forall>n. ed_file e = Some n \<longrightarrow> path_exists h (resolve_extent_path p n)))"
  by (induction es) (auto simp: ensure_component_exists_def res_simps path_exists_def is_ok_def
      split: option.splits res.splits)

section \<open>Properties\<close>

text \<open>C6. A native reader, whatever the operating system does to its reads and whenever it is
  cancelled, never panics and never returns wrong bytes: a range read is an error or exactly that
  range of the virtual disk, zero past its end, and the reader still shows the same disk.  Without
  failures and cancellation the read succeeds.\<close>

theorem native_reader_correct:
  assumes "reader_inv sz disk d" and "n < 2 ^ 64" and "driver_read_range oc off n d = (r, d')"
  shows "reader_inv sz disk d' \<and> r \<noteq> Panic \<and> (\<forall>bs. r = Ok bs \<longrightarrow> bs = window disk off n) \<and>
    (backend_live (dk_backend d) \<and> dk_cancel d = None \<longrightarrow> r = Ok (window disk off n))"
proof -
  have rd: "dr_read (reader_driver oc) off n d = (r, d')" using assms(3) by (simp add: reader_driver_def)
  have "r = Ok (window disk off n)" if "backend_live (dk_backend d) \<and> dk_cancel d = None"
  proof -
    have "reader_live sz disk d" using assms(1) that by (simp add: reader_live_def)
    from live.read_window [OF this assms(2), of oc off] rd show ?thesis by (metis prod.inject)
  qed
  then show ?thesis using native.read_law [OF assms(1,2) rd] by blast
qed

lemma window_4: "window g 0 4 = [g 0, g 1, g 2, g 3]"
  by (simp add: window_def numeral_eq_Suc)

definition sample_reader :: disk_reader where
  "sample_reader = \<lparr>dk_backend = Extents [\<lparr>oe_start = 0, oe_length = 2, oe_data = FlatData (fresh_file [7, 8, 9]) 1\<rparr>,
       \<lparr>oe_start = 2, oe_length = 1, oe_data = ZeroData\<rparr>],
     dk_virtual_size = 3, dk_access_mode = [], dk_stats = default_stats, dk_cancel = None\<rparr>"

lemma sample_reader_inv: "reader_inv 3 (reader_byte sample_reader) sample_reader"
  by (simp add: reader_inv_def sample_reader_def extents_wf_def extents_end_def)

theorem native_reader_correct_witness:
  "\<exists>d'. driver_read_range True 0 4 sample_reader = (Ok [8, 9, 0, 0], d')"
proof -
  obtain r d' where rd: "driver_read_range True 0 4 sample_reader = (r, d')" by fastforce
  have "backend_live (dk_backend sample_reader) \<and> dk_cancel sample_reader = None"
    by (simp add: sample_reader_def extents_live_def)
  moreover have "(4 :: nat) < 2 ^ 64" by simp
  ultimately have "r = Ok (window (reader_byte sample_reader) 0 4)"
    using native_reader_correct [OF sample_reader_inv _ rd] by blast
  also have "window (reader_byte sample_reader) 0 4 = [8, 9, 0, 0]"
    by (simp add: window_4 reader_byte_def sample_reader_def extents_byte_def covers_def
        byte_fun_def fresh_file_def)
  finally show ?thesis using rd by simp
qed


definition sample_env :: nbd_env where
  "sample_env = \<lparr>ne_slot_waits = [], ne_port = Ok 1, ne_spawn = Ok (), ne_rounds = [], ne_last_status = Running,
     ne_stderr = [], ne_reaped = True\<rparr>"

definition sample_descriptor_host :: host where
  "sample_descriptor_host = \<lparr>
     h_open = (\<lambda>p. Inr (fresh_file (ascii_bytes (''# Disk DescriptorFile'' @ [newline] @ ''RW 3 ZERO'')))),
     h_meta = (\<lambda>p. Inr \<lparr>md_is_file = True, md_is_dir = False, md_len = 31\<rparr>), h_canon = Inr\<rparr>"

lemma sample_descriptor_opens:
  "open_descriptor_image True sample_descriptor_host ''d.vmdk'' =
    Ok (Native (Extents [\<lparr>oe_start = 0, oe_length = 1536, oe_data = ZeroData\<rparr>], ''vmdk 1 extents''))"
proof -
  let ?body = "''# Disk DescriptorFile'' @ [newline] @ ''RW 3 ZERO''"
  have r: "read_to_string sample_descriptor_host ''d.vmdk'' = Ok ?body" by code_simp
  have d: "parse_descriptor ?body = default_descriptor\<lparr>ds_extents := [\<lparr>ed_access = ''RW'', ed_sectors = 3,
      ed_kind = ''ZERO'', ed_file = None, ed_offset_sectors = 0\<rparr>]\<rparr>" by code_simp
  obtain body where "read_to_string sample_descriptor_host ''d.vmdk'' = Ok body"
      "parse_descriptor body = default_descriptor\<lparr>ds_extents := [\<lparr>ed_access = ''RW'', ed_sectors = 3,
        ed_kind = ''ZERO'', ed_file = None, ed_offset_sectors = 0\<rparr>]\<rparr>"
    using r d by blast
  moreover have "dec_str 1 = ''1''" by code_simp
  ultimately show ?thesis
    by (simp add: open_descriptor_image_def Let_def default_descriptor_def has_parent_def open_extent_data_def)
qed


text \<open>C27. The external helper is opt-in: with \<open>force_nbd\<close> off, opening never resolves or starts
  it (the result does not depend on either), and a reader that opens is a native one.\<close>

theorem standard_open_is_native:
  assumes "\<not> op_force_nbd o'"
  shows "open_with_options_diagnostic oc h resolved env info o' =
      open_with_options_diagnostic oc h resolved' env' info o' \<and>
    (\<forall>d tok. open_with_options_diagnostic oc h resolved env info o' = (Ok d, tok) \<longrightarrow> is_native d)"
proof -
  have "is_native d" if op: "open_with_options_diagnostic oc h resolved env info o' = (Ok d, tok)" for d tok
  proof -
    obtain x where x: "open_native oc h info = Ok x"
      using op assms by (auto simp: open_with_options_diagnostic_def res_simps)
    then obtain b mode where b: "open_native oc h info = Ok (Native (b, mode))" and d: "dk_backend d = b"
      using op assms
      by (cases x) (auto simp: open_with_options_diagnostic_def make_reader_def case_prod_unfold)
    then show ?thesis using open_native_not_nbd [OF b] by (cases b) (auto simp: is_native_def)
  qed
  then show ?thesis using assms by (simp add: open_with_options_diagnostic_def)
qed

theorem standard_open_is_native_witness:
  "\<not> op_force_nbd default_options \<and>
   (\<forall>h info env env'. open_with_options_diagnostic True h Panic env info default_options =
     open_with_options_diagnostic True h (Ok ''qemu-nbd'') env' info default_options)"
proof -
  have "\<not> op_force_nbd default_options" by (simp add: default_options_def)
  then show ?thesis using standard_open_is_native [of default_options] by blast
qed

text \<open>With the helper opted in, a VMDK whose components are missing or unreadable is reported as
  such: the component check comes first and its error is the result, never a missing helper.\<close>

theorem missing_component_before_helper:
  assumes "op_force_nbd o'" and "eq_ignore_ascii_case (im_format info) ''vmdk''"
    and "validate_vmdk_components oc h (im_path info) = Err e"
  shows "fst (open_with_options_diagnostic oc h resolved env info o') = Err e"
  using assms by (simp add: open_with_options_diagnostic_def)

theorem missing_component_before_helper_witness:
  "fst (open_with_options_diagnostic True (sample_descriptor_host\<lparr>h_open := (\<lambda>_. Inl (IoError NotFound ''gone''))\<rparr>)
     (Err (IoError NotFound ''no helper'')) sample_env
     \<lparr>im_path = ''d.vmdk'', im_format = ''VMDK'', im_virtual_size = 1, im_actual_size = 1, im_hypervisor = VMware\<rparr>
     (default_options\<lparr>op_force_nbd := True\<rparr>)) = Err (ImageNotFound ''d.vmdk'')"
proof (rule missing_component_before_helper)
  show "eq_ignore_ascii_case (im_format \<lparr>im_path = ''d.vmdk'', im_format = ''VMDK'', im_virtual_size = 1,
      im_actual_size = 1, im_hypervisor = VMware\<rparr>) ''vmdk''" by code_simp
qed (simp_all add: validate_vmdk_components_def validate_vmdk_components_inner.simps MAX_VMDK_PARENT_DEPTH_def
    sample_descriptor_host_def open_for_validation_def open_main_image_file_def open_read_file_def)

end
