(* ===== verification/Virtual_Disk.thy ===== *)
theory Virtual_Disk
  imports Disk_Reader
begin

text \<open>
  \<open>src/vms/stream.rs\<close>: \<open>VirtualDisk\<close>, the seekable view of a range of a disk with its cache
  of chunks, most recently used first.

  Inside the driver contract the laws show that the cache is transparent: a read returns the bytes
  of the disk whatever is cached and whatever was evicted, and the cache stays within its bound.
\<close>

section \<open>State and construction\<close>

record vdisk =
  vd_base :: nat
  vd_length :: nat
  vd_position :: nat
  vd_chunk_size :: nat
  vd_cache :: "(nat \<times> bytes) list"
  vd_max_chunks :: nat

function npot_from :: "nat \<Rightarrow> nat \<Rightarrow> nat" where
  "npot_from p n = (if p < n \<and> 0 < p then npot_from (2 * p) n else p)"
  by pat_completeness auto
termination by (relation "measure (\<lambda>(p, n). n - p)") auto

declare npot_from.simps [simp del]

text \<open>\<open>u64::next_power_of_two\<close>: with no power in range it panics, or is 0 in the release build.\<close>

definition next_power_of_two :: "bool \<Rightarrow> nat \<Rightarrow> ('e, nat) res" where
  "next_power_of_two oc n = (if n \<le> 2 ^ 63 then Ok (npot_from 1 n) else if oc then Panic else Ok 0)"

definition clamp :: "nat \<Rightarrow> nat \<Rightarrow> nat \<Rightarrow> nat" where
  "clamp v lo hi = (if v < lo then lo else if hi < v then hi else v)"

definition vdisk_new :: "bool \<Rightarrow> nat \<Rightarrow> nat \<Rightarrow> nat \<Rightarrow> ('e, vdisk) res" where
  "vdisk_new oc base len chunk = and_then (next_power_of_two oc (max chunk 512)) (\<lambda>c.
     if c = 0 then Panic
     else Ok \<lparr>vd_base = base, vd_length = len, vd_position = 0, vd_chunk_size = c, vd_cache = [],
            vd_max_chunks = clamp (64 * 1024 * 1024 div c) 4 512\<rparr>)"

definition vdisk_full :: "bool \<Rightarrow> 'w driver \<Rightarrow> nat \<Rightarrow> 'w \<Rightarrow> ('e, vdisk) res" where
  "vdisk_full oc d chunk w = vdisk_new oc 0 (dr_size d w) chunk"

section \<open>Cached reads\<close>

fun position :: "nat \<Rightarrow> (nat \<times> bytes) list \<Rightarrow> nat option" where
  "position i [] = None"
| "position i (e # es) = (if fst e = i then Some 0 else map_option Suc (position i es))"

definition move_to_front :: "nat \<Rightarrow> 'a list \<Rightarrow> 'a list" where
  "move_to_front p xs = xs ! p # (take p xs @ drop (Suc p) xs)"

definition push_chunk :: "nat \<Rightarrow> (nat \<times> bytes) \<Rightarrow> (nat \<times> bytes) list \<Rightarrow> (nat \<times> bytes) list" where
  "push_chunk max_chunks e cache = e # (if max_chunks \<le> length cache then butlast cache else cache)"

text \<open>Reading one chunk from the driver: nothing when it starts past the end of the disk.\<close>

definition load_chunk :: "bool \<Rightarrow> 'w driver \<Rightarrow> vdisk \<Rightarrow> nat \<Rightarrow> ('w, io_error, bytes) io" where
  "load_chunk oc d v i w = (case and_then (add64 oc (vd_base v) (i * vd_chunk_size v)) (\<lambda>start.
       and_then (alloc_zeroed (vd_chunk_size v)) (\<lambda>_. Ok start)) of
       Err e \<Rightarrow> (Err e, w)
     | Panic \<Rightarrow> (Panic, w)
     | Ok start \<Rightarrow> if start < dr_size d w
         then io_map_err (\<lambda>e. IoError OtherKind (display_error e))
           (dr_read d start (min (vd_chunk_size v) (dr_size d w - start))) w
         else (Ok [], w))"

text \<open>The block of the loop that leaves the wanted chunk at the front of the cache.\<close>

definition fetch_chunk :: "bool \<Rightarrow> 'w driver \<Rightarrow> nat \<Rightarrow> (vdisk \<times> 'w, io_error, bytes) io" where
  "fetch_chunk oc d i = (\<lambda>(v, w). case position i (vd_cache v) of
       Some p \<Rightarrow> (Ok (snd (vd_cache v ! p)), (v\<lparr>vd_cache := move_to_front p (vd_cache v)\<rparr>, dr_hit d w))
     | None \<Rightarrow> (case load_chunk oc d v i w of
         (Ok bs, w') \<Rightarrow> (Ok bs, (v\<lparr>vd_cache := push_chunk (vd_max_chunks v) (i, bs) (vd_cache v)\<rparr>, w'))
       | (Err e, w') \<Rightarrow> (Err e, (v, w'))
       | (Panic, w') \<Rightarrow> (Panic, (v, w'))))"

function read_cached_loop :: "bool \<Rightarrow> 'w driver \<Rightarrow> nat \<Rightarrow> nat \<Rightarrow> nat \<Rightarrow> bytes \<Rightarrow> vdisk \<times> 'w
    \<Rightarrow> (io_error, nat \<times> bytes) res \<times> (vdisk \<times> 'w)" where
  "read_cached_loop oc d pos tot transferred buf st =
     (if transferred < tot then
        (let cur = pos + transferred; c = vd_chunk_size (fst st) in
         if c = 0 then (Panic, st)
         else (case fetch_chunk oc d (cur div c) st of
             (Ok dat, st') \<Rightarrow>
               (let within = cur mod c in
                if length dat \<le> within then (Ok (transferred, buf), st')
                else (let k = min (tot - transferred) (length dat - within) in
                      read_cached_loop oc d pos tot (transferred + k)
                        (splice buf transferred (subrange dat within (within + k))) st'))
           | (Err e, st') \<Rightarrow> (Err e, st')
           | (Panic, st') \<Rightarrow> (Panic, st')))
      else (Ok (transferred, buf), st))"
  by pat_completeness auto
termination by (relation "measure (\<lambda>(oc, d, pos, tot, transferred, buf, st). tot - transferred)") auto

declare read_cached_loop.simps [simp del]

definition read_with_cache :: "bool \<Rightarrow> 'w driver \<Rightarrow> nat \<Rightarrow> bytes \<Rightarrow> (vdisk \<times> 'w, io_error, nat \<times> bytes) io" where
  "read_with_cache oc d pos buf st =
     (if vd_length (fst st) \<le> pos \<or> buf = [] then (Ok (0, buf), st)
      else read_cached_loop oc d pos (min (vd_length (fst st) - pos) (length buf)) 0 buf st)"

text \<open>\<open>Read::read\<close>, \<open>Seek::seek\<close> and \<open>MemoryMapper::read_at_offset\<close>.\<close>

definition vdisk_read :: "bool \<Rightarrow> 'w driver \<Rightarrow> bytes \<Rightarrow> (vdisk \<times> 'w, io_error, nat \<times> bytes) io" where
  "vdisk_read oc d buf st = io_bind (read_with_cache oc d (vd_position (fst st)) buf)
     (\<lambda>(n, b) (v, w). (case add64 oc (vd_position v) n of
        Ok p \<Rightarrow> (Ok (n, b), (v\<lparr>vd_position := p\<rparr>, w))
      | Err e \<Rightarrow> (Err e, (v, w))
      | Panic \<Rightarrow> (Panic, (v, w)))) st"

datatype seek_from = SeekStart nat | SeekEnd int | SeekCurrent int

definition seek_target :: "vdisk \<Rightarrow> seek_from \<Rightarrow> int" where
  "seek_target v s = (case s of
       SeekStart p \<Rightarrow> int p
     | SeekEnd k \<Rightarrow> int (vd_length v) + k
     | SeekCurrent k \<Rightarrow> int (vd_position v) + k)"

definition vdisk_seek :: "seek_from \<Rightarrow> (vdisk, io_error, nat) io" where
  "vdisk_seek s v = (let new = seek_target v s in
     if new < 0 then (Err (IoError InvalidInput ''seek to a negative position''), v)
     else (let p = nat (new mod 2 ^ 64) in (Ok p, v\<lparr>vd_position := p\<rparr>)))"

definition read_at_offset :: "bool \<Rightarrow> 'w driver \<Rightarrow> nat \<Rightarrow> bytes \<Rightarrow> (vdisk \<times> 'w, vm_error, nat \<times> bytes) io" where
  "read_at_offset oc d off buf = io_map_err Io (read_with_cache oc d off buf)"

section \<open>Laws\<close>

lemma npot_from_power: "\<exists>m. npot_from (2 ^ k) n = 2 ^ m \<and> n \<le> npot_from (2 ^ k) n"
proof (induction "2 ^ k :: nat" n arbitrary: k rule: npot_from.induct)
  case (1 n)
  then show ?case
    using "1"(1) [of "Suc k"] by (cases "2 ^ k < n") (auto simp: npot_from.simps [of "2 ^ k" n])
qed

lemma npot_from_least: "0 < p \<Longrightarrow> npot_from p n < max (2 * n) (p + 1)"
proof (induction p n rule: npot_from.induct)
  case (1 p n)
  then show ?case by (cases "p < n") (auto simp: npot_from.simps [of p n] max_def)
qed

text \<open>A well-formed view, the bytes a chunk should hold, and a cache that holds them.\<close>

definition vdisk_wf :: "vdisk \<Rightarrow> bool" where
  "vdisk_wf v \<longleftrightarrow> 512 \<le> vd_chunk_size v \<and> vd_chunk_size v < 2 ^ 32 \<and> 4 \<le> vd_max_chunks v \<and>
     vd_max_chunks v \<le> 512 \<and> vd_base v + vd_length v \<le> 2 ^ 64"

definition chunk_bytes :: "nat \<Rightarrow> (nat \<Rightarrow> byte) \<Rightarrow> vdisk \<Rightarrow> nat \<Rightarrow> bytes" where
  "chunk_bytes sz disk v i = (let start = vd_base v + i * vd_chunk_size v in
     window disk start (min (vd_chunk_size v) (sz - start)))"

definition cache_ok :: "nat \<Rightarrow> (nat \<Rightarrow> byte) \<Rightarrow> vdisk \<Rightarrow> bool" where
  "cache_ok sz disk v \<longleftrightarrow> (\<forall>e \<in> set (vd_cache v). snd e = chunk_bytes sz disk v (fst e)) \<and>
     distinct (map fst (vd_cache v)) \<and> length (vd_cache v) \<le> vd_max_chunks v"

definition same_view :: "vdisk \<Rightarrow> vdisk \<Rightarrow> bool" where
  "same_view v v' \<longleftrightarrow> (\<exists>c. v' = v\<lparr>vd_cache := c\<rparr>)"

definition view_ok :: "nat \<Rightarrow> (nat \<Rightarrow> byte) \<Rightarrow> vdisk \<Rightarrow> bool" where
  "view_ok sz disk v \<longleftrightarrow> vdisk_wf v \<and> cache_ok sz disk v"

lemma position_Some: "position i es = Some p \<Longrightarrow> p < length es \<and> fst (es ! p) = i"
  by (induction es arbitrary: p) (auto split: if_splits)

lemma position_None: "position i es = None \<longleftrightarrow> i \<notin> fst ` set es"
  by (induction es) auto

lemma set_move_to_front: "p < length xs \<Longrightarrow> set (move_to_front p xs) = set xs"
  unfolding move_to_front_def by (metis id_take_nth_drop list.simps(15) set_append Un_insert_right)

lemma length_move_to_front: "p < length xs \<Longrightarrow> length (move_to_front p xs) = length xs"
  by (simp add: move_to_front_def)

lemma distinct_move_to_front:
  assumes "p < length xs" "distinct (map f xs)"
  shows "distinct (map f (move_to_front p xs))"
proof -
  have "map f xs = map f (take p xs) @ f (xs ! p) # map f (drop (Suc p) xs)"
    using id_take_nth_drop [OF assms(1)] by (metis list.simps(9) map_append)
  then show ?thesis using assms(2) by (auto simp: move_to_front_def)
qed

lemma same_view_simps:
  assumes "same_view v v'"
  shows "vd_base v' = vd_base v" "vd_length v' = vd_length v" "vd_chunk_size v' = vd_chunk_size v"
    "vd_max_chunks v' = vd_max_chunks v" "vd_position v' = vd_position v" "vdisk_wf v' = vdisk_wf v"
    "chunk_bytes sz disk v' = chunk_bytes sz disk v"
  using assms by (auto simp: same_view_def vdisk_wf_def chunk_bytes_def fun_eq_iff)

lemma same_view_trans: "same_view v v' \<Longrightarrow> same_view v' v'' \<Longrightarrow> same_view v v''"
  by (auto simp: same_view_def)

lemma same_view_refl: "same_view v v"
  by (auto simp: same_view_def intro: exI [of _ "vd_cache v"])

lemma cache_hit_ok:
  assumes "cache_ok sz disk v" "position i (vd_cache v) = Some p"
  shows "cache_ok sz disk (v\<lparr>vd_cache := move_to_front p (vd_cache v)\<rparr>)"
    "snd (vd_cache v ! p) = chunk_bytes sz disk v i"
proof -
  have p: "p < length (vd_cache v)" "fst (vd_cache v ! p) = i" using position_Some [OF assms(2)] by auto
  show "snd (vd_cache v ! p) = chunk_bytes sz disk v i" using assms(1) p by (auto simp: cache_ok_def)
  show "cache_ok sz disk (v\<lparr>vd_cache := move_to_front p (vd_cache v)\<rparr>)"
    using assms(1) p distinct_move_to_front [OF p(1), of fst]
    by (simp add: cache_ok_def set_move_to_front length_move_to_front chunk_bytes_def)
qed

lemma cache_push_ok:
  assumes "cache_ok sz disk v" "position i (vd_cache v) = None" "0 < vd_max_chunks v"
  shows "cache_ok sz disk (v\<lparr>vd_cache := push_chunk (vd_max_chunks v) (i, chunk_bytes sz disk v i) (vd_cache v)\<rparr>)"
proof -
  let ?c = "vd_cache v"
  have i: "i \<notin> fst ` set ?c" using assms(2) by (simp add: position_None)
  have sub: "set (butlast ?c) \<subseteq> set ?c" by (auto dest: in_set_butlastD)
  have "distinct (map fst (butlast ?c))" using assms(1) by (simp add: cache_ok_def map_butlast distinct_butlast)
  moreover have "i \<notin> fst ` set (butlast ?c)" using i sub by blast
  ultimately show ?thesis using assms(1,3) i sub
    by (auto simp: cache_ok_def push_chunk_def chunk_bytes_def dest: in_set_butlastD)
qed

context vm_driver
begin

lemma load_chunk_spec:
  assumes inv: "inv w" and wf: "vdisk_wf v" and i: "i * vd_chunk_size v < vd_length v"
    and ld: "load_chunk oc d v i w = (r, w')"
  shows "inv w'" "r \<noteq> Panic" "r = Ok bs \<Longrightarrow> bs = chunk_bytes sz disk v i"
proof -
  let ?c = "vd_chunk_size v" and ?s = "vd_base v + i * vd_chunk_size v"
  have s: "?s < 2 ^ 64" and c: "?c < 2 ^ 32" using wf i by (auto simp: vdisk_wf_def)
  have "add64 oc (vd_base v) (i * ?c) = (Ok ?s :: (io_error, nat) res)" using s by (rule add64_ok)
  moreover have "alloc_zeroed ?c = (Ok (replicate ?c 0) :: (io_error, bytes) res)" using c by (simp add: alloc_zeroed_def)
  ultimately have eq: "load_chunk oc d v i w = (if ?s < sz
      then io_map_err (\<lambda>e. IoError OtherKind (display_error e)) (dr_read d ?s (min ?c (sz - ?s))) w else (Ok [], w))"
    using size_law [OF inv] by (simp add: load_chunk_def)
  have "inv w' \<and> r \<noteq> Panic \<and> (\<forall>bs. r = Ok bs \<longrightarrow> bs = chunk_bytes sz disk v i)"
  proof (cases "?s < sz")
    case True
    obtain r1 where r1: "dr_read d ?s (min ?c (sz - ?s)) w = (r1, w')" and r: "r = map_err (\<lambda>e. IoError OtherKind (display_error e)) r1"
      using ld eq True by (auto simp: io_map_err_def split: prod.splits)
    have "min ?c (sz - ?s) < lim" using c lim_ok by simp
    from read_law [OF inv this r1] r show ?thesis by (simp add: chunk_bytes_def Let_def res_simps)
  next
    case False
    then show ?thesis using ld eq inv by (auto simp: chunk_bytes_def Let_def)
  qed
  then show "inv w'" "r \<noteq> Panic" "r = Ok bs \<Longrightarrow> bs = chunk_bytes sz disk v i" by auto
qed

lemma fetch_chunk_spec:
  assumes inv: "inv w" and ok: "view_ok sz disk v" and i: "i * vd_chunk_size v < vd_length v"
    and ft: "fetch_chunk oc d i (v, w) = (r, (v', w'))"
  shows "inv w'" "view_ok sz disk v'" "same_view v v'" "r \<noteq> Panic" "r = Ok bs \<Longrightarrow> bs = chunk_bytes sz disk v i"
proof -
  have wf: "vdisk_wf v" and ca: "cache_ok sz disk v" using ok by (auto simp: view_ok_def)
  have "inv w' \<and> view_ok sz disk v' \<and> same_view v v' \<and> r \<noteq> Panic \<and> (\<forall>bs. r = Ok bs \<longrightarrow> bs = chunk_bytes sz disk v i)"
  proof (cases "position i (vd_cache v)")
    case (Some p)
    then have v': "v' = v\<lparr>vd_cache := move_to_front p (vd_cache v)\<rparr>" and "w' = dr_hit d w" "r = Ok (snd (vd_cache v ! p))"
      using ft by (auto simp: fetch_chunk_def)
    moreover have "same_view v v'" using v' by (auto simp: same_view_def)
    ultimately show ?thesis using cache_hit_ok [OF ca Some] hit_law [OF inv] wf
      by (auto simp: view_ok_def same_view_simps)
  next
    case None
    obtain r1 w1 where r1: "load_chunk oc d v i w = (r1, w1)" by fastforce
    note ld = load_chunk_spec [OF inv wf i r1]
    show ?thesis
    proof (cases r1)
      case (Ok dat)
      then have v': "v' = v\<lparr>vd_cache := push_chunk (vd_max_chunks v) (i, dat) (vd_cache v)\<rparr>" and o: "w' = w1" "r = Ok dat"
        using ft None r1 by (auto simp: fetch_chunk_def)
      have sv: "same_view v v'" using v' by (auto simp: same_view_def)
      have "cache_ok sz disk v'" using cache_push_ok [OF ca None] wf ld(3) [OF Ok] v' by (simp add: vdisk_wf_def)
      then show ?thesis using o ld Ok sv wf by (auto simp: view_ok_def same_view_simps)
    qed (use ft None r1 ld ok in \<open>auto simp: fetch_chunk_def same_view_refl\<close>)
  qed
  then show "inv w'" "view_ok sz disk v'" "same_view v v'" "r \<noteq> Panic" "r = Ok bs \<Longrightarrow> bs = chunk_bytes sz disk v i" by auto
qed

text \<open>The bytes of a chunk at a position inside it.\<close>

lemma chunk_part:
  assumes "0 < vd_chunk_size v" "cur = i * vd_chunk_size v + within" "within < vd_chunk_size v"
    and dat: "dat = chunk_bytes sz disk v i"
  shows "length dat \<le> within \<longleftrightarrow> sz \<le> vd_base v + cur"
    "k \<le> length dat - within \<Longrightarrow> subrange dat within (within + k) = window (\<lambda>q. disk (vd_base v + q)) cur k"
    "length dat - within \<le> sz - (vd_base v + cur)"
proof -
  have len: "length dat = min (vd_chunk_size v) (sz - (vd_base v + i * vd_chunk_size v))"
    using dat by (simp add: chunk_bytes_def Let_def)
  show "length dat \<le> within \<longleftrightarrow> sz \<le> vd_base v + cur" "length dat - within \<le> sz - (vd_base v + cur)"
    using len assms(2,3) by auto
  assume "k \<le> length dat - within"
  then show "subrange dat within (within + k) = window (\<lambda>q. disk (vd_base v + q)) cur k"
    using len dat assms(2)
    by (auto simp: subrange_def chunk_bytes_def Let_def window_simps add.assoc intro!: window_shift)
qed

lemma read_cached_loop_spec:
  assumes "inv (snd st)" "view_ok sz disk (fst st)" "pos + tot \<le> vd_length (fst st)" "tot \<le> length buf"
    "avail = min tot (sz - (vd_base (fst st) + pos))" "transferred \<le> avail"
    "g = (\<lambda>q. disk (vd_base (fst st) + q))"
    "read_cached_loop oc d pos tot transferred buf st = (r, st')"
  shows "inv (snd st') \<and> view_ok sz disk (fst st') \<and> same_view (fst st) (fst st') \<and> r \<noteq> Panic \<and>
    (\<forall>x. r = Ok x \<longrightarrow> x = (avail, take transferred buf @ window g (pos + transferred) (avail - transferred) @ drop avail buf))"
  using assms
proof (induction "tot - transferred" arbitrary: transferred buf st rule: less_induct)
  case less
  note inv = less(2) and ok = less(3) and fits = less(4) and buf = less(5) and avail = less(6) and
    tr = less(7) and g = less(8) and run = less(9)
  obtain v w where st: "st = (v, w)" by fastforce
  let ?c = "vd_chunk_size v" and ?cur = "pos + transferred"
  let ?i = "?cur div ?c" and ?within = "?cur mod ?c"
  have c: "0 < ?c" using ok st by (simp add: view_ok_def vdisk_wf_def)
  show ?case
  proof (cases "transferred < tot")
    case False
    then have "transferred = avail" using tr avail by simp
    then show ?thesis using run False inv ok st
      by (auto simp: read_cached_loop.simps [of oc d pos tot] same_view_refl)
  next
    case lt: True
    have "?i * ?c \<le> ?cur" by (rule div_times_less_eq_dividend)
    moreover have "?cur < vd_length v" using lt fits st by simp
    ultimately have i: "?i * ?c < vd_length v" by (rule le_less_trans)
    obtain r1 v1 w1 where r1: "fetch_chunk oc d ?i (v, w) = (r1, (v1, w1))" by (metis prod.exhaust)
    note ft = fetch_chunk_spec [OF inv [unfolded st snd_conv] ok [unfolded st fst_conv] i r1]
    show ?thesis
    proof (cases r1)
      case (Ok dat)
      have cur: "?cur = ?i * ?c + ?within" "?within < ?c" using c by simp_all
      note part = chunk_part [OF c cur ft(5) [OF Ok]]
      show ?thesis
      proof (cases "length dat \<le> ?within")
        case True
        then have "sz \<le> vd_base v + ?cur" using part(1) by blast
        then have "transferred = avail" using tr avail st by (auto simp: min_def split: if_splits)
        moreover have "r = Ok (transferred, buf)" "st' = (v1, w1)"
          using run lt st r1 Ok True c by (auto simp: read_cached_loop.simps [of oc d pos tot] Let_def)
        ultimately show ?thesis using ft st by simp
      next
        case False
        define k where "k = min (tot - transferred) (length dat - ?within)"
        let ?buf = "splice buf transferred (subrange dat ?within (?within + k))"
        have k: "0 < k" "k \<le> length dat - ?within" "transferred + k \<le> tot" using False lt by (auto simp: k_def)
        have sub: "subrange dat ?within (?within + k) = window g ?cur k"
          using part(2) [OF k(2)] g st by simp
        have next_run: "read_cached_loop oc d pos tot (transferred + k) ?buf (v1, w1) = (r, st')"
          using run lt st r1 Ok False c
          by (simp add: read_cached_loop.simps [of oc d pos tot transferred] Let_def k_def)
        have le: "transferred + k \<le> avail" using part(3) k(2,3) avail st tr by simp
        have len: "length ?buf = length buf" using sub k(3) buf by (simp add: length_splice)
        note sv = same_view_simps [OF ft(3)]
        have "inv (snd st') \<and> view_ok sz disk (fst st') \<and> same_view (fst (v1, w1)) (fst st') \<and> r \<noteq> Panic \<and>
            (\<forall>x. r = Ok x \<longrightarrow> x = (avail, take (transferred + k) ?buf @
              window g (pos + (transferred + k)) (avail - (transferred + k)) @ drop avail ?buf))"
          by (rule less(1)) (use lt k ft(1,2) fits buf avail le g next_run len sv st in auto)
        moreover have "take (transferred + k) ?buf = take transferred buf @ window g ?cur k"
          using take_splice_end [of transferred "window g ?cur k" buf] sub k(3) buf by simp
        moreover have "drop avail ?buf = drop avail buf"
          using drop_splice [of transferred "window g ?cur k" avail buf] sub k(3) buf le by simp
        moreover have "window g ?cur (avail - transferred) = window g ?cur k @
            window g (pos + (transferred + k)) (avail - (transferred + k))"
          using window_append [of g ?cur k "avail - (transferred + k)"] le by (simp add: add.assoc)
        ultimately show ?thesis using ft(3) st by (auto intro: same_view_trans)
      qed
    next
      case (Err e)
      then have "r = Err e" "st' = (v1, w1)"
        using run lt st r1 c by (auto simp: read_cached_loop.simps [of oc d pos tot] Let_def)
      then show ?thesis using ft st by simp
    next
      case Panic
      then show ?thesis using ft(4) by simp
    qed
  qed
qed

lemma read_with_cache_spec:
  assumes "inv w" "view_ok sz disk v" "read_with_cache oc d pos buf (v, w) = (r, (v', w'))"
    and n: "n = min (min (vd_length v - pos) (length buf)) (sz - (vd_base v + pos))"
  shows "inv w'" "view_ok sz disk v'" "same_view v v'" "r \<noteq> Panic"
    "r = Ok x \<Longrightarrow> x = (n, window (\<lambda>q. disk (vd_base v + q)) pos n @ drop n buf)"
proof -
  have "inv w' \<and> view_ok sz disk v' \<and> same_view v v' \<and> r \<noteq> Panic \<and>
      (\<forall>x. r = Ok x \<longrightarrow> x = (n, window (\<lambda>q. disk (vd_base v + q)) pos n @ drop n buf))"
  proof (cases "vd_length v \<le> pos \<or> buf = []")
    case True
    then show ?thesis using assms by (auto simp: read_with_cache_def same_view_refl)
  next
    case False
    let ?tot = "min (vd_length v - pos) (length buf)"
    have run: "read_cached_loop oc d pos ?tot 0 buf (v, w) = (r, (v', w'))"
      using assms(3) False by (simp add: read_with_cache_def)
    have "inv (snd (v', w')) \<and> view_ok sz disk (fst (v', w')) \<and> same_view (fst (v, w)) (fst (v', w')) \<and> r \<noteq> Panic \<and>
        (\<forall>x. r = Ok x \<longrightarrow> x = (n, take 0 buf @ window (\<lambda>q. disk (vd_base v + q)) (pos + 0) (n - 0) @ drop n buf))"
      by (rule read_cached_loop_spec [OF _ _ _ _ _ _ _ run]) (use assms(1,2) n False in \<open>auto simp: min_def\<close>)
    then show ?thesis by auto
  qed
  then show "inv w'" "view_ok sz disk v'" "same_view v v'" "r \<noteq> Panic"
    "r = Ok x \<Longrightarrow> x = (n, window (\<lambda>q. disk (vd_base v + q)) pos n @ drop n buf)" by auto
qed

end

context reliable_driver
begin

lemma fetch_chunk_total:
  assumes "inv w" "view_ok sz disk v" "i * vd_chunk_size v < vd_length v"
  shows "\<exists>dat st'. fetch_chunk oc d i (v, w) = (Ok dat, st')"
proof (cases "position i (vd_cache v)")
  case (Some p)
  then show ?thesis by (simp add: fetch_chunk_def)
next
  case None
  let ?c = "vd_chunk_size v" and ?s = "vd_base v + i * vd_chunk_size v"
  have s: "?s < 2 ^ 64" and c: "?c < 2 ^ 32" using assms(2,3) by (auto simp: view_ok_def vdisk_wf_def)
  have "min ?c (sz - ?s) < lim" using c lim_ok by simp
  then obtain bs w' where "dr_read d ?s (min ?c (sz - ?s)) w = (Ok bs, w')"
    using read_total [OF assms(1)] by blast
  then have "\<exists>bs w'. load_chunk oc d v i w = (Ok bs, w')"
    using s c size_law [OF assms(1)] by (auto simp: load_chunk_def alloc_zeroed_def io_map_err_def)
  then show ?thesis using None by (auto simp: fetch_chunk_def)
qed

lemma read_cached_loop_total:
  assumes "inv (snd st)" "view_ok sz disk (fst st)" "pos + tot \<le> vd_length (fst st)"
  shows "\<exists>x st'. read_cached_loop oc d pos tot transferred buf st = (Ok x, st')"
  using assms
proof (induction "tot - transferred" arbitrary: transferred buf st rule: less_induct)
  case less
  obtain v w where st: "st = (v, w)" by fastforce
  let ?c = "vd_chunk_size v" and ?cur = "pos + transferred"
  have c: "?c \<noteq> 0" using less(3) st by (auto simp: view_ok_def vdisk_wf_def)
  show ?case
  proof (cases "transferred < tot")
    case False
    then show ?thesis by (simp add: read_cached_loop.simps [of oc d pos tot])
  next
    case True
    have "?cur div ?c * ?c \<le> ?cur" by (rule div_times_less_eq_dividend)
    moreover have "?cur < vd_length v" using True less(4) st by simp
    ultimately have i: "?cur div ?c * ?c < vd_length v" by (rule le_less_trans)
    obtain dat v1 w1 where ft: "fetch_chunk oc d (?cur div ?c) (v, w) = (Ok dat, (v1, w1))"
      using fetch_chunk_total [OF _ _ i, of w oc] less(2,3) st by (metis fst_conv prod.exhaust snd_conv)
    note sp = fetch_chunk_spec [OF _ _ i ft] and sv = same_view_simps
    have ok1: "inv (snd (v1, w1))" "view_ok sz disk (fst (v1, w1))" "pos + tot \<le> vd_length (fst (v1, w1))"
      using sp less(2-4) st sv(2) [of v v1] by auto
    show ?thesis
    proof (cases "length dat \<le> ?cur mod ?c")
      case stop: True
      then show ?thesis using True st c ft by (simp add: read_cached_loop.simps [of oc d pos tot] Let_def)
    next
      case False
      let ?k = "min (tot - transferred) (length dat - ?cur mod ?c)"
      have "tot - (transferred + ?k) < tot - transferred" using False True by simp
      from less(1) [OF this ok1] show ?thesis using True st c ft False
        by (simp add: read_cached_loop.simps [of oc d pos tot transferred] Let_def)
    qed
  qed
qed

lemma read_with_cache_total:
  assumes "inv w" "view_ok sz disk v"
    and n: "n = min (min (vd_length v - pos) (length buf)) (sz - (vd_base v + pos))"
  shows "\<exists>v' w'. read_with_cache oc d pos buf (v, w) =
      (Ok (n, window (\<lambda>q. disk (vd_base v + q)) pos n @ drop n buf), (v', w')) \<and>
    inv w' \<and> view_ok sz disk v' \<and> same_view v v'"
proof -
  have "\<exists>x st'. read_with_cache oc d pos buf (v, w) = (Ok x, st')"
    using read_cached_loop_total [of "(v, w)" pos "min (vd_length v - pos) (length buf)" oc 0 buf] assms(1,2)
    by (auto simp: read_with_cache_def)
  then obtain x v' w' where rd: "read_with_cache oc d pos buf (v, w) = (Ok x, (v', w'))" by (metis prod.exhaust)
  from read_with_cache_spec [OF assms(1,2) rd n] rd show ?thesis by auto
qed

end

section \<open>Construction\<close>

lemma vdisk_new_wf:
  assumes "vdisk_new oc base len chunk = Ok v" "chunk \<le> 2 ^ 31" "base + len \<le> 2 ^ 64"
  shows "view_ok sz disk v" "vd_base v = base" "vd_length v = len" "vd_position v = 0"
    "chunk \<le> vd_chunk_size v" "\<exists>k. vd_chunk_size v = 2 ^ k"
proof -
  let ?n = "max chunk 512" and ?c = "npot_from 1 (max chunk 512)"
  have n: "?n \<le> 2 ^ 31" using assms(2) by simp
  then have v: "v = \<lparr>vd_base = base, vd_length = len, vd_position = 0, vd_chunk_size = ?c, vd_cache = [],
      vd_max_chunks = clamp (64 * 1024 * 1024 div ?c) 4 512\<rparr>"
    using assms(1) by (auto simp: vdisk_new_def next_power_of_two_def split: if_splits)
  obtain m where m: "?c = 2 ^ m" "?n \<le> ?c" using npot_from_power [of 0 ?n] by auto
  have "?c < max (2 * ?n) 2" using npot_from_least [of 1 ?n] by simp
  also have "\<dots> \<le> 2 ^ 32" using n by simp
  finally have "?c < 2 ^ 32" .
  then have "vdisk_wf v" using v m assms(3) by (auto simp: vdisk_wf_def clamp_def)
  then show "view_ok sz disk v" using v by (simp add: view_ok_def cache_ok_def)
  show "vd_base v = base" "vd_length v = len" "vd_position v = 0" "chunk \<le> vd_chunk_size v"
      "\<exists>k. vd_chunk_size v = 2 ^ k"
    using v m by auto
qed

lemma vdisk_new_total: "chunk \<le> 2 ^ 63 \<Longrightarrow> \<exists>v. vdisk_new oc base len chunk = Ok v"
  using npot_from_power [of 0 "max chunk 512"]
  by (auto simp: vdisk_new_def next_power_of_two_def)

section \<open>Properties\<close>

text \<open>C7. The chunk cache is transparent: over a native reader, a read of a view returns exactly the
  bytes of its range of the disk, cut at the end of the range, of the buffer and of the disk, whatever
  chunks are cached and whatever must be evicted; the cache stays coherent and within its bound.  A
  failed chunk load is an error that leaves no wrong chunk behind.\<close>

theorem cached_read_transparent:
  assumes "reader_inv sz disk d" and "view_ok sz disk v"
    and "n = min (min (vd_length v - pos) (length buf)) (sz - (vd_base v + pos))"
    and "read_with_cache oc (reader_driver oc') pos buf (v, d) = (r, (v', d'))"
  shows "reader_inv sz disk d' \<and> view_ok sz disk v' \<and> length (vd_cache v') \<le> 512 \<and> r \<noteq> Panic \<and>
    (\<forall>x. r = Ok x \<longrightarrow> x = (n, window (\<lambda>q. disk (vd_base v + q)) pos n @ drop n buf)) \<and>
    (reader_live sz disk d \<longrightarrow> r = Ok (n, window (\<lambda>q. disk (vd_base v + q)) pos n @ drop n buf))"
proof -
  have "length (vd_cache v') \<le> 512"
    using native.read_with_cache_spec(2) [OF assms(1,2,4,3)]
    by (auto simp: view_ok_def cache_ok_def vdisk_wf_def)
  moreover have "r = Ok (n, window (\<lambda>q. disk (vd_base v + q)) pos n @ drop n buf)" if "reader_live sz disk d"
    using live.read_with_cache_total [OF that assms(2,3), of oc oc'] assms(4) by auto
  ultimately show ?thesis using native.read_with_cache_spec [OF assms(1,2,4,3)] by blast
qed

definition sample_view :: vdisk where
  "sample_view = \<lparr>vd_base = 1, vd_length = 9, vd_position = 0, vd_chunk_size = 512, vd_cache = [],
     vd_max_chunks = 512\<rparr>"

theorem cached_read_transparent_witness:
  "\<exists>v' d'. read_with_cache True (reader_driver True) 0 [5, 5, 5, 5] (sample_view, sample_reader) =
    (Ok (2, [9, 0, 5, 5]), (v', d'))"
proof -
  obtain r v' d' where rd: "read_with_cache True (reader_driver True) 0 [5, 5, 5, 5] (sample_view, sample_reader) =
      (r, (v', d'))" by (metis prod.exhaust)
  have v: "view_ok 3 (reader_byte sample_reader) sample_view"
    by (simp add: view_ok_def vdisk_wf_def cache_ok_def sample_view_def)
  have n: "2 = min (min (vd_length sample_view - 0) (length [5, 5, 5, 5 :: byte])) (3 - (vd_base sample_view + 0))"
    by (simp add: sample_view_def)
  have live: "reader_live 3 (reader_byte sample_reader) sample_reader"
    using sample_reader_inv by (simp add: reader_live_def sample_reader_def extents_live_def)
  have "r = Ok (2, window (\<lambda>q. reader_byte sample_reader (vd_base sample_view + q)) 0 2 @ drop 2 [5, 5, 5, 5])"
    using cached_read_transparent [OF sample_reader_inv v n rd] live by blast
  also have "window (\<lambda>q. reader_byte sample_reader (vd_base sample_view + q)) 0 2 = [9, 0]"
    by (simp add: window_def numeral_2_eq_2 reader_byte_def sample_reader_def sample_view_def extents_byte_def
        covers_def byte_fun_def fresh_file_def)
  finally show ?thesis using rd by simp
qed

text \<open>A view can be created for every chunk size up to \<open>2 ^ 31\<close>; its chunk size is a power of
  two no smaller than asked, its cache is empty and well-formed.  A chunk size above \<open>2 ^ 63\<close>
  panics in both builds.\<close>

theorem view_creation:
  assumes "base + len \<le> 2 ^ 64"
  shows "(chunk \<le> 2 ^ 31 \<longrightarrow> (\<exists>v k. (vdisk_new oc base len chunk :: (io_error, vdisk) res) = Ok v \<and>
      view_ok sz disk v \<and> vd_cache v = [] \<and> vd_chunk_size v = 2 ^ k \<and> max chunk 512 \<le> vd_chunk_size v)) \<and>
    (chunk > 2 ^ 63 \<longrightarrow> (vdisk_new oc base len chunk :: (io_error, vdisk) res) = Panic)"
proof -
  have "\<exists>v k. (vdisk_new oc base len chunk :: (io_error, vdisk) res) = Ok v \<and>
      view_ok sz disk v \<and> vd_cache v = [] \<and> vd_chunk_size v = 2 ^ k \<and> max chunk 512 \<le> vd_chunk_size v"
    if c: "chunk \<le> 2 ^ 31"
  proof -
    obtain v where v: "(vdisk_new oc base len chunk :: (io_error, vdisk) res) = Ok v"
      using vdisk_new_total [of chunk] c by fastforce
    from vdisk_new_wf [OF v c assms] have "view_ok sz disk v" "512 \<le> vd_chunk_size v" "chunk \<le> vd_chunk_size v"
      by (auto simp: view_ok_def vdisk_wf_def)
    moreover have "vd_cache v = []" using v by (auto simp: vdisk_new_def res_simps split: if_splits)
    ultimately show ?thesis using v vdisk_new_wf(6) [OF v c assms] by auto
  qed
  then show ?thesis by (auto simp: vdisk_new_def next_power_of_two_def)
qed

theorem view_creation_witness:
  "\<exists>v k. (vdisk_new True 0 (2 ^ 64) 1000 :: (io_error, vdisk) res) = Ok v \<and> vd_chunk_size v = 2 ^ k"
  using view_creation [of 0 "2 ^ 64" 1000 True 0 "\<lambda>_. 0"] by auto

end
