(* ===== verification/Detector.thy ===== *)
theory Detector
  imports Virtual_Disk
begin

unbundle bit_operations_syntax

text \<open>
  \<open>src/vms/detector.rs\<close>: the partition table, the file systems and the family of the guest
  system, from the first sectors of the disk and of each partition.

  The code runs over a driver; \<open>tick\<close> is \<open>increment_completed_tasks\<close> on the world's progress
  counters.  The laws compare it with the same code over \<open>pure_driver\<close>, which serves a byte function
  and has no state: over every reliable driver detection is a function of the bytes of the disk.
\<close>

section \<open>Reading sectors\<close>

definition other_io :: "vm_error \<Rightarrow> io_error" where
  "other_io e = IoError OtherKind (display_error e)"

definition read_blocks :: "bool \<Rightarrow> 'w driver \<Rightarrow> nat \<Rightarrow> nat \<Rightarrow> nat \<Rightarrow> ('w, io_error, bytes) io" where
  "read_blocks oc d bs index count =
     io_bind (io_lift (and_then (mul64 oc count bs) (\<lambda>n. and_then (alloc_zeroed n) (\<lambda>_.
       and_then (mul64 oc index bs) (\<lambda>off. Ok (off, n)))))) (\<lambda>(off, n).
       io_map_err other_io (dr_read d off n))"

definition cancelled_error :: io_error where
  "cancelled_error = IoError Interrupted ''Analysis cancelled by the user''"

definition check_cancel :: "'w driver \<Rightarrow> ('w, io_error, unit) io" where
  "check_cancel d w = (case dr_cancelled d w of (c, w') \<Rightarrow> (if c then Err cancelled_error else Ok (), w'))"

record detected_disk =
  dd_scheme :: table_scheme
  dd_partitions :: "partition list"
  dd_operating_system :: operating_system

definition field_le :: "bytes \<Rightarrow> nat \<Rightarrow> nat \<Rightarrow> nat" where
  "field_le e at n = le_nat (subrange e at (at + n))"

section \<open>File system signatures\<close>

definition identify_fs :: "bytes \<Rightarrow> file_system" where
  "identify_fs sector =
     (if length sector < 512 then FsUnknown
      else if subrange sector 3 11 = ascii_bytes ''NTFS    '' then Ntfs
      else if subrange sector 0 4 = ascii_bytes ''XFSB'' then Xfs
      else if subrange sector 0 8 = ascii_bytes ''LABELONE'' then Lvm2
      else if (subrange sector 54 62 = ascii_bytes ''FAT12   ''
               \<or> subrange sector 54 62 = ascii_bytes ''FAT16   ''
               \<or> subrange sector 82 90 = ascii_bytes ''FAT32   '')
              \<and> sector ! 510 = 0x55 \<and> sector ! 511 = 0xAA then Fat
      else FsUnknown)"

definition ext_version :: "bytes \<Rightarrow> file_system" where
  "ext_version sb =
     (if field_le sb 0x60 4 AND (0x40 OR 0x80 OR 0x200) \<noteq> 0 then Ext4
      else if field_le sb 0x5C 4 AND 4 \<noteq> 0 then Ext3 else Ext2)"

definition identify_linux_fs :: "bool \<Rightarrow> 'w driver \<Rightarrow> nat \<Rightarrow> ('w, io_error, file_system) io" where
  "identify_linux_fs oc d start =
     io_bind (read_blocks oc d SECTOR (start div SECTOR + 2) 2) (\<lambda>sb.
       if 0x64 \<le> length sb \<and> sb ! 56 = 0x53 \<and> sb ! 57 = 0xEF then io_ret (ext_version sb)
       else io_bind (read_blocks oc d SECTOR (start div SECTOR + 128) 1) (\<lambda>sb_btrfs.
         if 0x48 \<le> length sb_btrfs \<and> subrange sb_btrfs 0x40 0x48 = ascii_bytes ''_BHRfS_M'' then io_ret Btrfs
         else io_bind (read_blocks oc d SECTOR (start div SECTOR + 7) 1) (\<lambda>page.
           if length page = 512 \<and> subrange page 502 512 = ascii_bytes ''SWAPSPACE2'' then io_ret LinuxSwap
           else io_ret FsUnknown)))"

definition classify_os :: "partition list \<Rightarrow> operating_system" where
  "classify_os ps =
     (let has_ntfs = list_ex (\<lambda>p. pt_file_system p = Ntfs) ps;
          has_linux = list_ex (\<lambda>p. pt_file_system p \<in> {Ext2, Ext3, Ext4, Xfs, Btrfs, Lvm2}) ps
      in if has_ntfs then Windows else if has_linux then Linux else OsUnknown)"

definition single_partition :: "'w driver \<Rightarrow> bytes \<Rightarrow> 'w \<Rightarrow> partition" where
  "single_partition d sector0 w = \<lparr>pt_index = 0, pt_start = 0, pt_size = dr_size d w,
     pt_kind = ''Volume without a partition table'', pt_file_system = identify_fs sector0, pt_label = None\<rparr>"

section \<open>MBR\<close>

definition mbr_type_name :: "byte \<Rightarrow> string" where
  "mbr_type_name k =
     (let name = (if k \<in> {0x01, 0x04, 0x06, 0x0B, 0x0C, 0x0E} then ''FAT''
        else if k = 0x07 then ''NTFS / exFAT / HPFS''
        else if k = 0x27 then ''Windows RE (hidden)''
        else if k = 0x82 then ''Linux swap''
        else if k = 0x83 then ''Linux''
        else if k = 0x8E then ''Linux LVM''
        else if k = 0xEE then ''GPT protective''
        else if k = 0xEF then ''EFI System''
        else if k = 0xFD then ''Linux RAID''
        else ''Other'')
      in name @ '' (0x'' @ hex_fixed 2 (unat k) @ '')'')"

definition table_entry :: "nat \<Rightarrow> byte \<Rightarrow> nat \<Rightarrow> nat \<Rightarrow> partition" where
  "table_entry idx kind start sectors = \<lparr>pt_index = idx, pt_start = start * SECTOR, pt_size = sectors * SECTOR,
     pt_kind = mbr_type_name kind, pt_file_system = FsUnknown, pt_label = None\<rparr>"

text \<open>The loop of \<open>read_extended_chain\<close> with the rounds it has left.  The positions are sums of two
  32-bit numbers, so their products with the sector size do not overflow.\<close>

fun extended_rounds :: "nat \<Rightarrow> bool \<Rightarrow> 'w driver \<Rightarrow> nat \<Rightarrow> nat \<Rightarrow> partition list \<Rightarrow> ('w, io_error, partition list) io" where
  "extended_rounds 0 oc d lba_extended lba_ebr out = io_ret out"
| "extended_rounds (Suc k) oc d lba_extended lba_ebr out =
     io_bind (read_blocks oc d SECTOR lba_ebr 1) (\<lambda>ebr.
       if length ebr < 512 \<or> ebr ! 510 \<noteq> 0x55 \<or> ebr ! 511 \<noteq> 0xAA then io_ret out
       else
         (let e = subrange ebr 446 462; kind = e ! 4; rel_start = field_le e 8 4; sectors = field_le e 12 4;
              out' = (if kind \<noteq> 0 \<and> sectors \<noteq> 0
                      then out @ [table_entry (length out) kind (lba_ebr + rel_start) sectors] else out);
              nx = subrange ebr 462 478; rel_next = field_le nx 8 4
          in if nx ! 4 = 0 \<or> rel_next = 0 then io_ret out'
             else extended_rounds k oc d lba_extended (lba_extended + rel_next) out'))"

definition read_extended_chain :: "bool \<Rightarrow> 'w driver \<Rightarrow> nat \<Rightarrow> partition list \<Rightarrow> ('w, io_error, partition list) io" where
  "read_extended_chain oc d lba_extended out = extended_rounds 64 oc d lba_extended lba_extended out"

definition mbr_entry :: "bool \<Rightarrow> 'w driver \<Rightarrow> bytes \<Rightarrow> partition list \<Rightarrow> ('w, io_error, partition list) io" where
  "mbr_entry oc d e out =
     (let kind = e ! 4; lba_start = field_le e 8 4; sectors = field_le e 12 4 in
      if kind = 0 \<or> sectors = 0 then io_ret out
      else if kind \<in> {0x05, 0x0F, 0x85} then read_extended_chain oc d lba_start out
      else io_ret (out @ [table_entry (length out) kind lba_start sectors]))"

definition mbr_slot :: "bytes \<Rightarrow> nat \<Rightarrow> bytes" where
  "mbr_slot mbr i = subrange mbr (446 + i * 16) (446 + (i + 1) * 16)"

definition read_mbr :: "bool \<Rightarrow> 'w driver \<Rightarrow> bytes \<Rightarrow> ('w, io_error, partition list) io" where
  "read_mbr oc d mbr = io_bind (mbr_entry oc d (mbr_slot mbr 0) []) (\<lambda>p0.
     io_bind (mbr_entry oc d (mbr_slot mbr 1) p0) (\<lambda>p1.
     io_bind (mbr_entry oc d (mbr_slot mbr 2) p1) (\<lambda>p2.
       mbr_entry oc d (mbr_slot mbr 3) p2)))"

section \<open>GPT\<close>

definition guid_to_text :: "bytes \<Rightarrow> string" where
  "guid_to_text g = hex_fixed 8 (field_le g 0 4) @ ''-'' @ hex_fixed 4 (field_le g 4 2) @ ''-''
     @ hex_fixed 4 (field_le g 6 2) @ ''-'' @ hex_fixed 2 (unat (g ! 8)) @ hex_fixed 2 (unat (g ! 9)) @ ''-''
     @ concat (map (\<lambda>i. hex_fixed 2 (unat (g ! i))) [10, 11, 12, 13, 14, 15])"

definition gpt_type_name :: "bytes \<Rightarrow> string" where
  "gpt_type_name g = (let t = guid_to_text g in
     if t = ''EBD0A0A2-B9E5-4433-87C0-68B6B72699C7'' then ''Microsoft Basic Data''
     else if t = ''E3C9E316-0B5C-4DB8-817D-F92DF00215AE'' then ''Microsoft Reserved''
     else if t = ''DE94BBA4-06D1-4D40-A16A-BFD50179D6AC'' then ''Windows Recovery''
     else if t = ''C12A7328-F81F-11D2-BA4B-00A0C93EC93B'' then ''EFI System''
     else if t = ''0FC63DAF-8483-4772-8E79-3D69D8477DE4'' then ''Linux filesystem''
     else if t = ''0657FD6D-A4AB-43C4-84E5-0933C84B4F4F'' then ''Linux swap''
     else if t = ''E6D6D379-F507-44C2-A23C-238F2A3DF928'' then ''Linux LVM''
     else if t = ''4F68BCE3-E8CD-4DB1-96E7-FBCAF984B709'' then ''Linux root (x86-64)''
     else if t = ''21686148-6449-6E6F-744E-656564454649'' then ''BIOS boot''
     else ''Other'')"

definition gpt_label :: "bytes \<Rightarrow> string option" where
  "gpt_label e = (let l = trim (utf16_lossy (takeWhile (\<lambda>u. u \<noteq> 0) (chunks2 (subrange e 56 128)))) in
     if l = [] then None else Some l)"

text \<open>One entry: skipped when unused or reversed.  The products and the size are unchecked.\<close>

definition gpt_entry :: "bool \<Rightarrow> bytes \<Rightarrow> partition list \<Rightarrow> (io_error, partition list) res" where
  "gpt_entry oc e out =
     (let first_lba = field_le e 32 8; last_lba = field_le e 40 8 in
      if list_all (\<lambda>b. b = 0) (subrange e 0 16) \<or> last_lba < first_lba then Ok out
      else and_then (mul64 oc first_lba SECTOR) (\<lambda>start.
           and_then (add64 oc (last_lba - first_lba) 1) (\<lambda>n.
           and_then (mul64 oc n SECTOR) (\<lambda>sz.
             Ok (out @ [\<lparr>pt_index = length out, pt_start = start, pt_size = sz,
               pt_kind = gpt_type_name (subrange e 0 16), pt_file_system = FsUnknown,
               pt_label = gpt_label e\<rparr>])))))"

fun gpt_entries :: "nat \<Rightarrow> bool \<Rightarrow> bytes \<Rightarrow> nat \<Rightarrow> nat \<Rightarrow> partition list \<Rightarrow> (io_error, partition list) res" where
  "gpt_entries 0 oc table entry_size i out = Ok out"
| "gpt_entries (Suc k) oc table entry_size i out =
     (let start = i * entry_size in
      if length table < start + 128 then Ok out
      else and_then (gpt_entry oc (subrange table start (start + 128)) out)
        (gpt_entries k oc table entry_size (i + 1)))"

definition read_gpt :: "bool \<Rightarrow> 'w driver \<Rightarrow> bytes \<Rightarrow> ('w, io_error, partition list) io" where
  "read_gpt oc d hdr =
     (let lba_entries = field_le hdr 72 8; num_entries = field_le hdr 80 4; entry_size = field_le hdr 84 4 in
      if entry_size < 128 \<or> num_entries = 0 \<or> num_entries > 1024
      then io_err (IoError InvalidData ''GPT header has invalid table parameters'')
      else io_bind (io_lift (div_ceil64 (num_entries * entry_size) SECTOR)) (\<lambda>table_sectors.
           io_bind (read_blocks oc d SECTOR lba_entries table_sectors) (\<lambda>table.
             io_lift (gpt_entries num_entries oc table entry_size 0 []))))"

section \<open>Detection\<close>

definition read_table :: "bool \<Rightarrow> 'w driver \<Rightarrow> bytes \<Rightarrow> ('w, io_error, table_scheme \<times> partition list) io" where
  "read_table oc d hdr =
     (let mbr = take 512 hdr in
      if 1024 \<le> length hdr \<and> subrange hdr 512 520 = ascii_bytes ''EFI PART''
      then io_bind (read_gpt oc d (subrange hdr 512 1024)) (\<lambda>ps. io_ret (Gpt, ps))
      else if mbr ! 510 = 0x55 \<and> mbr ! 511 = 0xAA
      then io_bind (read_mbr oc d mbr) (\<lambda>ps w.
        if ps = [] \<and> identify_fs mbr \<noteq> FsUnknown then (Ok (NoScheme, [single_partition d mbr w]), w)
        else (Ok (Mbr, ps), w))
      else (\<lambda>w. (Ok (NoScheme, [single_partition d mbr w]), w)))"

text \<open>One round of the loop over the partitions, and the loop.\<close>

definition detect_fs :: "bool \<Rightarrow> 'w driver \<Rightarrow> partition \<Rightarrow> ('w, io_error, partition) io" where
  "detect_fs oc d p =
     (if pt_file_system p = FsUnknown \<and> pt_size p > 0
      then io_bind (read_blocks oc d SECTOR (pt_start p div SECTOR) 1) (\<lambda>s.
        if length s = 512
        then (let fs = identify_fs s in
              if fs = FsUnknown
              then io_bind (identify_linux_fs oc d (pt_start p)) (\<lambda>lfs. io_ret (p\<lparr>pt_file_system := lfs\<rparr>))
              else io_ret (p\<lparr>pt_file_system := fs\<rparr>))
        else io_ret p)
      else io_ret p)"

fun detect_all :: "bool \<Rightarrow> 'w driver \<Rightarrow> ('w \<Rightarrow> 'w) \<Rightarrow> partition list \<Rightarrow> ('w, io_error, partition list) io" where
  "detect_all oc d tick [] = io_ret []"
| "detect_all oc d tick (p # ps) =
     io_bind (check_cancel d) (\<lambda>_.
     io_bind (detect_fs oc d p) (\<lambda>p' w.
       io_bind (detect_all oc d tick ps) (\<lambda>ps'. io_ret (p' # ps')) (tick w)))"

definition detect_with_progress :: "bool \<Rightarrow> 'w driver \<Rightarrow> ('w \<Rightarrow> 'w) \<Rightarrow> ('w, io_error, detected_disk) io" where
  "detect_with_progress oc d tick =
     io_bind (check_cancel d) (\<lambda>_.
     io_bind (read_blocks oc d SECTOR 0 2) (\<lambda>hdr.
       if length hdr < 512
       then io_err (IoError UnexpectedEof ''The virtual disk is too small to contain a boot sector'')
       else
         io_bind (read_table oc d hdr) (\<lambda>(scheme, ps).
         io_bind (check_cancel d) (\<lambda>_.
         io_bind (detect_all oc d tick ps) (\<lambda>ps'.
           io_ret \<lparr>dd_scheme = scheme, dd_partitions = ps', dd_operating_system = classify_os ps'\<rparr>)))))"

section \<open>Detection is a function of the bytes\<close>

definition pure_driver :: "nat \<Rightarrow> (nat \<Rightarrow> byte) \<Rightarrow> unit driver" where
  "pure_driver sz disk = \<lparr>dr_size = (\<lambda>_. sz), dr_read = (\<lambda>off n u. (Ok (window disk off n), u)),
     dr_hit = (\<lambda>u. u), dr_cancelled = (\<lambda>u. (False, u))\<rparr>"

interpretation reference: reliable_driver "pure_driver sz disk" "\<lambda>_. sz \<le> 2 ^ 63 \<and> (\<forall>p. sz \<le> p \<longrightarrow> disk p = 0)"
    sz disk "2 ^ 64" for sz disk
  by unfold_locales (auto simp: pure_driver_def)

text \<open>A computation over a driver that returns what another returns without a state.\<close>

definition agrees :: "('w \<Rightarrow> bool) \<Rightarrow> ('w, 'e, 'a) io \<Rightarrow> (unit, 'e, 'a) io \<Rightarrow> bool" where
  "agrees P m m' \<longleftrightarrow> (\<forall>w. P w \<longrightarrow> (\<exists>w'. m w = (fst (m' ()), w') \<and> P w'))"

named_theorems agrees_rules "computations that agree"

lemma agreesD: "agrees P m m' \<Longrightarrow> P w \<Longrightarrow> \<exists>w'. m w = (fst (m' ()), w') \<and> P w'"
  by (simp add: agrees_def)

lemma agrees_ret [agrees_rules]: "agrees P (io_ret a) (io_ret a)"
  by (simp add: agrees_def)

lemma agrees_err [agrees_rules]: "agrees P (io_err e) (io_err e)"
  by (simp add: agrees_def)

lemma agrees_lift [agrees_rules]: "agrees P (io_lift r) (io_lift r)"
  by (simp add: agrees_def)

lemma agrees_if [agrees_rules]:
  "(c \<Longrightarrow> agrees P m1 m1') \<Longrightarrow> (\<not> c \<Longrightarrow> agrees P m2 m2') \<Longrightarrow>
    agrees P (if c then m1 else m2) (if c then m1' else m2')"
  by simp

lemma agrees_bind [agrees_rules]:
  assumes "agrees P m m'" "\<And>a. agrees P (f a) (f' a)"
  shows "agrees P (io_bind m f) (io_bind m' f')"
  unfolding agrees_def
proof (intro allI impI)
  fix w
  assume "P w"
  then obtain w1 where w1: "m w = (fst (m' ()), w1)" "P w1" using assms(1) by (auto simp: agrees_def)
  obtain r where r: "m' () = (r, ())" by (metis prod.exhaust unit.exhaust)
  show "\<exists>w'. io_bind m f w = (fst (io_bind m' f' ()), w') \<and> P w'"
  proof (cases r)
    case (Ok a)
    then have "io_bind m f w = f a w1" "io_bind m' f' () = f' a ()"
      using w1(1) r by (simp_all add: io_bind_def)
    then show ?thesis using agreesD [OF assms(2) w1(2)] by simp
  qed (use w1 r in \<open>auto simp: io_bind_def\<close>)
qed

lemma agrees_prod [agrees_rules]:
  "(\<And>a b. agrees P (f a b) (f' a b)) \<Longrightarrow>
    agrees P (case x of (a, b) \<Rightarrow> f a b) (case x of (a, b) \<Rightarrow> f' a b)"
  by (cases x) simp

lemma agrees_map_err [agrees_rules]:
  assumes "agrees P m m'"
  shows "agrees P (io_map_err g m) (io_map_err g m')"
  unfolding agrees_def
proof (intro allI impI)
  fix w
  assume "P w"
  then obtain w1 where w1: "m w = (fst (m' ()), w1)" "P w1" using assms by (auto simp: agrees_def)
  obtain r where "m' () = (r, ())" by (metis prod.exhaust unit.exhaust)
  then show "\<exists>w'. io_map_err g m w = (fst (io_map_err g m' ()), w') \<and> P w'"
    using w1 by (simp add: io_map_err_def)
qed

lemma field_le_bound: "field_le e at n < 256 ^ n"
proof -
  have "le_nat (subrange e at (at + n)) < 256 ^ length (subrange e at (at + n))" by (rule le_nat_bound)
  also have "\<dots> \<le> 256 ^ n" by (intro power_increasing) (auto simp: length_subrange)
  finally show ?thesis by (simp add: field_le_def)
qed

lemma gpt_table_small:
  assumes "n \<le> 1024" "e < 2 ^ 32" "div_ceil64 (n * e) SECTOR = Ok k"
  shows "k * SECTOR < 2 ^ 43"
proof -
  have "n * e \<le> 1024 * 2 ^ 32" using assms(1,2) by (intro mult_le_mono) auto
  then have "(n * e) div 512 \<le> (1024 * 2 ^ 32) div 512" by (rule div_le_mono)
  then show ?thesis using assms(3) by (auto simp: div_ceil64_def split: if_splits)
qed

context reliable_driver
begin

abbreviation ref :: "unit driver" where
  "ref \<equiv> pure_driver sz disk"

lemma agrees_read: "n < lim \<Longrightarrow> agrees inv (dr_read d off n) (dr_read ref off n)"
  unfolding agrees_def
proof (intro allI impI)
  fix w
  assume n: "n < lim" and w: "inv w"
  obtain w' where "dr_read d off n w = (Ok (window disk off n), w')" "inv w'" by (rule read_window [OF w n])
  then show "\<exists>w'. dr_read d off n w = (fst (dr_read ref off n ()), w') \<and> inv w'"
    by (simp add: pure_driver_def)
qed

lemma agrees_cancel [agrees_rules]: "agrees inv (check_cancel d) (check_cancel ref)"
  unfolding agrees_def
proof (intro allI impI)
  fix w
  assume w: "inv w"
  obtain c w' where c: "dr_cancelled d w = (c, w')" by fastforce
  then have "\<not> c" "inv w'" using not_cancelled [OF w] cancel_law [OF w] by auto
  then show "\<exists>w'. check_cancel d w = (fst (check_cancel ref ()), w') \<and> inv w'"
    using c by (simp add: check_cancel_def pure_driver_def)
qed

lemma agrees_blocks:
  assumes "count * bs < lim" "count * bs < 2 ^ 64"
  shows "agrees inv (read_blocks oc d bs index count) (read_blocks oc ref bs index count)"
proof -
  have "agrees inv (case x of (off, n) \<Rightarrow> io_map_err other_io (dr_read d off n))
      (case x of (off, n) \<Rightarrow> io_map_err other_io (dr_read ref off n))" if "snd x < lim" for x
    using that by (cases x) (auto intro!: agrees_map_err agrees_read)
  then show ?thesis using assms unfolding read_blocks_def
    by (cases "alloc_zeroed (count * bs) :: (io_error, bytes) res";
        cases "mul64 oc index bs :: (io_error, nat) res")
       (auto simp: agrees_def io_bind_def)
qed

lemma agrees_sector [agrees_rules]:
  "agrees inv (read_blocks oc d SECTOR index 1) (read_blocks oc ref SECTOR index 1)"
  "agrees inv (read_blocks oc d SECTOR index 2) (read_blocks oc ref SECTOR index 2)"
  by (rule agrees_blocks; use lim_ok in simp)+

lemma agrees_linux_fs [agrees_rules]:
  "agrees inv (identify_linux_fs oc d start) (identify_linux_fs oc ref start)"
  unfolding identify_linux_fs_def by (intro agrees_rules)

lemma agrees_extended [agrees_rules]:
  "agrees inv (read_extended_chain oc d lba out) (read_extended_chain oc ref lba out)"
proof -
  have "agrees inv (extended_rounds k oc d lba ebr out) (extended_rounds k oc ref lba ebr out)" for k ebr
  proof (induction k arbitrary: ebr out)
    case (Suc k)
    show ?case unfolding extended_rounds.simps Let_def by (intro agrees_rules Suc)
  qed (simp add: agrees_ret)
  then show ?thesis by (simp add: read_extended_chain_def)
qed

lemma agrees_mbr [agrees_rules]: "agrees inv (read_mbr oc d mbr) (read_mbr oc ref mbr)"
proof -
  have "agrees inv (mbr_entry oc d e out) (mbr_entry oc ref e out)" for e out
    unfolding mbr_entry_def Let_def by (intro agrees_rules)
  then show ?thesis unfolding read_mbr_def by (intro agrees_rules)
qed

lemma agrees_gpt:
  assumes "2 ^ 43 \<le> lim"
  shows "agrees inv (read_gpt oc d hdr) (read_gpt oc ref hdr)"
proof -
  let ?n = "field_le hdr 80 4" and ?e = "field_le hdr 84 4"
  have e: "?e < 2 ^ 32" using field_le_bound [of hdr 84 4] by simp
  have "agrees inv (io_bind (io_lift (div_ceil64 (?n * ?e) SECTOR)) (\<lambda>k.
        io_bind (read_blocks oc d SECTOR lba k) (\<lambda>table. io_lift (g table))))
      (io_bind (io_lift (div_ceil64 (?n * ?e) SECTOR)) (\<lambda>k.
        io_bind (read_blocks oc ref SECTOR lba k) (\<lambda>table. io_lift (g table))))" if "?n \<le> 1024" for lba and g :: "bytes \<Rightarrow> (io_error, 'z) res"
  proof -
    obtain k where dc: "div_ceil64 (?n * ?e) SECTOR = (Ok k :: (io_error, nat) res)" by (simp add: div_ceil64_def)
    have "k * SECTOR < 2 ^ 43" by (rule gpt_table_small [OF that e dc])
    then have "agrees inv (read_blocks oc d SECTOR lba k) (read_blocks oc ref SECTOR lba k)"
      using assms by (intro agrees_blocks) auto
    then show ?thesis using agrees_bind [OF _ agrees_lift] dc by (simp add: agrees_def io_bind_def)
  qed
  then show ?thesis unfolding read_gpt_def Let_def by (auto intro!: agrees_if agrees_err)
qed

lemma agrees_single:
  "agrees inv (\<lambda>w. (Ok (a, [single_partition d mbr w]), w)) (\<lambda>w. (Ok (a, [single_partition ref mbr w]), w))"
  by (auto simp: agrees_def single_partition_def size_law pure_driver_def)

lemma agrees_table:
  assumes "2 ^ 43 \<le> lim"
  shows "agrees inv (read_table oc d hdr) (read_table oc ref hdr)"
proof -
  have "agrees inv (\<lambda>w. if c then (Ok (NoScheme, [single_partition d mbr w]), w) else (Ok (Mbr, ps), w))
      (\<lambda>w. if c then (Ok (NoScheme, [single_partition ref mbr w]), w) else (Ok (Mbr, ps), w))" for c mbr ps
    using agrees_single [of NoScheme mbr] agrees_ret [of inv "(Mbr, ps)"] by (cases c) (simp_all add: io_ret_def)
  then show ?thesis unfolding read_table_def Let_def
    by (intro agrees_rules agrees_gpt [OF assms] agrees_single)
qed

lemma agrees_detect_fs [agrees_rules]: "agrees inv (detect_fs oc d p) (detect_fs oc ref p)"
  unfolding detect_fs_def Let_def by (intro agrees_rules)

lemma agrees_detect_all:
  assumes tick: "\<And>w. inv w \<Longrightarrow> inv (tick w)"
  shows "agrees inv (detect_all oc d tick ps) (detect_all oc ref (\<lambda>u. u) ps)"
proof (induction ps)
  case (Cons p ps)
  have step: "agrees inv (\<lambda>w. m (tick w)) m'" if "agrees inv m m'" for m :: "('a, io_error, 'z) io" and m'
    using that tick by (auto simp: agrees_def)
  show ?case unfolding detect_all.simps
    by (intro agrees_rules step) (rule Cons)
next
  case Nil
  show ?case unfolding detect_all.simps by (rule agrees_ret)
qed

lemma detect_agrees:
  assumes "2 ^ 43 \<le> lim" and "\<And>w. inv w \<Longrightarrow> inv (tick w)"
  shows "agrees inv (detect_with_progress oc d tick) (detect_with_progress oc ref (\<lambda>u. u))"
  unfolding detect_with_progress_def
  by (intro agrees_rules agrees_table [OF assms(1)] agrees_detect_all [OF assms(2)])

end

section \<open>The shape of the result\<close>

definition indexed :: "partition list \<Rightarrow> bool" where
  "indexed ps \<longleftrightarrow> (\<forall>i < length ps. pt_index (ps ! i) = i \<and> pt_start (ps ! i) mod SECTOR = 0)"

lemma indexed_Nil [simp]: "indexed []"
  by (simp add: indexed_def)

lemma indexed_snoc: "indexed ps \<Longrightarrow> pt_index p = length ps \<Longrightarrow> pt_start p mod SECTOR = 0 \<Longrightarrow> indexed (ps @ [p])"
  by (auto simp: indexed_def nth_append)

lemma indexed_table_entry [simp]: "indexed ps \<Longrightarrow> indexed (ps @ [table_entry (length ps) k st n])"
  by (rule indexed_snoc) (auto simp: table_entry_def)

lemma extended_rounds_shape:
  "extended_rounds k oc d lba ebr out w = (Ok ps, w') \<Longrightarrow> indexed out \<Longrightarrow>
    indexed ps \<and> length ps \<le> length out + k"
proof (induction k arbitrary: ebr out w)
  case (Suc k)
  from Suc(2) obtain b w1 where "read_blocks oc d SECTOR ebr 1 w = (Ok b, w1)"
    by (auto simp: res_simps)
  with Suc(2,3) show ?case
    by (auto simp: Let_def dest!: Suc(1) split: if_splits)
qed simp

lemma mbr_entry_shape:
  "mbr_entry oc d e out w = (Ok ps, w') \<Longrightarrow> indexed out \<Longrightarrow> indexed ps \<and> length ps \<le> length out + 64"
  using extended_rounds_shape [of 64 oc d "field_le e 8 4" "field_le e 8 4" out w ps w']
  by (auto simp: mbr_entry_def Let_def read_extended_chain_def split: if_splits)

lemma read_mbr_shape: "read_mbr oc d mbr w = (Ok ps, w') \<Longrightarrow> indexed ps \<and> length ps \<le> 256"
  by (auto simp: read_mbr_def res_simps dest!: mbr_entry_shape)

lemma gpt_entry_shape:
  assumes "gpt_entry oc e out = Ok ps" "indexed out"
  shows "indexed ps \<and> length ps \<le> length out + 1"
proof (cases "ps = out")
  case False
  let ?p = "last ps"
  have p: "ps = out @ [?p]" "pt_index ?p = length out"
      "mul64 oc (field_le e 32 8) SECTOR = (Ok (pt_start ?p) :: (io_error, nat) res)"
    using assms(1) False by (auto simp: gpt_entry_def Let_def res_simps split: if_splits)
  have "pt_start ?p mod SECTOR = 0" using mul64_mod [OF p(3)] by (simp add: mod_mod_cancel)
  then show ?thesis using p(1,2) assms(2) indexed_snoc [of out ?p] by (metis add.commute le_refl length_append_singleton plus_1_eq_Suc)
qed (use assms in simp)

lemma gpt_entries_shape:
  "gpt_entries k oc table es i out = Ok ps \<Longrightarrow> indexed out \<Longrightarrow> indexed ps \<and> length ps \<le> length out + k"
proof (induction k arbitrary: i out)
  case (Suc k)
  from Suc(2,3) show ?case
    by (fastforce simp: Let_def res_simps dest!: Suc(1) gpt_entry_shape split: if_splits)
qed simp

lemma read_table_shape:
  assumes "read_table oc d hdr w = (Ok (sch, ps), w')"
  shows "indexed ps \<and> length ps \<le> 1024"
proof -
  have single: "indexed [single_partition d m u]" for m u
    by (simp add: indexed_def single_partition_def)
  show ?thesis using assms
    by (auto simp: read_table_def Let_def res_simps single read_gpt_def
        dest!: read_mbr_shape gpt_entries_shape split: if_splits)
qed

lemma detect_fs_place:
  "detect_fs oc d p w = (Ok p', w') \<Longrightarrow> \<exists>fs. p' = p\<lparr>pt_file_system := fs\<rparr>"
  by (auto simp: detect_fs_def Let_def res_simps split: if_splits) (metis partition.surjective partition.update_convs(5))+

lemma detect_all_place:
  "detect_all oc d tick ps w = (Ok ps', w') \<Longrightarrow>
    map pt_index ps' = map pt_index ps \<and> map pt_start ps' = map pt_start ps"
  by (induction ps arbitrary: w ps' w') (fastforce simp: res_simps dest: detect_fs_place)+

lemma indexed_cong:
  assumes "map pt_index ps' = map pt_index ps" "map pt_start ps' = map pt_start ps"
  shows "indexed ps' = indexed ps"
proof -
  have "length ps' = length ps" using assms(1) by (metis length_map)
  moreover have "i < length ps \<Longrightarrow> pt_index (ps' ! i) = pt_index (ps ! i) \<and> pt_start (ps' ! i) = pt_start (ps ! i)" for i
    using assms calculation by (metis nth_map)
  ultimately show ?thesis by (auto simp: indexed_def)
qed

section \<open>No input makes the release build panic\<close>

definition no_panic :: "('w \<Rightarrow> bool) \<Rightarrow> ('w, 'e, 'a) io \<Rightarrow> bool" where
  "no_panic P m \<longleftrightarrow> (\<forall>w. P w \<longrightarrow> fst (m w) \<noteq> Panic \<and> P (snd (m w)))"

named_theorems no_panic_rules "computations that do not panic"

lemma no_panic_ret [no_panic_rules]: "no_panic P (io_ret a)"
  by (simp add: no_panic_def)

lemma no_panic_err [no_panic_rules]: "no_panic P (io_err e)"
  by (simp add: no_panic_def)

lemma no_panic_lift [no_panic_rules]: "r \<noteq> Panic \<Longrightarrow> no_panic P (io_lift r)"
  by (simp add: no_panic_def)

lemma no_panic_if [no_panic_rules]:
  "(c \<Longrightarrow> no_panic P m1) \<Longrightarrow> (\<not> c \<Longrightarrow> no_panic P m2) \<Longrightarrow> no_panic P (if c then m1 else m2)"
  by simp

lemma no_panic_prod [no_panic_rules]:
  "(\<And>a b. no_panic P (f a b)) \<Longrightarrow> no_panic P (case x of (a, b) \<Rightarrow> f a b)"
  by (cases x) simp

lemma no_panic_bind [no_panic_rules]:
  "no_panic P m \<Longrightarrow> (\<And>a. no_panic P (f a)) \<Longrightarrow> no_panic P (io_bind m f)"
  by (auto simp: no_panic_def io_bind_def split: prod.splits res.splits)

lemma no_panic_bind_lift:
  "r \<noteq> Panic \<Longrightarrow> (\<And>a. r = Ok a \<Longrightarrow> no_panic P (f a)) \<Longrightarrow> no_panic P (io_bind (io_lift r) f)"
  by (cases r) (auto simp: no_panic_def io_bind_def)

lemma no_panic_map_err [no_panic_rules]: "no_panic P m \<Longrightarrow> no_panic P (io_map_err g m)"
  by (auto simp: no_panic_def io_map_err_def res_simps split: prod.splits)

context vm_driver
begin

lemma no_panic_cancel [no_panic_rules]: "no_panic inv (check_cancel d)"
  unfolding no_panic_def check_cancel_def using cancel_law by (auto simp: case_prod_unfold)

lemma no_panic_blocks:
  assumes "count * bs < lim" "count * bs < 2 ^ 63"
  shows "no_panic inv (read_blocks False d bs index count)"
proof -
  have rd: "no_panic inv (dr_read d off n)" if "n < lim" for off n
    unfolding no_panic_def using read_law that by (metis prod.collapse)
  have "mul64 False count bs = (Ok (count * bs) :: (io_error, nat) res)" using assms(2) by (intro mul64_ok) simp
  then have "read_blocks False d bs index count =
      io_map_err other_io (dr_read d (index * bs mod 2 ^ 64) (count * bs))"
    using assms(2) by (simp add: read_blocks_def alloc_zeroed_def mul64_release io_bind_def fun_eq_iff)
  then show ?thesis using assms(1) by (simp add: no_panic_map_err rd)
qed

lemma no_panic_sector [no_panic_rules]:
  "no_panic inv (read_blocks False d SECTOR index 1)" "no_panic inv (read_blocks False d SECTOR index 2)"
  by (rule no_panic_blocks; use lim_ok in simp)+

lemma no_panic_linux_fs [no_panic_rules]: "no_panic inv (identify_linux_fs False d start)"
  unfolding identify_linux_fs_def by (intro no_panic_rules)

lemma no_panic_mbr [no_panic_rules]: "no_panic inv (read_mbr False d mbr)"
proof -
  have "no_panic inv (extended_rounds k False d lba ebr out)" for k lba ebr out
  proof (induction k arbitrary: ebr out)
    case (Suc k)
    show ?case unfolding extended_rounds.simps Let_def by (intro no_panic_rules Suc)
  next
    case 0
    show ?case unfolding extended_rounds.simps by (rule no_panic_ret)
  qed
  then have "no_panic inv (mbr_entry False d e out)" for e out
    unfolding mbr_entry_def Let_def read_extended_chain_def by (intro no_panic_rules)
  then show ?thesis unfolding read_mbr_def by (intro no_panic_rules)
qed

end

lemma gpt_entries_no_panic: "gpt_entries k False table es i out \<noteq> Panic"
proof (induction k arbitrary: i out)
  case (Suc k)
  show ?case
  proof (cases "gpt_entry False (subrange table (i * es) (i * es + 128)) out")
    case Panic
    then show ?thesis by (simp add: gpt_entry_def Let_def mul64_release add64_release split: if_splits)
  qed (use Suc in \<open>simp_all add: Let_def\<close>)
qed simp

context vm_driver
begin

lemma no_panic_detect:
  assumes lim: "2 ^ 43 \<le> lim" and tick: "\<And>w. inv w \<Longrightarrow> inv (tick w)"
  shows "no_panic inv (detect_with_progress False d tick)"
proof -
  have gpt: "no_panic inv (read_gpt False d hdr)" for hdr
  proof -
    have "no_panic inv (read_blocks False d SECTOR lba k)"
      if "div_ceil64 (field_le hdr 80 4 * field_le hdr 84 4) SECTOR = (Ok k :: (io_error, nat) res)"
        "\<not> field_le hdr 80 4 > 1024" for lba k
      using gpt_table_small [OF _ _ that(1)] that(2) field_le_bound [of hdr 84 4] lim
      by (intro no_panic_blocks) auto
    then show ?thesis unfolding read_gpt_def Let_def
      by (intro no_panic_if no_panic_err no_panic_bind_lift no_panic_bind no_panic_lift gpt_entries_no_panic)
         (auto simp: div_ceil64_def)
  qed
  have single: "no_panic inv (\<lambda>w. (Ok (f w), w))" "no_panic inv (\<lambda>w. if c then (Ok (f w), w) else (Ok (g w), w))"
    for c and f g :: "'w \<Rightarrow> table_scheme \<times> partition list"
    by (auto simp: no_panic_def)
  have table: "no_panic inv (read_table False d hdr)" for hdr
    unfolding read_table_def Let_def by (intro no_panic_rules gpt single)
  have fs: "no_panic inv (detect_fs False d p)" for p
    unfolding detect_fs_def Let_def by (intro no_panic_rules)
  have all: "no_panic inv (detect_all False d tick ps)" for ps
  proof (induction ps)
    case (Cons p ps)
    have "no_panic inv (\<lambda>w. m (tick w))" if "no_panic inv m" for m :: "('w, io_error, partition list) io"
      using that tick by (auto simp: no_panic_def)
    then show ?case unfolding detect_all.simps by (intro no_panic_rules fs Cons) (simp add: Cons no_panic_rules)
  next
    case Nil
    show ?case unfolding detect_all.simps by (rule no_panic_ret)
  qed
  show ?thesis unfolding detect_with_progress_def by (intro no_panic_rules table all)
qed

end

section \<open>Encoded tables\<close>

text \<open>The 16 bytes of an MBR slot and the sector of four of them.\<close>

definition mbr_slot_bytes :: "byte \<times> nat \<times> nat \<Rightarrow> bytes" where
  "mbr_slot_bytes = (\<lambda>(kind, start, sectors). replicate 4 0 @ [kind] @ replicate 3 0 @ le_bytes 4 start @ le_bytes 4 sectors)"

definition mbr_bytes :: "bytes \<Rightarrow> (byte \<times> nat \<times> nat) list \<Rightarrow> bytes" where
  "mbr_bytes boot slots = boot @ concat (map mbr_slot_bytes slots) @ [0x55, 0xAA]"

definition used_slots :: "(byte \<times> nat \<times> nat) list \<Rightarrow> (byte \<times> nat \<times> nat) list" where
  "used_slots = filter (\<lambda>(kind, start, sectors). kind \<noteq> 0 \<and> sectors \<noteq> 0)"

definition slot_partitions :: "(byte \<times> nat \<times> nat) list \<Rightarrow> partition list" where
  "slot_partitions slots = map (\<lambda>(i, kind, start, sectors). table_entry i kind start sectors) (enumerate 0 slots)"

definition primary_slot :: "byte \<times> nat \<times> nat \<Rightarrow> bool" where
  "primary_slot = (\<lambda>(kind, start, sectors). kind \<notin> {0x05, 0x0F, 0x85} \<and> start < 2 ^ 32 \<and> sectors < 2 ^ 32)"

lemma length_mbr_slot_bytes [simp]: "length (mbr_slot_bytes s) = 16"
  by (simp add: mbr_slot_bytes_def split: prod.splits)

lemma enumerate_append: "enumerate n (xs @ [x]) = enumerate n xs @ [(n + length xs, x)]"
  by (simp add: enumerate_append_eq)

lemma mbr_entry_primary:
  assumes "primary_slot s"
  shows "mbr_entry oc d (mbr_slot_bytes s) (slot_partitions us) = io_ret (slot_partitions (us @ used_slots [s]))"
proof -
  obtain k st n where s: "s = (k, st, n)" by (metis prod.exhaust)
  let ?e = "mbr_slot_bytes s"
  have f: "?e ! 4 = k" "field_le ?e 8 4 = st" "field_le ?e 12 4 = n"
    using assms s by (simp_all add: mbr_slot_bytes_def field_le_def subrange_def primary_slot_def le_nat_le_bytes nth_append)
  have "length (slot_partitions us) = length us" by (simp add: slot_partitions_def)
  then show ?thesis using assms s f
    by (auto simp: mbr_entry_def Let_def primary_slot_def used_slots_def slot_partitions_def enumerate_append_eq)
qed

lemma read_mbr_primary:
  assumes "length boot = 446" "length slots = 4" "list_all primary_slot slots"
  shows "read_mbr oc d (mbr_bytes boot slots) w = (Ok (slot_partitions (used_slots slots)), w)"
proof -
  obtain a b c e where sl: "slots = [a, b, c, e]"
    using assms(2) by (auto simp: numeral_eq_Suc length_Suc_conv)
  let ?m = "mbr_bytes boot slots"
  have slot: "mbr_slot ?m 0 = mbr_slot_bytes a" "mbr_slot ?m 1 = mbr_slot_bytes b"
      "mbr_slot ?m 2 = mbr_slot_bytes c" "mbr_slot ?m 3 = mbr_slot_bytes e"
    using assms(1) sl by (simp_all add: mbr_slot_def subrange_def mbr_bytes_def)
  have "used_slots slots = ((used_slots [a] @ used_slots [b]) @ used_slots [c]) @ used_slots [e]"
    unfolding sl used_slots_def by simp
  then show ?thesis using assms(3) sl slot mbr_entry_primary [of _ oc d "[]"]
    by (simp add: read_mbr_def mbr_entry_primary slot_partitions_def [of "[]"] io_bind_def)
qed

text \<open>The 128 bytes of a GPT entry.\<close>

definition gpt_entry_bytes :: "bytes \<Rightarrow> bytes \<Rightarrow> nat \<Rightarrow> nat \<Rightarrow> nat \<Rightarrow> bytes \<Rightarrow> bytes" where
  "gpt_entry_bytes kind unique first_lba last_lba attrs name =
     kind @ unique @ le_bytes 8 first_lba @ le_bytes 8 last_lba @ le_bytes 8 attrs @ name"

lemma field_le_nth:
  assumes "field_le g a n = field_le h a n" "a + n \<le> length g" "a + n \<le> length h" "a \<le> i" "i < a + n"
  shows "g ! i = h ! i"
proof -
  have "subrange g a (a + n) = subrange h a (a + n)"
    using assms(1-3) le_nat_inj [of "subrange g a (a + n)" "subrange h a (a + n)"]
    by (simp add: field_le_def length_subrange)
  then have "subrange g a (a + n) ! (i - a) = subrange h a (a + n) ! (i - a)" by simp
  then show ?thesis using assms(2-5) by (simp add: subrange_def)
qed

lemma hex_byte_inj: "hex_fixed 2 (unat (a :: byte)) = hex_fixed 2 (unat b) \<longleftrightarrow> a = b"
  using hex_fixed_inj [of "unat a" 2 "unat b"] unat_byte_less [of a] unat_byte_less [of b]
  by (auto intro: unsigned_word_eqI)

lemma hex_field_inj:
  assumes "hex_fixed (2 * n) (field_le g a n) = hex_fixed (2 * n) (field_le h a n)"
  shows "field_le g a n = field_le h a n"
proof -
  have "(256 :: nat) ^ n = 16 ^ (2 * n)" by (simp add: power_mult)
  then show ?thesis using assms field_le_bound [of g a n] field_le_bound [of h a n] hex_fixed_inj by metis
qed

text \<open>A disk of zeroes.\<close>

lemma ones_not_zero [simp]: "0 < n \<Longrightarrow> \<not> list_all (\<lambda>b. b = 0) (replicate n (1 :: byte))"
  by (simp add: list_all_iff)

lemma zero_cancel [simp]: "check_cancel (pure_driver sz disk) () = (Ok (), ())"
  by (simp add: check_cancel_def pure_driver_def)

lemma zero_blocks [simp]:
  "i * SECTOR < 2 ^ 64 \<Longrightarrow> c * SECTOR < 2 ^ 63 \<Longrightarrow>
    read_blocks oc (pure_driver sz (\<lambda>_. 0)) SECTOR i c () = (Ok (replicate (c * SECTOR) 0), ())"
  by (simp add: read_blocks_def io_bind_def alloc_zeroed_def io_map_err_def pure_driver_def window_zero)

lemma zeroes_eq_Cons: "replicate n (0 :: byte) = x # xs \<Longrightarrow> x = 0"
  by (cases n) auto

lemma zeroes_no_magic: "x \<noteq> 0 \<Longrightarrow> replicate n (0 :: byte) \<noteq> x # xs"
  using zeroes_eq_Cons by blast

lemma zero_fs: "identify_fs (replicate 512 0) = FsUnknown"
  by (simp add: identify_fs_def subrange_def ascii_bytes_def zeroes_no_magic)

lemma zero_linux_fs: "identify_linux_fs oc (pure_driver sz (\<lambda>_. 0)) 0 () = (Ok FsUnknown, ())"
proof -
  have "read_blocks oc (pure_driver sz (\<lambda>_. 0)) SECTOR 2 2 () = (Ok (replicate 1024 0), ())"
    "read_blocks oc (pure_driver sz (\<lambda>_. 0)) SECTOR 128 1 () = (Ok (replicate 512 0), ())"
    "read_blocks oc (pure_driver sz (\<lambda>_. 0)) SECTOR 7 1 () = (Ok (replicate 512 0), ())"
    using zero_blocks [of 2 2 oc sz] zero_blocks [of 128 1 oc sz] zero_blocks [of 7 1 oc sz] by simp_all
  then show ?thesis unfolding identify_linux_fs_def io_bind_def
    by (simp add: subrange_def ascii_bytes_def zeroes_no_magic
      del: SECTOR_val zero_blocks One_nat_def add_2_eq_Suc add_2_eq_Suc')
qed

lemma zero_table:
  "read_table oc (pure_driver sz (\<lambda>_. 0)) (replicate 1024 0) () =
    (Ok (NoScheme, [single_partition (pure_driver sz (\<lambda>_. 0)) (replicate 512 0) ()]), ())"
  by (simp add: read_table_def Let_def subrange_def ascii_bytes_def zeroes_no_magic)

lemma zero_detect:
  "detect_with_progress oc (pure_driver sz (\<lambda>_. 0)) (\<lambda>u. u) () =
    (Ok \<lparr>dd_scheme = NoScheme, dd_partitions = [\<lparr>pt_index = 0, pt_start = 0, pt_size = sz,
        pt_kind = ''Volume without a partition table'', pt_file_system = FsUnknown, pt_label = None\<rparr>],
      dd_operating_system = OsUnknown\<rparr>, ())"
proof -
  let ?d = "pure_driver sz (\<lambda>_. 0)"
  let ?p = "\<lparr>pt_index = 0, pt_start = 0, pt_size = sz, pt_kind = ''Volume without a partition table'',
    pt_file_system = FsUnknown, pt_label = None\<rparr>"
  have single: "single_partition ?d (replicate 512 0) () = ?p"
    by (simp add: single_partition_def zero_fs pure_driver_def [of sz])
  have b: "read_blocks oc ?d SECTOR 0 2 () = (Ok (replicate 1024 0), ())"
      "read_blocks oc ?d SECTOR 0 1 () = (Ok (replicate 512 0), ())"
    using zero_blocks [of 0 2 oc sz] zero_blocks [of 0 1 oc sz] by simp_all
  have fs: "detect_fs oc ?d ?p () = (Ok ?p, ())"
    using b(2) zero_linux_fs [of oc sz] by (simp add: detect_fs_def Let_def zero_fs io_bind_def del: SECTOR_val)
  show ?thesis using b(1) zero_table [of oc sz] fs
    by (simp add: detect_with_progress_def io_bind_def single classify_os_def del: SECTOR_val)
qed

section \<open>Properties\<close>





text \<open>C39. Every list of partitions detection returns, over any driver, is numbered consecutively from
  zero and has at most 1024 of them; the guest family is the one its file systems imply.\<close>

theorem detected_partitions_wf:
  assumes "detect_with_progress oc d tick w = (Ok dd, w')"
  shows "indexed (dd_partitions dd) \<and> length (dd_partitions dd) \<le> 1024 \<and>
    dd_operating_system dd = classify_os (dd_partitions dd)"
proof -
  from assms obtain hdr w1 sch ps w2 w3 ps' w4 where t: "read_table oc d hdr w1 = (Ok (sch, ps), w2)"
      and all: "detect_all oc d tick ps w3 = (Ok ps', w4)"
      and dd: "dd = \<lparr>dd_scheme = sch, dd_partitions = ps', dd_operating_system = classify_os ps'\<rparr>"
    by (auto simp: detect_with_progress_def res_simps split: if_splits)
  have m: "map pt_index ps' = map pt_index ps" "map pt_start ps' = map pt_start ps"
    using detect_all_place [OF all] by auto
  then have "length ps' = length ps" by (metis length_map)
  then show ?thesis using read_table_shape [OF t] indexed_cong [OF m] dd by simp
qed

theorem detected_partitions_wf_witness:
  "\<exists>dd. detect_with_progress True (pure_driver 5 (\<lambda>_. 0)) (\<lambda>u. u) () = (Ok dd, ()) \<and> indexed (dd_partitions dd)"
proof -
  have "\<exists>dd. detect_with_progress True (pure_driver 5 (\<lambda>_. 0)) (\<lambda>u. u) () = (Ok dd, ())"
    using zero_detect by blast
  then obtain dd where "detect_with_progress True (pure_driver 5 (\<lambda>_. 0)) (\<lambda>u. u) () = (Ok dd, ())" by blast
  with detected_partitions_wf [OF this] show ?thesis by blast
qed

text \<open>Parsing an MBR of four primary slots returns exactly the used slots, in order, numbered from
  zero, with their positions and sizes in bytes, and reads nothing else.\<close>

theorem read_mbr_roundtrip:
  assumes "length boot = 446" and "length slots = 4" and "list_all primary_slot slots"
  shows "read_mbr oc d (mbr_bytes boot slots) w = (Ok (slot_partitions (used_slots slots)), w)"
  by (rule read_mbr_primary [OF assms])

theorem read_mbr_roundtrip_witness:
  "read_mbr True (pure_driver 0 (\<lambda>_. 0)) (mbr_bytes (replicate 446 0) [(7, 2048, 100), (0, 0, 0), (0x83, 2148, 50), (0, 0, 0)]) () =
    (Ok (slot_partitions [(7, 2048, 100), (0x83, 2148, 50)]), ())"
  using read_mbr_roundtrip [of "replicate 446 0" "[(7, 2048, 100), (0, 0, 0), (0x83, 2148, 50), (0, 0, 0)]" True
      "pure_driver 0 (\<lambda>_. 0)" "()"]
  by (simp add: primary_slot_def used_slots_def)

text \<open>The textual form of a GUID determines it, so no two partition types share a name by accident
  of formatting.\<close>

theorem guid_to_text_injective:
  assumes "length g = 16" and "length h = 16" and "guid_to_text g = guid_to_text h"
  shows "g = h"
proof (rule nth_equalityI)
  show "length g = length h" using assms by simp
  fix i
  assume "i < length g"
  then have "i < 4 \<or> 4 \<le> i \<and> i < 6 \<or> 6 \<le> i \<and> i < 8 \<or> i \<in> {8, 9, 10, 11, 12, 13, 14, 15}"
    using assms(1) by auto
  moreover have "field_le g 0 4 = field_le h 0 4" "field_le g 4 2 = field_le h 4 2" "field_le g 6 2 = field_le h 6 2"
    using assms(3) hex_field_inj [of 4 g 0 h] hex_field_inj [of 2 g 4 h] hex_field_inj [of 2 g 6 h]
    by (auto simp: guid_to_text_def)
  moreover have "\<And>i. i \<in> {8, 9, 10, 11, 12, 13, 14, 15} \<Longrightarrow> g ! i = h ! i"
    using assms(3) by (auto simp: guid_to_text_def hex_byte_inj)
  ultimately show "g ! i = h ! i"
    using field_le_nth [of g 0 4 h i] field_le_nth [of g 4 2 h i] field_le_nth [of g 6 2 h i] assms(1,2) by auto
qed

theorem guid_to_text_injective_witness: "replicate 16 1 = (1 :: byte) # replicate 15 1"
  by (rule guid_to_text_injective, simp, simp, code_simp)

text \<open>A GPT entry is parsed to its partition when its range fits in 64 bits of bytes: type, start,
  size and label are those encoded.\<close>

theorem gpt_entry_roundtrip:
  assumes "length kind = 16" and "length unique = 16" and "length name = 72" and "\<not> list_all (\<lambda>b. b = 0) kind"
    and "first_lba \<le> last_lba" and "(last_lba + 1) * SECTOR < 2 ^ 64"
  shows "gpt_entry oc (gpt_entry_bytes kind unique first_lba last_lba attrs name) out =
    Ok (out @ [\<lparr>pt_index = length out, pt_start = first_lba * SECTOR, pt_size = (last_lba - first_lba + 1) * SECTOR,
      pt_kind = gpt_type_name kind, pt_file_system = FsUnknown,
      pt_label = gpt_label (gpt_entry_bytes kind unique first_lba last_lba attrs name)\<rparr>])"
proof -
  let ?e = "gpt_entry_bytes kind unique first_lba last_lba attrs name"
  have "field_le ?e 32 8 = first_lba" "field_le ?e 40 8 = last_lba" "subrange ?e 0 16 = kind"
    using assms by (simp_all add: field_le_def subrange_def gpt_entry_bytes_def le_nat_le_bytes)
  moreover have "first_lba * SECTOR < 2 ^ 64" "(last_lba - first_lba + 1) * SECTOR < 2 ^ 64" "last_lba - first_lba + 1 < 2 ^ 64"
    using assms(5,6) by simp_all
  ultimately show ?thesis using assms(4,5) by (simp add: gpt_entry_def Let_def del: SECTOR_val)
qed

theorem gpt_entry_roundtrip_witness:
  "gpt_entry True (gpt_entry_bytes (replicate 16 1) (replicate 16 2) 34 2047 0 (replicate 72 0)) [] =
    Ok [\<lparr>pt_index = 0, pt_start = 17408, pt_size = 1031168, pt_kind = gpt_type_name (replicate 16 1),
      pt_file_system = FsUnknown,
      pt_label = gpt_label (gpt_entry_bytes (replicate 16 1) (replicate 16 2) 34 2047 0 (replicate 72 0))\<rparr>]"
  by (subst gpt_entry_roundtrip) simp_all

text \<open>An entry whose first sector is \<open>2 ^ 55\<close> makes the checked build panic; the release build
  wraps the product and reports a partition that starts at byte zero of the disk.\<close>

theorem gpt_entry_overflow:
  assumes "length kind = 16" and "length unique = 16" and "length name = 72" and "\<not> list_all (\<lambda>b. b = 0) kind"
  shows "gpt_entry True (gpt_entry_bytes kind unique (2 ^ 55) (2 ^ 55) attrs name) out = Panic \<and>
    (\<exists>p. gpt_entry False (gpt_entry_bytes kind unique (2 ^ 55) (2 ^ 55) attrs name) out = Ok (out @ [p]) \<and> pt_start p = 0)"
proof -
  let ?e = "gpt_entry_bytes kind unique (2 ^ 55) (2 ^ 55) attrs name"
  have "field_le ?e 32 8 = 2 ^ 55" "field_le ?e 40 8 = 2 ^ 55" "subrange ?e 0 16 = kind"
    using assms by (simp_all add: field_le_def subrange_def gpt_entry_bytes_def le_nat_le_bytes)
  then show ?thesis using assms(4) by (simp add: gpt_entry_def Let_def mul64_def)
qed

theorem gpt_entry_overflow_witness:
  "gpt_entry True (gpt_entry_bytes (replicate 16 1) (replicate 16 2) (2 ^ 55) (2 ^ 55) 0 (replicate 72 0)) [] = Panic"
  by (rule conjunct1 [OF gpt_entry_overflow]) simp_all

text \<open>The check for a disk too small for a boot sector never fires: a driver fills what the disk
  does not have with zeroes, so even an empty disk is reported as one volume of its size with no
  known file system.\<close>

theorem tiny_disk_is_a_volume:
  "detect_with_progress oc (pure_driver sz (\<lambda>_. 0)) (\<lambda>u. u) () =
    (Ok \<lparr>dd_scheme = NoScheme, dd_partitions = [\<lparr>pt_index = 0, pt_start = 0, pt_size = sz,
        pt_kind = ''Volume without a partition table'', pt_file_system = FsUnknown, pt_label = None\<rparr>],
      dd_operating_system = OsUnknown\<rparr>, ())"
  by (rule zero_detect)

end
