(* ===== verification/Disk_Program.thy ===== *)
theory Disk_Program
  imports Detector
begin

text \<open>
  How the file-system crates see a disk.  The crates \<^verbatim>\<open>ext4\<close> and \<^verbatim>\<open>ntfs\<close> are given a
  \<^verbatim>\<open>VirtualDisk\<close> and reach it only through \<^verbatim>\<open>Read\<close>, \<^verbatim>\<open>Seek\<close> and \<^verbatim>\<open>ReadAt\<close>.  A call of
  such a crate is therefore a program over these three operations, which goes on with what each of them
  returned and ends with a result; a panic of the disk unwinds through it.  The crates' functions are
  parameters of the guest parsers with values of this type.

  The laws show that such a program, whatever it does, cannot tell one reliable driver from another
  or one chunk size from another: it returns what it returns over the plain bytes of the disk.
\<close>

section \<open>Programs\<close>

datatype ('e, 'a) disk_prog =
    Return "('e, 'a) res"
  | ReadAt nat bytes "io_error + nat \<times> bytes \<Rightarrow> ('e, 'a) disk_prog"
  | ReadNext bytes "io_error + nat \<times> bytes \<Rightarrow> ('e, 'a) disk_prog"
  | SeekTo seek_from "io_error + nat \<Rightarrow> ('e, 'a) disk_prog"

text \<open>Going on with what an operation returned; a panic is passed on.\<close>

definition resume :: "('w, 'e, 'a) io \<Rightarrow> ('e + 'a \<Rightarrow> ('w, 'f, 'b) io) \<Rightarrow> ('w, 'f, 'b) io" where
  "resume m k = (\<lambda>w. case m w of
       (Ok a, w') \<Rightarrow> k (Inr a) w'
     | (Err e, w') \<Rightarrow> k (Inl e) w'
     | (Panic, w') \<Rightarrow> (Panic, w'))"

definition on_view :: "(vdisk, 'e, 'a) io \<Rightarrow> (vdisk \<times> 'w, 'e, 'a) io" where
  "on_view m = (\<lambda>(v, w). case m v of (r, v') \<Rightarrow> (r, (v', w)))"

primrec run_prog :: "bool \<Rightarrow> 'w driver \<Rightarrow> ('e, 'a) disk_prog \<Rightarrow> (vdisk \<times> 'w, 'e, 'a) io" where
  "run_prog oc d (Return r) = io_lift r"
| "run_prog oc d (ReadAt pos buf k) = resume (read_with_cache oc d pos buf) (\<lambda>x. run_prog oc d (k x))"
| "run_prog oc d (ReadNext buf k) = resume (vdisk_read oc d buf) (\<lambda>x. run_prog oc d (k x))"
| "run_prog oc d (SeekTo s k) = resume (on_view (vdisk_seek s)) (\<lambda>x. run_prog oc d (k x))"

text \<open>A \<open>match\<close> on the result of a computation: its error is a value, a panic still unwinds.\<close>

definition io_try :: "('w, 'e, 'a) io \<Rightarrow> ('w, 'f, 'e + 'a) io" where
  "io_try m = resume m io_ret"

text \<open>A computation on a view made by \<^verbatim>\<open>VirtualDisk::new\<close> and dropped at the end.\<close>

definition with_view :: "bool \<Rightarrow> nat \<Rightarrow> nat \<Rightarrow> nat \<Rightarrow> (vdisk \<times> 'w, 'e, 'a) io \<Rightarrow> ('w, 'e, 'a) io" where
  "with_view oc base len chunk m w = (case vdisk_new oc base len chunk of
       Ok v \<Rightarrow> (case m (v, w) of (r, (v', w')) \<Rightarrow> (r, w'))
     | Err e \<Rightarrow> (Err e, w)
     | Panic \<Rightarrow> (Panic, w))"

text \<open>The cancellation flag, loaded through the driver's world.\<close>

definition load_cancel :: "'w driver \<Rightarrow> ('w, 'e, bool) io" where
  "load_cancel d w = (case dr_cancelled d w of (c, w') \<Rightarrow> (Ok c, w'))"

definition on_world :: "('w, 'e, 'a) io \<Rightarrow> (vdisk \<times> 'w, 'e, 'a) io" where
  "on_world m = (\<lambda>(v, w). case m w of (r, w') \<Rightarrow> (r, (v, w')))"

section \<open>Computations that cannot be told apart\<close>

definition similar :: "('s \<Rightarrow> 't \<Rightarrow> bool) \<Rightarrow> ('s, 'e, 'a) io \<Rightarrow> ('t, 'e, 'a) io \<Rightarrow> bool" where
  "similar R m m' \<longleftrightarrow> (\<forall>s t. R s t \<longrightarrow> (\<exists>r s' t'. m s = (r, s') \<and> m' t = (r, t') \<and> R s' t'))"

named_theorems similar_rules "computations that cannot be told apart"

lemma similarI: "(\<And>s t. R s t \<Longrightarrow> \<exists>r s' t'. m s = (r, s') \<and> m' t = (r, t') \<and> R s' t') \<Longrightarrow> similar R m m'"
  by (simp add: similar_def)

lemma similarE:
  assumes "similar R m m'" "R s t"
  obtains r s' t' where "m s = (r, s')" "m' t = (r, t')" "R s' t'"
  using assms unfolding similar_def by blast

lemma similar_ret [similar_rules]: "similar R (io_ret a) (io_ret a)"
  by (simp add: similar_def)

lemma similar_err [similar_rules]: "similar R (io_err e) (io_err e)"
  by (simp add: similar_def)

lemma similar_lift [similar_rules]: "similar R (io_lift r) (io_lift r)"
  by (simp add: similar_def)

lemma similar_Pair [similar_rules]: "similar R (Pair r) (Pair r)"
  by (simp add: similar_def)

lemma similar_resume [similar_rules]:
  assumes "similar R m m'" "\<And>x. similar R (k x) (k' x)"
  shows "similar R (resume m k) (resume m' k')"
proof (rule similarI)
  fix s t
  assume "R s t"
  with assms(1) obtain r s1 t1 where m: "m s = (r, s1)" "m' t = (r, t1)" "R s1 t1" by (rule similarE)
  show "\<exists>r s' t'. resume m k s = (r, s') \<and> resume m' k' t = (r, t') \<and> R s' t'"
  proof (cases r)
    case (Ok a)
    then show ?thesis using m assms(2) [of "Inr a"] by (auto simp: resume_def similar_def)
  next
    case (Err e)
    then show ?thesis using m assms(2) [of "Inl e"] by (auto simp: resume_def similar_def)
  qed (use m in \<open>simp add: resume_def\<close>)
qed

lemma io_bind_resume: "io_bind m f = resume m (case_sum io_err f)"
  by (auto simp: io_bind_def resume_def fun_eq_iff split: prod.splits res.splits)

lemma io_map_err_resume: "io_map_err g m = resume m (case_sum (\<lambda>e. io_err (g e)) io_ret)"
  by (auto simp: io_map_err_def resume_def fun_eq_iff split: prod.splits res.splits)

lemma similar_bind [similar_rules]:
  assumes "similar R m m'" "\<And>a. similar R (f a) (f' a)"
  shows "similar R (io_bind m f) (io_bind m' f')"
  unfolding io_bind_resume using assms
  by (intro similar_resume) (auto split: sum.splits intro: similar_err)

lemma similar_map_err [similar_rules]:
  "similar R m m' \<Longrightarrow> similar R (io_map_err g m) (io_map_err g m')"
  unfolding io_map_err_resume by (intro similar_resume) (auto split: sum.splits intro: similar_rules)

lemma similar_try [similar_rules]: "similar R m m' \<Longrightarrow> similar R (io_try m) (io_try m')"
  unfolding io_try_def by (intro similar_rules)

lemma similar_if [similar_rules]:
  "(c \<Longrightarrow> similar R m1 m1') \<Longrightarrow> (\<not> c \<Longrightarrow> similar R m2 m2') \<Longrightarrow>
    similar R (if c then m1 else m2) (if c then m1' else m2')"
  by simp

lemma similar_option [similar_rules]:
  "(x = None \<Longrightarrow> similar R m m') \<Longrightarrow> (\<And>a. x = Some a \<Longrightarrow> similar R (f a) (f' a)) \<Longrightarrow>
    similar R (case x of None \<Rightarrow> m | Some a \<Rightarrow> f a) (case x of None \<Rightarrow> m' | Some a \<Rightarrow> f' a)"
  by (cases x) simp_all

lemma similar_sum [similar_rules]:
  "(\<And>e. x = Inl e \<Longrightarrow> similar R (f e) (f' e)) \<Longrightarrow> (\<And>a. x = Inr a \<Longrightarrow> similar R (g a) (g' a)) \<Longrightarrow>
    similar R (case x of Inl e \<Rightarrow> f e | Inr a \<Rightarrow> g a) (case x of Inl e \<Rightarrow> f' e | Inr a \<Rightarrow> g' a)"
  by (cases x) simp_all

lemma similar_prod [similar_rules]:
  "(\<And>a b. x = (a, b) \<Longrightarrow> similar R (f a b) (f' a b)) \<Longrightarrow>
    similar R (case x of (a, b) \<Rightarrow> f a b) (case x of (a, b) \<Rightarrow> f' a b)"
  by (cases x) simp

lemma similar_unfold: "m = m1 \<Longrightarrow> m' = m1' \<Longrightarrow> similar R m1 m1' \<Longrightarrow> similar R m m'"
  by simp

section \<open>Computations without an error result\<close>

definition no_err :: "('w, 'e, 'a) io \<Rightarrow> bool" where
  "no_err m \<longleftrightarrow> (\<forall>w e w'. m w \<noteq> (Err e, w'))"

named_theorems no_err_rules "computations without an error result"

lemma no_errI: "(\<And>w e w'. m w = (Err e, w') \<Longrightarrow> False) \<Longrightarrow> no_err m"
  by (auto simp: no_err_def)

lemma no_err_ret [no_err_rules]: "no_err (io_ret a)"
  by (simp add: no_err_def)

lemma no_err_Pair [no_err_rules]: "no_err (Pair (Ok a))"
  by (simp add: no_err_def)

lemma no_err_resume [no_err_rules]: "(\<And>x. no_err (k x)) \<Longrightarrow> no_err (resume m k)"
  by (auto simp: no_err_def resume_def split: prod.splits res.splits)

lemma no_err_try [no_err_rules]: "no_err (io_try m)"
  unfolding io_try_def by (intro no_err_rules)

lemma no_err_bind [no_err_rules]: "no_err m \<Longrightarrow> (\<And>a. no_err (f a)) \<Longrightarrow> no_err (io_bind m f)"
  unfolding no_err_def by (auto simp: io_bind_def split: prod.splits res.splits)

lemma no_err_if [no_err_rules]: "no_err m \<Longrightarrow> no_err m' \<Longrightarrow> no_err (if c then m else m')"
  by simp

lemma no_err_option [no_err_rules]:
  "no_err m \<Longrightarrow> (\<And>a. no_err (f a)) \<Longrightarrow> no_err (case x of None \<Rightarrow> m | Some a \<Rightarrow> f a)"
  by (cases x) simp_all

lemma no_err_sum [no_err_rules]:
  "(\<And>e. no_err (f e)) \<Longrightarrow> (\<And>a. no_err (g a)) \<Longrightarrow> no_err (case x of Inl e \<Rightarrow> f e | Inr a \<Rightarrow> g a)"
  by (cases x) simp_all

lemma no_err_prod [no_err_rules]: "(\<And>a b. no_err (f a b)) \<Longrightarrow> no_err (case x of (a, b) \<Rightarrow> f a b)"
  by (cases x) simp

lemma vdisk_new_no_err [simp]: "vdisk_new oc b l c \<noteq> Err e"
  by (simp add: vdisk_new_def next_power_of_two_def)

lemma no_err_with_view [no_err_rules]:
  assumes "no_err m"
  shows "no_err (with_view oc b l c m)"
proof (rule no_errI)
  fix w e w'
  assume "with_view oc b l c m w = (Err e, w')"
  then show False using assms by (auto simp: with_view_def no_err_def split: res.splits prod.splits)
qed

section \<open>Views of one disk\<close>

text \<open>Two views of the same range at the same position, each with a coherent cache of its own.\<close>

definition twin_views :: "nat \<Rightarrow> (nat \<Rightarrow> byte) \<Rightarrow> ('w \<Rightarrow> bool) \<Rightarrow> vdisk \<times> 'w \<Rightarrow> vdisk \<times> unit \<Rightarrow> bool" where
  "twin_views sz disk P s t \<longleftrightarrow> P (snd s) \<and> view_ok sz disk (fst s) \<and> view_ok sz disk (fst t) \<and>
     vd_base (fst s) = vd_base (fst t) \<and> vd_length (fst s) = vd_length (fst t) \<and>
     vd_position (fst s) = vd_position (fst t)"

definition twin_worlds :: "('w \<Rightarrow> bool) \<Rightarrow> 'w \<Rightarrow> unit \<Rightarrow> bool" where
  "twin_worlds P w u = P w"

lemma view_ok_position [simp]: "view_ok sz disk (v\<lparr>vd_position := p\<rparr>) = view_ok sz disk v"
  by (simp add: view_ok_def vdisk_wf_def cache_ok_def chunk_bytes_def)

lemma with_view_similar:
  assumes "similar (twin_views sz disk P) m m'" "base + len \<le> 2 ^ 64" "c \<le> 2 ^ 31" "c' \<le> 2 ^ 31"
  shows "similar (twin_worlds P) (with_view oc base len c m) (with_view oc' base len c' m')"
proof (rule similarI)
  fix w :: 'a and u :: unit
  assume "twin_worlds P w u"
  then have P: "P w" by (simp add: twin_worlds_def)
  obtain v where v: "vdisk_new oc base len c = (Ok v :: ('b, vdisk) res)"
    using vdisk_new_total [of c] assms(3) by fastforce
  obtain v' where v': "vdisk_new oc' base len c' = (Ok v' :: ('b, vdisk) res)"
    using vdisk_new_total [of c'] assms(4) by fastforce
  have "twin_views sz disk P (v, w) (v', u)"
    using P vdisk_new_wf [OF v assms(3,2)] vdisk_new_wf [OF v' assms(4,2)] by (simp add: twin_views_def)
  with assms(1) obtain r s t where "m (v, w) = (r, s)" "m' (v', u) = (r, t)" "twin_views sz disk P s t"
    by (rule similarE)
  then show "\<exists>r s' t'. with_view oc base len c m w = (r, s') \<and> with_view oc' base len c' m' u = (r, t') \<and>
      twin_worlds P s' t'"
    using v v' by (auto simp: with_view_def twin_worlds_def twin_views_def split: prod.splits)
qed

lemma on_world_similar [similar_rules]:
  assumes "similar (twin_worlds P) m m'"
  shows "similar (twin_views sz disk P) (on_world m) (on_world m')"
proof (rule similarI)
  fix s t
  assume tw: "twin_views sz disk P s t"
  then have "twin_worlds P (snd s) (snd t)" by (simp add: twin_worlds_def twin_views_def)
  with assms obtain r w u where "m (snd s) = (r, w)" "m' (snd t) = (r, u)" "twin_worlds P w u" by (rule similarE)
  then show "\<exists>r s' t'. on_world m s = (r, s') \<and> on_world m' t = (r, t') \<and> twin_views sz disk P s' t'"
    using tw by (cases s; cases t) (auto simp: on_world_def twin_worlds_def twin_views_def)
qed

lemma on_view_seek_similar:
  "similar (twin_views sz disk P) (on_view (vdisk_seek p)) (on_view (vdisk_seek p))"
proof (rule similarI)
  fix s :: "vdisk \<times> 'a" and t :: "vdisk \<times> unit"
  assume tw: "twin_views sz disk P s t"
  obtain v w where s: "s = (v, w)" by fastforce
  obtain v' u where t: "t = (v', u)" by (cases t)
  have "seek_target v p = seek_target v' p"
    using tw s t by (auto simp: seek_target_def twin_views_def split: seek_from.splits)
  then show "\<exists>r s' t'. on_view (vdisk_seek p) s = (r, s') \<and> on_view (vdisk_seek p) t = (r, t') \<and>
      twin_views sz disk P s' t'"
    using tw s t by (auto simp: on_view_def vdisk_seek_def Let_def twin_views_def)
qed

context reliable_driver
begin

lemma read_with_cache_similar:
  "similar (twin_views sz disk inv) (read_with_cache oc d pos buf) (read_with_cache oc' ref pos buf)"
proof (rule similarI)
  fix s t
  assume tw: "twin_views sz disk inv s t"
  obtain v w where s: "s = (v, w)" by fastforce
  obtain v' u where t: "t = (v', u)" by (cases t)
  have w: "inv w" "view_ok sz disk v" "view_ok sz disk v'" using tw s t by (simp_all add: twin_views_def)
  have u: "sz \<le> 2 ^ 63 \<and> (\<forall>p. sz \<le> p \<longrightarrow> disk p = 0)" using size_small disk_end w(1) by blast
  have same: "vd_base v' = vd_base v" "vd_length v' = vd_length v" using tw s t by (simp_all add: twin_views_def)
  from read_with_cache_total [OF w(1,2) refl, of oc pos buf]
    reference.read_with_cache_total [OF u w(3) refl, of oc' pos buf u]
  show "\<exists>r s' t'. read_with_cache oc d pos buf s = (r, s') \<and> read_with_cache oc' ref pos buf t = (r, t') \<and>
      twin_views sz disk inv s' t'"
    using tw s t same same_view_simps(1,2,5)
    by (fastforce simp: twin_views_def)
qed

lemma vdisk_read_similar:
  "similar (twin_views sz disk inv) (vdisk_read oc d buf) (vdisk_read oc ref buf)"
proof (rule similarI)
  fix s t
  assume tw: "twin_views sz disk inv s t"
  obtain v w where s: "s = (v, w)" by fastforce
  obtain v' u where t: "t = (v', u)" by (cases t)
  have pos: "vd_position v' = vd_position v" using tw s t by (simp add: twin_views_def)
  from read_with_cache_similar tw obtain r s1 t1 where
      "read_with_cache oc d (vd_position v) buf s = (r, s1)" "read_with_cache oc ref (vd_position v) buf t = (r, t1)"
      "twin_views sz disk inv s1 t1" by (rule similarE)
  then show "\<exists>r s' t'. vdisk_read oc d buf s = (r, s') \<and> vdisk_read oc ref buf t = (r, t') \<and>
      twin_views sz disk inv s' t'"
    using s t pos
    by (cases r; cases s1; cases t1) (auto simp: vdisk_read_def io_bind_def twin_views_def split: res.splits)
qed

lemma run_prog_similar [similar_rules]:
  "similar (twin_views sz disk inv) (run_prog oc d p) (run_prog oc ref p)"
proof (induction p)
  case (ReadAt pos buf k)
  then show ?case by (auto intro!: similar_rules read_with_cache_similar)
next
  case (ReadNext buf k)
  then show ?case by (auto intro!: similar_rules vdisk_read_similar)
next
  case (SeekTo s k)
  then show ?case by (auto intro!: similar_rules on_view_seek_similar)
next
  case (Return r)
  then show ?case unfolding run_prog.simps by (rule similar_lift)
qed

lemma load_cancel_similar [similar_rules]: "similar (twin_worlds inv) (load_cancel d) (load_cancel ref)"
  using not_cancelled cancel_law
  by (fastforce simp: similar_def twin_worlds_def load_cancel_def pure_driver_def split: prod.splits)

end

section \<open>Programs that do not panic\<close>

primrec prog_safe :: "('e, 'a) disk_prog \<Rightarrow> bool" where
  "prog_safe (Return r) = (r \<noteq> Panic)"
| "prog_safe (ReadAt pos buf k) = (\<forall>x. prog_safe (k x))"
| "prog_safe (ReadNext buf k) = (\<forall>x. prog_safe (k x))"
| "prog_safe (SeekTo s k) = (\<forall>x. prog_safe (k x))"

definition view_inv :: "nat \<Rightarrow> (nat \<Rightarrow> byte) \<Rightarrow> ('w \<Rightarrow> bool) \<Rightarrow> vdisk \<times> 'w \<Rightarrow> bool" where
  "view_inv sz disk P s \<longleftrightarrow> P (snd s) \<and> view_ok sz disk (fst s) \<and> vd_position (fst s) < 2 ^ 64"

lemma no_panic_resume [no_panic_rules]:
  "no_panic P m \<Longrightarrow> (\<And>x. no_panic P (k x)) \<Longrightarrow> no_panic P (resume m k)"
  by (auto simp: no_panic_def resume_def split: prod.splits res.splits)

lemma no_panic_try [no_panic_rules]: "no_panic P m \<Longrightarrow> no_panic P (io_try m)"
  unfolding io_try_def by (intro no_panic_rules)

lemma no_panic_option [no_panic_rules]:
  "(x = None \<Longrightarrow> no_panic P m) \<Longrightarrow> (\<And>a. x = Some a \<Longrightarrow> no_panic P (f a)) \<Longrightarrow>
    no_panic P (case x of None \<Rightarrow> m | Some a \<Rightarrow> f a)"
  by (cases x) simp_all

lemma no_panic_sum [no_panic_rules]:
  "(\<And>e. no_panic P (f e)) \<Longrightarrow> (\<And>a. no_panic P (g a)) \<Longrightarrow> no_panic P (case x of Inl e \<Rightarrow> f e | Inr a \<Rightarrow> g a)"
  by (cases x) simp_all

lemma no_panic_with_view:
  assumes "no_panic (view_inv sz disk P) m" "base + len \<le> 2 ^ 64" "c \<le> 2 ^ 31"
  shows "no_panic P (with_view oc base len c m)"
  unfolding no_panic_def
proof (intro allI impI)
  fix w
  assume P: "P w"
  obtain v where v: "vdisk_new oc base len c = (Ok v :: ('b, vdisk) res)"
    using vdisk_new_total [of c] assms(3) by fastforce
  have "view_inv sz disk P (v, w)" using P vdisk_new_wf [OF v assms(3,2)] by (simp add: view_inv_def)
  then have "fst (m (v, w)) \<noteq> Panic \<and> view_inv sz disk P (snd (m (v, w)))"
    using assms(1) unfolding no_panic_def by blast
  then show "fst (with_view oc base len c m w) \<noteq> Panic \<and> P (snd (with_view oc base len c m w))"
    using v by (auto simp: with_view_def view_inv_def split: prod.splits)
qed

lemma no_panic_on_world [no_panic_rules]:
  assumes "no_panic P m"
  shows "no_panic (view_inv sz disk P) (on_world m)"
  unfolding no_panic_def
proof (intro allI impI)
  fix s
  assume s: "view_inv sz disk P s"
  then have "fst (m (snd s)) \<noteq> Panic \<and> P (snd (m (snd s)))"
    using assms by (simp add: view_inv_def no_panic_def)
  then show "fst (on_world m s) \<noteq> Panic \<and> view_inv sz disk P (snd (on_world m s))"
    using s by (cases s) (auto simp: on_world_def view_inv_def split: prod.splits)
qed

lemma no_panic_seek: "no_panic (view_inv sz disk P) (on_view (vdisk_seek p))"
  unfolding no_panic_def
proof (intro allI impI)
  fix s
  assume "view_inv sz disk P s"
  then show "fst (on_view (vdisk_seek p) s) \<noteq> Panic \<and> view_inv sz disk P (snd (on_view (vdisk_seek p) s))"
    by (cases s) (auto simp: on_view_def vdisk_seek_def view_inv_def Let_def nat_less_iff)
qed

context vm_driver
begin

lemma no_panic_read_with_cache: "no_panic (view_inv sz disk inv) (read_with_cache oc d pos buf)"
  unfolding no_panic_def
proof (intro allI impI)
  fix s
  assume s: "view_inv sz disk inv s"
  obtain v w where vw: "s = (v, w)" by fastforce
  obtain r v' w' where r: "read_with_cache oc d pos buf (v, w) = (r, (v', w'))" by (metis prod.exhaust)
  have "inv w" "view_ok sz disk v" using s vw by (simp_all add: view_inv_def)
  note sp = read_with_cache_spec [OF this r refl]
  show "fst (read_with_cache oc d pos buf s) \<noteq> Panic \<and> view_inv sz disk inv (snd (read_with_cache oc d pos buf s))"
    using s vw r sp(1-4) same_view_simps(5) [OF sp(3)] by (simp add: view_inv_def)
qed

lemma no_panic_vdisk_read: "no_panic (view_inv sz disk inv) (vdisk_read oc d buf)"
  unfolding no_panic_def
proof (intro allI impI)
  fix s
  assume s: "view_inv sz disk inv s"
  obtain v w where vw: "s = (v, w)" by fastforce
  obtain r v' w' where r: "read_with_cache oc d (vd_position v) buf (v, w) = (r, (v', w'))" by (metis prod.exhaust)
  have iv: "inv w" "view_ok sz disk v" "vd_position v < 2 ^ 64" using s vw by (simp_all add: view_inv_def)
  note sp = read_with_cache_spec [OF iv(1,2) r refl]
  have pos: "vd_position v' = vd_position v" using same_view_simps(5) [OF sp(3)] .
  show "fst (vdisk_read oc d buf s) \<noteq> Panic \<and> view_inv sz disk inv (snd (vdisk_read oc d buf s))"
  proof (cases r)
    case (Ok x)
    let ?n = "min (min (vd_length v - vd_position v) (length buf)) (sz - (vd_base v + vd_position v))"
    have "vd_position v + ?n < 2 ^ 64 \<or> ?n \<le> vd_length v - vd_position v \<and> 0 < ?n"
      using iv(3) by (cases "?n = 0") auto
    moreover have "vd_base v + vd_length v \<le> 2 ^ 64" "sz \<le> 2 ^ 63"
      using iv(2) size_small [OF iv(1)] by (simp_all add: view_ok_def vdisk_wf_def)
    ultimately have "vd_position v + ?n < 2 ^ 64" by (auto simp: min_def split: if_splits)
    then show ?thesis using sp(5) [OF Ok] Ok r vw sp(1,2) pos
      by (auto simp: vdisk_read_def io_bind_def view_inv_def)
  qed (use r vw sp(1,2,4) pos iv in \<open>auto simp: vdisk_read_def io_bind_def view_inv_def\<close>)
qed

lemma no_panic_run_prog: "prog_safe p \<Longrightarrow> no_panic (view_inv sz disk inv) (run_prog oc d p)"
proof (induction p)
  case (Return r)
  then show ?case unfolding run_prog.simps by (intro no_panic_rules) simp
next
  case (ReadAt pos buf k)
  then show ?case by (auto intro!: no_panic_resume no_panic_read_with_cache)
next
  case (ReadNext buf k)
  then show ?case by (auto intro!: no_panic_resume no_panic_vdisk_read)
next
  case (SeekTo s k)
  then show ?case by (auto intro!: no_panic_resume no_panic_seek)
qed

lemma no_panic_load_cancel [no_panic_rules]: "no_panic inv (load_cancel d)"
  using cancel_law by (auto simp: no_panic_def load_cancel_def split: prod.splits) (metis snd_conv)

end

section \<open>Catching panics\<close>

text \<open>\<open>std::panic::catch_unwind\<close>: \<open>None\<close> is a caught panic.\<close>

definition catch_unwind :: "('w, 'e, 'a) io \<Rightarrow> ('w, 'f, ('e + 'a) option) io" where
  "catch_unwind m w = (case m w of
       (Ok a, w') \<Rightarrow> (Ok (Some (Inr a)), w')
     | (Err e, w') \<Rightarrow> (Ok (Some (Inl e)), w')
     | (Panic, w') \<Rightarrow> (Ok None, w'))"

text \<open>A computation that keeps an invariant on every way out, a panic included.\<close>

definition keeps :: "('w \<Rightarrow> bool) \<Rightarrow> ('w, 'e, 'a) io \<Rightarrow> bool" where
  "keeps P m \<longleftrightarrow> (\<forall>w. P w \<longrightarrow> P (snd (m w)))"

named_theorems keeps_rules "computations that keep an invariant"

lemma keeps_lift [keeps_rules]: "keeps P (io_lift r)" "keeps P (io_ret a)" "keeps P (Pair r)"
  by (simp_all add: keeps_def)

lemma keeps_bind [keeps_rules]: "keeps P m \<Longrightarrow> (\<And>a. keeps P (f a)) \<Longrightarrow> keeps P (io_bind m f)"
  by (auto simp: keeps_def io_bind_def split: prod.splits res.splits)

lemma keeps_if [keeps_rules]: "keeps P m \<Longrightarrow> keeps P m' \<Longrightarrow> keeps P (if c then m else m')"
  by simp

lemma keeps_option [keeps_rules]:
  "keeps P m \<Longrightarrow> (\<And>a. keeps P (f a)) \<Longrightarrow> keeps P (case x of None \<Rightarrow> m | Some a \<Rightarrow> f a)"
  by (cases x) simp_all

lemma keeps_prod [keeps_rules]: "(\<And>a b. keeps P (f a b)) \<Longrightarrow> keeps P (case x of (a, b) \<Rightarrow> f a b)"
  by (cases x) simp

lemma no_panic_catch [no_panic_rules]: "keeps P m \<Longrightarrow> no_panic P (catch_unwind m)"
  by (auto simp: keeps_def no_panic_def catch_unwind_def split: prod.splits res.splits)

lemma no_err_catch [no_err_rules]: "no_err (catch_unwind m)"
  by (auto simp: no_err_def catch_unwind_def split: prod.splits res.splits)

lemma similar_catch [similar_rules]:
  assumes "similar R m m'"
  shows "similar R (catch_unwind m) (catch_unwind m')"
proof (rule similarI)
  fix s t
  assume "R s t"
  with assms obtain r s1 t1 where "m s = (r, s1)" "m' t = (r, t1)" "R s1 t1" by (rule similarE)
  then show "\<exists>r s' t'. catch_unwind m s = (r, s') \<and> catch_unwind m' t = (r, t') \<and> R s' t'"
    by (cases r) (auto simp: catch_unwind_def)
qed

lemma no_panic_keeps: "no_panic P m \<Longrightarrow> keeps P m"
  unfolding keeps_def no_panic_def by blast

end
