(* ===== verification/Program_List.thy ===== *)
theory Program_List
  imports Models "HOL-Library.List_Lexorder" "HOL-Library.Multiset"
begin

text \<open>
  The list of programs of a report.  Both guest parsers end with
  \<open>programs.sort_by(..)\<close> on the name and \<open>programs.dedup_by(..)\<close> on name and version
  (\<^verbatim>\<open>src/parsers/linux.rs\<close>, \<^verbatim>\<open>src/parsers/windows.rs\<close>).  Rust compares strings bytewise, which is the
  lexicographic order of their codes; \<open>sort_by\<close> is stable; \<open>dedup_by\<close> compares an element
  with the last one kept.
\<close>

section \<open>Operations\<close>

definition name_key :: "program \<Rightarrow> nat list" where
  "name_key p = map code (pg_name p)"

definition same_program :: "program \<Rightarrow> program \<Rightarrow> bool" where
  "same_program a b = (pg_name a = pg_name b \<and> pg_version a = pg_version b)"

fun dedup_by :: "('a \<Rightarrow> 'a \<Rightarrow> bool) \<Rightarrow> 'a list \<Rightarrow> 'a list" where
  "dedup_by same (x # y # zs) = (if same y x then dedup_by same (x # zs) else x # dedup_by same (y # zs))"
| "dedup_by same xs = xs"

definition sort_and_dedup :: "program list \<Rightarrow> program list" where
  "sort_and_dedup ps = dedup_by same_program (sort_key name_key ps)"

text \<open>A string as an optional field, and the guest tools of a kind.\<close>

definition non_empty :: "string \<Rightarrow> string option" where
  "non_empty s = (if s \<noteq> '''' then Some s else None)"

definition tools :: "string \<Rightarrow> string option \<Rightarrow> guest_tools" where
  "tools kind ver = \<lparr>gt_kind = kind, gt_version = ver, gt_present = True\<rparr>"

section \<open>Laws\<close>

lemma map_code_inj: "map code s = map code t \<longleftrightarrow> s = t"
  by (simp add: inj_def inj_map_eq_map)

lemma dedup_by_hd: "\<exists>ys. dedup_by same (x # xs) = x # ys"
  by (induction xs) auto

lemma set_dedup_by: "set (dedup_by same xs) \<subseteq> set xs"
  by (induction same xs rule: dedup_by.induct) auto

lemma dedup_by_covers:
  assumes "reflp same" "transp same" "x \<in> set xs"
  shows "\<exists>y \<in> set (dedup_by same xs). same x y"
  using assms
proof (induction same xs rule: dedup_by.induct)
  case (1 same x' y zs)
  note refl = 1(3) and trans = 1(4) and x = 1(5)
  show ?case
  proof (cases "same y x'")
    case True
    obtain ys where ys: "dedup_by same (x' # zs) = x' # ys" using dedup_by_hd [of same x' zs] by blast
    show ?thesis
    proof (cases "x = y")
      case False
      then show ?thesis using 1(1) [OF True refl trans] x True by auto
    qed (use True ys in simp)
  next
    case False
    then show ?thesis using 1(2) [OF False refl trans] reflpD [OF refl, of x] x by auto
  qed
qed (auto simp: reflpD)

lemma sorted_dedup_by: "sorted (map f xs) \<Longrightarrow> sorted (map f (dedup_by same xs))"
proof (induction same xs rule: dedup_by.induct)
  case (1 same x y zs)
  then show ?case using set_dedup_by [of same "y # zs"] by fastforce
qed auto

lemma dedup_by_no_neighbours: "successively (\<lambda>x y. \<not> same y x) (dedup_by same xs)"
proof (induction same xs rule: dedup_by.induct)
  case (1 same x y zs)
  then show ?case
  proof (cases "same y x")
    case False
    obtain ys where "dedup_by same (y # zs) = y # ys" using dedup_by_hd [of same y zs] by blast
    then show ?thesis using 1 False by simp
  qed simp
qed auto

lemma dedup_by_id: "successively (\<lambda>x y. \<not> same y x) xs \<Longrightarrow> dedup_by same xs = xs"
  by (induction same xs rule: dedup_by.induct) auto

lemma same_program_refl [simp]: "same_program p p"
  by (simp add: same_program_def)

lemma same_program_preorder: "reflp same_program" "transp same_program"
  by (auto simp: same_program_def intro: reflpI transpI)

lemma sort_and_dedup_set: "set (sort_and_dedup ps) \<subseteq> set ps"
  using set_dedup_by [of same_program "sort_key name_key ps"] by (simp add: sort_and_dedup_def)

lemma sort_and_dedup_covers: "p \<in> set ps \<Longrightarrow> \<exists>q \<in> set (sort_and_dedup ps). same_program p q"
  using dedup_by_covers [OF same_program_preorder, of p "sort_key name_key ps"]
  by (simp add: sort_and_dedup_def)

lemma sort_and_dedup_sorted: "sorted (map name_key (sort_and_dedup ps))"
  by (simp add: sort_and_dedup_def sorted_dedup_by)

lemma sort_and_dedup_neighbours: "successively (\<lambda>p q. \<not> same_program q p) (sort_and_dedup ps)"
  by (simp add: sort_and_dedup_def dedup_by_no_neighbours)

lemma sort_and_dedup_Nil [simp]: "sort_and_dedup [] = []"
  by (simp add: sort_and_dedup_def)

text \<open>When no name comes with two versions, the list has no duplicates at all.\<close>

lemma sorted_key_distinct:
  assumes "sorted (map name_key ps)" "successively (\<lambda>p q. \<not> same_program q p) ps"
    and one: "\<And>p q. p \<in> set ps \<Longrightarrow> q \<in> set ps \<Longrightarrow> pg_name p = pg_name q \<Longrightarrow> pg_version p = pg_version q"
  shows "distinct (map name_key ps)"
  using assms
proof (induction ps)
  case (Cons p ps)
  have "name_key p \<notin> name_key ` set ps"
  proof
    assume "name_key p \<in> name_key ` set ps"
    then obtain q ps' where ps: "ps = q # ps'" and le: "name_key p \<le> name_key q" and
        x: "\<exists>x \<in> set ps. name_key x = name_key p"
      using Cons(2) by (cases ps) auto
    then have "name_key q \<le> name_key p" using Cons(2) by auto
    then have "pg_name p = pg_name q" using order.antisym [OF le] by (simp add: name_key_def map_code_inj)
    moreover have "\<not> same_program q p" using Cons(3) ps by simp
    moreover have "pg_version p = pg_version q" using Cons(4) [of p q] \<open>pg_name p = pg_name q\<close> ps by simp
    ultimately show False by (simp add: same_program_def)
  qed
  moreover have "distinct (map name_key ps)"
  proof (rule Cons(1))
    show "successively (\<lambda>p q. \<not> same_program q p) ps" using Cons(3) by (auto simp: successively_Cons)
    show "sorted (map name_key ps)" using Cons(2) by simp
    show "pg_version x = pg_version y" if "x \<in> set ps" "y \<in> set ps" "pg_name x = pg_name y" for x y
      by (rule Cons(4)) (use that in simp_all)
  qed
  ultimately show ?case by simp
qed simp

section \<open>Properties\<close>


definition app :: "string \<Rightarrow> string \<Rightarrow> program" where
  "app n v = \<lparr>pg_name = n, pg_version = Some v, pg_publisher = None, pg_source = None\<rparr>"


text \<open>Deduplication is not complete: it compares neighbours of a list ordered by name only, so a
  program found twice with another version of it in between stays twice in the report.\<close>

theorem duplicates_survive:
  "sort_and_dedup [app ''x'' ''1'', app ''x'' ''2'', app ''x'' ''1''] =
    [app ''x'' ''1'', app ''x'' ''2'', app ''x'' ''1'']"
  by (simp add: sort_and_dedup_def name_key_def app_def same_program_def)

end
