(* ===== verification/Linux_Guest.thy ===== *)
theory Linux_Guest
  imports Disk_Program Program_List
begin

text \<open>
  \<open>src/parsers/linux.rs\<close>: the analysis of a Linux guest.

  The \<^verbatim>\<open>ext4\<close> crate is the parameter \<open>x\<close>; its calls are disk programs, their errors the text
  \<^verbatim>\<open>{:?}\<close> prints.  Opaque values of the crate (super block, inode, reader) are type variables.  The
  parsers of \<^verbatim>\<open>os-release\<close> and of the \<^verbatim>\<open>dpkg\<close> status file are modelled line by line.
\<close>

section \<open>The crate\<close>

record ('sb, 'ino, 'rd) ext4_crate =
  sb_new :: "(string, 'sb) disk_prog"
  sb_resolve_path :: "'sb \<Rightarrow> string \<Rightarrow> (string, nat) disk_prog"
  sb_load_inode :: "'sb \<Rightarrow> nat \<Rightarrow> (string, 'ino) disk_prog"
  sb_open :: "'sb \<Rightarrow> 'ino \<Rightarrow> (string, 'rd) disk_prog"
  rd_read_to_end :: "'rd \<Rightarrow> (io_error, bytes) disk_prog"

section \<open>os-release\<close>

definition unquote :: "string \<Rightarrow> string" where
  "unquote v = trim_matches (\<lambda>c. c = CHR 0x27) (trim_matches (\<lambda>c. c = CHR 0x22) v)"

definition os_release_line :: "string \<Rightarrow> guest_info \<Rightarrow> guest_info" where
  "os_release_line line g =
     (let l = trim line in
      if starts_with l ''#'' then g
      else (case split_once (CHR ''='') l of
          None \<Rightarrow> g
        | Some (k, v) \<Rightarrow>
            (let key = trim k; val = unquote (trim v) in
             if key = ''PRETTY_NAME'' then g\<lparr>os_name := val\<rparr>
             else if key = ''VERSION_ID'' \<and> os_build g = '''' then g\<lparr>os_build := val\<rparr>
             else if key = ''NAME'' \<and> os_name g = '''' then g\<lparr>os_name := val\<rparr>
             else g)))"

definition parse_os_release :: "string \<Rightarrow> guest_info \<Rightarrow> guest_info" where
  "parse_os_release content g = fold os_release_line (lines content) g"

section \<open>dpkg status\<close>

definition tools_package :: "string \<Rightarrow> string option" where
  "tools_package pkg =
     (if pkg \<in> {''open-vm-tools'', ''open-vm-tools-desktop''} then Some ''VMware Tools''
      else if pkg \<in> {''virtualbox-guest-utils'', ''virtualbox-guest-x11'', ''virtualbox-guest-dkms'',
        ''virtualbox-guest-additions-iso''} then Some ''VirtualBox Guest Additions''
      else if pkg = ''qemu-guest-agent'' then Some ''QEMU Guest Agent''
      else if pkg \<in> {''hyperv-daemons'', ''hv-kvp-daemon-init'', ''linux-cloud-tools-virtual''}
        then Some ''Hyper-V Integration Services''
      else None)"

record dpkg =
  dp_pkg :: string
  dp_ver :: string
  dp_section :: string
  dp_installed :: bool
  dp_packages :: "program list"
  dp_tools :: "guest_tools option"

definition dpkg_start :: dpkg where
  "dpkg_start = \<lparr>dp_pkg = '''', dp_ver = '''', dp_section = '''', dp_installed = False,
     dp_packages = [], dp_tools = None\<rparr>"

definition process_package :: "bool \<Rightarrow> dpkg \<Rightarrow> dpkg" where
  "process_package should_apps s =
     (if dp_installed s \<and> dp_pkg s \<noteq> '''' then
        (let ver = non_empty (dp_ver s);
             ts = (case dp_tools s of
                 Some t \<Rightarrow> Some t
               | None \<Rightarrow> map_option (\<lambda>kind. tools kind ver) (tools_package (dp_pkg s)));
             ps = (if should_apps
               then dp_packages s @ [\<lparr>pg_name = dp_pkg s, pg_version = ver,
                 pg_publisher = non_empty (dp_section s), pg_source = None\<rparr>]
               else dp_packages s)
         in s\<lparr>dp_tools := ts, dp_packages := ps\<rparr>)
      else s)"

definition dpkg_line :: "bool \<Rightarrow> string \<Rightarrow> dpkg \<Rightarrow> dpkg" where
  "dpkg_line should_apps line s =
     (if starts_with line ''Package: '' then s\<lparr>dp_pkg := trim (trim_start_matches ''Package: '' line)\<rparr>
      else if starts_with line ''Status: '' then s\<lparr>dp_installed := contains line ''install ok installed''\<rparr>
      else if starts_with line ''Version: '' then s\<lparr>dp_ver := trim (trim_start_matches ''Version: '' line)\<rparr>
      else if starts_with line ''Section: '' then s\<lparr>dp_section := trim (trim_start_matches ''Section: '' line)\<rparr>
      else if trim line = '''' then (process_package should_apps s)\<lparr>dp_pkg := '''', dp_ver := '''',
        dp_section := '''', dp_installed := False\<rparr>
      else s)"

text \<open>The loop over the lines, left as soon as a load of the cancellation flag sees it set.\<close>

fun dpkg_lines :: "'w driver \<Rightarrow> bool \<Rightarrow> string list \<Rightarrow> dpkg \<Rightarrow> ('w, 'e, dpkg) io" where
  "dpkg_lines d should_apps [] s = io_ret s"
| "dpkg_lines d should_apps (l # ls) s = io_bind (load_cancel d) (\<lambda>c.
     if c then io_ret s else dpkg_lines d should_apps ls (dpkg_line should_apps l s))"

definition parse_dpkg_status ::
    "'w driver \<Rightarrow> string \<Rightarrow> options \<Rightarrow> ('w, 'e, program list \<times> guest_tools option) io" where
  "parse_dpkg_status d content opts =
     io_bind (dpkg_lines d (should_analyze_apps opts) (lines content) dpkg_start) (\<lambda>s.
       (let s' = process_package (should_analyze_apps opts) s in io_ret (dp_packages s', dp_tools s')))"

section \<open>Files of the guest\<close>

definition read_text_file ::
    "bool \<Rightarrow> 'w driver \<Rightarrow> ('sb, 'ino, 'rd) ext4_crate \<Rightarrow> 'sb \<Rightarrow> string \<Rightarrow> (vdisk \<times> 'w, vm_error, string) io" where
  "read_text_file oc d x sb p =
     io_bind (io_map_err FileSystemError (run_prog oc d (sb_resolve_path x sb p))) (\<lambda>inode.
     io_bind (io_map_err FileSystemError (run_prog oc d (sb_load_inode x sb inode))) (\<lambda>ino.
     io_bind (io_map_err FileSystemError (run_prog oc d (sb_open x sb ino))) (\<lambda>rd.
     io_bind (io_map_err Io (run_prog oc d (rd_read_to_end x rd))) (\<lambda>bs.
       io_ret (utf8_lossy bs)))))"

fun any_path :: "bool \<Rightarrow> 'w driver \<Rightarrow> ('sb, 'ino, 'rd) ext4_crate \<Rightarrow> 'sb \<Rightarrow> string list \<Rightarrow> (vdisk \<times> 'w, 'e, bool) io" where
  "any_path oc d x sb [] = io_ret False"
| "any_path oc d x sb (p # ps) = io_bind (io_try (run_prog oc d (sb_resolve_path x sb p))) (\<lambda>r.
     case r of Inr _ \<Rightarrow> io_ret True | Inl _ \<Rightarrow> any_path oc d x sb ps)"

definition linux_tool_paths :: "(string \<times> string list) list" where
  "linux_tool_paths = [
     (''VMware Tools'', [''/usr/bin/vmtoolsd'', ''/usr/sbin/vmtoolsd'', ''/bin/vmtoolsd'', ''/sbin/vmtoolsd'',
       ''/etc/vmware-tools'', ''/lib/systemd/system/open-vm-tools.service'',
       ''/etc/systemd/system/open-vm-tools.service'']),
     (''VirtualBox Guest Additions'', [''/usr/sbin/VBoxService'', ''/usr/bin/VBoxService'',
       ''/usr/sbin/vboxservice'', ''/usr/bin/vboxservice'', ''/sbin/VBoxService'',
       ''/lib/systemd/system/vboxadd-service.service'', ''/etc/systemd/system/vboxadd-service.service'',
       ''/opt/VBoxGuestAdditions'']),
     (''QEMU Guest Agent'', [''/usr/bin/qemu-ga'', ''/usr/sbin/qemu-ga'',
       ''/lib/systemd/system/qemu-guest-agent.service'', ''/etc/systemd/system/qemu-guest-agent.service'']),
     (''Hyper-V Integration Services'', [''/usr/sbin/hv_kvp_daemon'', ''/usr/bin/hv_kvp_daemon'',
       ''/usr/sbin/hv_vss_daemon'', ''/usr/sbin/hv_fcopy_daemon'',
       ''/lib/systemd/system/hv-kvp-daemon.service'', ''/lib/systemd/system/hypervkvp.service''])]"

fun first_tools :: "bool \<Rightarrow> 'w driver \<Rightarrow> ('sb, 'ino, 'rd) ext4_crate \<Rightarrow> 'sb \<Rightarrow> (string \<times> string list) list
    \<Rightarrow> (vdisk \<times> 'w, 'e, guest_tools option) io" where
  "first_tools oc d x sb [] = io_ret None"
| "first_tools oc d x sb ((kind, ps) # rest) = io_bind (any_path oc d x sb ps) (\<lambda>found.
     if found then io_ret (Some (tools kind None)) else first_tools oc d x sb rest)"

definition detect_guest_tools_linux_files ::
    "bool \<Rightarrow> 'w driver \<Rightarrow> ('sb, 'ino, 'rd) ext4_crate \<Rightarrow> 'sb \<Rightarrow> (vdisk \<times> 'w, 'e, guest_tools option) io" where
  "detect_guest_tools_linux_files oc d x sb = first_tools oc d x sb linux_tool_paths"

text \<open>The two halves of \<open>analyze_file_system\<close> and its end: what \<open>os-release\<close> and \<open>hostname\<close>
  give, the packages, and the tools found by their files when no package gave any.\<close>

definition read_os_info ::
    "bool \<Rightarrow> 'w driver \<Rightarrow> ('sb, 'ino, 'rd) ext4_crate \<Rightarrow> 'sb \<Rightarrow> (vdisk \<times> 'w, 'e, guest_info) io" where
  "read_os_info oc d x sb =
     io_bind (io_try (read_text_file oc d x sb ''/etc/os-release'')) (\<lambda>r1.
     io_bind (case r1 of Inr t \<Rightarrow> io_ret (Inr t) | Inl _ \<Rightarrow> io_try (read_text_file oc d x sb ''/usr/lib/os-release'')) (\<lambda>r2.
     io_bind (io_try (read_text_file oc d x sb ''/etc/hostname'')) (\<lambda>r3.
       (let g = (case r2 of Inr t \<Rightarrow> parse_os_release t default_guest_info | Inl _ \<Rightarrow> default_guest_info);
            name = (case r3 of Inr h \<Rightarrow> trim h | Inl _ \<Rightarrow> '''')
        in io_ret (if name \<noteq> '''' then g\<lparr>os_edition := ''Host: '' @ name\<rparr> else g)))))"

definition read_packages ::
    "bool \<Rightarrow> 'w driver \<Rightarrow> ('sb, 'ino, 'rd) ext4_crate \<Rightarrow> 'sb \<Rightarrow> options \<Rightarrow> guest_info
      \<Rightarrow> (vdisk \<times> 'w, 'e, guest_info \<times> program list) io" where
  "read_packages oc d x sb opts g =
     io_bind (io_try (read_text_file oc d x sb ''/var/lib/dpkg/status'')) (\<lambda>r. case r of
       Inl _ \<Rightarrow> io_ret (g, [])
     | Inr t \<Rightarrow> io_bind (on_world (parse_dpkg_status d t opts)) (\<lambda>(pkgs, ts).
         io_ret ((if should_analyze_system opts \<and> ts \<noteq> None then g\<lparr>guest_tools_of := ts\<rparr> else g),
           (if should_analyze_apps opts then pkgs else []))))"

definition analyze_file_system ::
    "bool \<Rightarrow> 'w driver \<Rightarrow> ('sb, 'ino, 'rd) ext4_crate \<Rightarrow> 'sb \<Rightarrow> options \<Rightarrow> (vdisk \<times> 'w, vm_error, analysis_result) io" where
  "analyze_file_system oc d x sb opts =
     io_bind (if should_analyze_system opts then read_os_info oc d x sb else io_ret default_guest_info) (\<lambda>g0.
     io_bind (read_packages oc d x sb opts g0) (\<lambda>(g1, pkgs).
     io_bind (if should_analyze_system opts \<and> guest_tools_of g1 = None
         then io_bind (detect_guest_tools_linux_files oc d x sb) (\<lambda>t. io_ret (g1\<lparr>guest_tools_of := t\<rparr>))
         else io_ret g1) (\<lambda>g2.
       io_ret \<lparr>ar_guest_info = g2, ar_programs = (if should_analyze_apps opts then sort_and_dedup pkgs else pkgs),
         ar_warnings = []\<rparr>)))"

section \<open>LinuxInspector\<close>

definition linux_candidates :: "partition list \<Rightarrow> partition list" where
  "linux_candidates parts =
     sort_key (\<lambda>p. - int (pt_size p)) (filter (\<lambda>p. pt_file_system p \<in> {Ext4, Ext3, Ext2}) parts)"

definition unreadable_rootfs :: "options \<Rightarrow> analysis_result" where
  "unreadable_rootfs opts = \<lparr>ar_guest_info = (if should_analyze_system opts
       then default_guest_info\<lparr>os_name := ''Linux (rootfs could not be read)''\<rparr> else default_guest_info),
     ar_programs = [], ar_warnings = []\<rparr>"

text \<open>One candidate: \<open>None\<close> when its super block cannot be read or its analysis fails.\<close>

definition try_candidate ::
    "bool \<Rightarrow> 'w driver \<Rightarrow> ('sb, 'ino, 'rd) ext4_crate \<Rightarrow> nat \<Rightarrow> options \<Rightarrow> partition
      \<Rightarrow> ('w, vm_error, analysis_result option) io" where
  "try_candidate oc d x chunk opts p = with_view oc (pt_start p) (pt_size p) chunk
     (io_bind (io_try (run_prog oc d (sb_new x))) (\<lambda>r. case r of
        Inl _ \<Rightarrow> io_ret None
      | Inr sb \<Rightarrow> io_bind (io_try (analyze_file_system oc d x sb opts)) (\<lambda>r'. case r' of
          Inr a \<Rightarrow> io_ret (Some a)
        | Inl _ \<Rightarrow> io_ret None)))"

fun try_candidates ::
    "bool \<Rightarrow> 'w driver \<Rightarrow> ('sb, 'ino, 'rd) ext4_crate \<Rightarrow> nat \<Rightarrow> options \<Rightarrow> partition list
      \<Rightarrow> ('w, vm_error, analysis_result) io" where
  "try_candidates oc d x chunk opts [] = io_ret (unreadable_rootfs opts)"
| "try_candidates oc d x chunk opts (p # ps) = io_bind (try_candidate oc d x chunk opts p) (\<lambda>r. case r of
       Some a \<Rightarrow> io_ret a
     | None \<Rightarrow> try_candidates oc d x chunk opts ps)"

definition linux_analyze ::
    "bool \<Rightarrow> 'w driver \<Rightarrow> ('sb, 'ino, 'rd) ext4_crate \<Rightarrow> partition list \<Rightarrow> nat \<Rightarrow> options
      \<Rightarrow> ('w, vm_error, analysis_result) io" where
  "linux_analyze oc d x parts chunk opts =
     (if \<not> should_analyze_system opts \<and> \<not> should_analyze_apps opts then io_ret default_analysis
      else try_candidates oc d x chunk opts (linux_candidates parts))"

section \<open>The analysis is a function of the bytes\<close>

context reliable_driver
begin

lemma dpkg_lines_similar [similar_rules]:
  "similar (twin_worlds inv) (dpkg_lines d apps ls s) (dpkg_lines ref apps ls s)"
  by (induction ls arbitrary: s) (auto intro!: similar_rules)

lemma parse_dpkg_status_similar [similar_rules]:
  "similar (twin_worlds inv) (parse_dpkg_status d t opts) (parse_dpkg_status ref t opts)"
  unfolding parse_dpkg_status_def Let_def by (intro similar_rules)

lemma read_text_file_similar [similar_rules]:
  "similar (twin_views sz disk inv) (read_text_file oc d x sb p) (read_text_file oc ref x sb p)"
  unfolding read_text_file_def by (intro similar_rules)

lemma any_path_similar [similar_rules]:
  "similar (twin_views sz disk inv) (any_path oc d x sb ps) (any_path oc ref x sb ps)"
  by (induction ps) (auto intro!: similar_rules)

lemma first_tools_similar [similar_rules]:
  "similar (twin_views sz disk inv) (first_tools oc d x sb ts) (first_tools oc ref x sb ts)"
  by (induction ts) (auto intro!: similar_rules)

lemma analyze_file_system_similar [similar_rules]:
  "similar (twin_views sz disk inv) (analyze_file_system oc d x sb opts) (analyze_file_system oc ref x sb opts)"
  unfolding analyze_file_system_def read_os_info_def read_packages_def detect_guest_tools_linux_files_def Let_def
  by (intro similar_rules)

lemma linux_analyze_similar:
  assumes "\<And>p. p \<in> set parts \<Longrightarrow> pt_start p + pt_size p \<le> 2 ^ 64" "c \<le> 2 ^ 31" "c' \<le> 2 ^ 31"
  shows "similar (twin_worlds inv) (linux_analyze oc d x parts c opts) (linux_analyze oc ref x parts c' opts)"
proof -
  have one: "similar (twin_worlds inv) (try_candidate oc d x c opts p) (try_candidate oc ref x c' opts p)"
    if "p \<in> set parts" for p
    unfolding try_candidate_def by (intro with_view_similar [where sz = sz and disk = disk] similar_rules assms that)
  have "similar (twin_worlds inv) (try_candidates oc d x c opts ps) (try_candidates oc ref x c' opts ps)"
    if "set ps \<subseteq> set parts" for ps
    using that by (induction ps) (auto intro!: similar_rules one)
  then show ?thesis unfolding linux_analyze_def
    by (intro similar_if similar_ret) (auto simp: linux_candidates_def)
qed

end

lemma linux_analyze_no_err: "no_err (linux_analyze oc d x parts chunk opts)"
proof -
  have "no_err (try_candidates oc d x chunk opts ps)" for ps
    by (induction ps) (auto simp: try_candidate_def intro!: no_err_rules)
  then show ?thesis unfolding linux_analyze_def by (intro no_err_rules)
qed

section \<open>Round trip of the dpkg status file\<close>

text \<open>A status file is printed from stanzas whose other fields are arbitrary lines.\<close>

record stanza =
  sa_name :: string
  sa_status :: string
  sa_section :: string
  sa_version :: string
  sa_other :: "string list"

definition stanza_lines :: "stanza \<Rightarrow> string list" where
  "stanza_lines s = [''Package: '' @ sa_name s, ''Status: '' @ sa_status s] @ sa_other s
     @ [''Section: '' @ sa_section s, ''Version: '' @ sa_version s, '''']"

definition unlines :: "string list \<Rightarrow> string" where
  "unlines ls = concat (map (\<lambda>l. l @ [newline]) ls)"

definition dpkg_text :: "stanza list \<Rightarrow> string" where
  "dpkg_text ss = unlines (concat (map stanza_lines ss))"

definition one_line :: "string \<Rightarrow> bool" where
  "one_line s = (newline \<notin> set s \<and> carriage_return \<notin> set s)"

definition field_ok :: "string \<Rightarrow> string \<Rightarrow> bool" where
  "field_ok prefix s = (one_line s \<and> trim s = s \<and> \<not> starts_with s prefix)"

definition other_ok :: "string \<Rightarrow> bool" where
  "other_ok l = (one_line l \<and> trim l \<noteq> '''' \<and>
     (\<forall>p \<in> {''Package: '', ''Status: '', ''Version: '', ''Section: ''}. \<not> starts_with l p))"

definition stanza_ok :: "stanza \<Rightarrow> bool" where
  "stanza_ok s = (sa_name s \<noteq> '''' \<and> field_ok ''Package: '' (sa_name s) \<and> one_line (sa_status s) \<and>
     field_ok ''Section: '' (sa_section s) \<and> field_ok ''Version: '' (sa_version s) \<and>
     (\<forall>l \<in> set (sa_other s). other_ok l))"

definition stanza_installed :: "stanza \<Rightarrow> bool" where
  "stanza_installed s = contains (''Status: '' @ sa_status s) ''install ok installed''"

definition stanza_program :: "stanza \<Rightarrow> program" where
  "stanza_program s = \<lparr>pg_name = sa_name s, pg_version = non_empty (sa_version s),
     pg_publisher = non_empty (sa_section s), pg_source = None\<rparr>"

definition stanza_tools :: "stanza \<Rightarrow> guest_tools option" where
  "stanza_tools s = (if stanza_installed s
     then map_option (\<lambda>kind. tools kind (non_empty (sa_version s))) (tools_package (sa_name s)) else None)"

text \<open>The first recognised package wins.\<close>

fun first_some :: "'a option list \<Rightarrow> 'a option" where
  "first_some [] = None"
| "first_some (Some a # xs) = Some a"
| "first_some (None # xs) = first_some xs"

lemma lines_unlines:
  assumes "\<forall>l \<in> set ls. one_line l"
  shows "lines (unlines ls) = ls"
  using assms
proof (induction ls)
  case (Cons l ls)
  then have "split_once newline (unlines (l # ls)) = Some (l, unlines ls)"
    by (simp add: unlines_def one_line_def)
  moreover have "strip_cr l = l" using Cons(2) by (simp add: strip_cr_def one_line_def) (metis last_in_set)
  ultimately show ?case using Cons by (subst lines.simps) (simp add: unlines_def)
qed (simp add: unlines_def lines.simps)

lemma trim_start_matches_once: "p \<noteq> [] \<Longrightarrow> \<not> starts_with s p \<Longrightarrow> trim_start_matches p (p @ s) = s"
  by (simp add: trim_start_matches.simps [of p "p @ s"] trim_start_matches.simps [of p s])

lemma trim_empty [simp]: "trim [] = []"
  by (simp add: trim_def trim_start.simps trim_back.simps ws_len_def ws_len_back_def)

lemma dpkg_lines_fold:
  assumes "\<And>w. \<not> fst (dr_cancelled d w)"
  shows "\<exists>w'. dpkg_lines d apps ls s w = (Ok (fold (dpkg_line apps) ls s), w')"
  using assms
proof (induction ls arbitrary: s w)
  case (Cons l ls)
  obtain w1 where "dr_cancelled d w = (False, w1)" using Cons(2) [of w] by (cases "dr_cancelled d w") auto
  then show ?case using Cons(1) [OF Cons(2), of "dpkg_line apps l s" w1] by (simp add: load_cancel_def io_bind_def)
qed simp

text \<open>The effect of each kind of line.\<close>

lemma dpkg_line_fields:
  "field_ok ''Package: '' v \<Longrightarrow> dpkg_line apps (''Package: '' @ v) s = s\<lparr>dp_pkg := v\<rparr>"
  "dpkg_line apps (''Status: '' @ v) s = s\<lparr>dp_installed := contains (''Status: '' @ v) ''install ok installed''\<rparr>"
  "field_ok ''Version: '' v \<Longrightarrow> dpkg_line apps (''Version: '' @ v) s = s\<lparr>dp_ver := v\<rparr>"
  "field_ok ''Section: '' v \<Longrightarrow> dpkg_line apps (''Section: '' @ v) s = s\<lparr>dp_section := v\<rparr>"
  "other_ok v \<Longrightarrow> dpkg_line apps v s = s"
  "dpkg_line apps '''' s = (process_package apps s)\<lparr>dp_pkg := '''', dp_ver := '''', dp_section := '''',
     dp_installed := False\<rparr>"
  using trim_start_matches_once [of "''Package: ''" v] trim_start_matches_once [of "''Version: ''" v]
    trim_start_matches_once [of "''Section: ''" v]
  by (simp_all add: dpkg_line_def field_ok_def other_ok_def starts_with_def del: contains.simps)

lemma dpkg_other_lines: "\<forall>l \<in> set ls. other_ok l \<Longrightarrow> fold (dpkg_line apps) ls s = s"
  by (induction ls arbitrary: s) (simp_all add: dpkg_line_fields)

definition between :: "dpkg \<Rightarrow> bool" where
  "between s = (dp_pkg s = '''' \<and> dp_ver s = '''' \<and> dp_section s = '''' \<and> \<not> dp_installed s)"

lemma dpkg_stanza:
  assumes "stanza_ok sa" "between s"
  shows "fold (dpkg_line apps) (stanza_lines sa) s =
    s\<lparr>dp_packages := dp_packages s @ (if apps \<and> stanza_installed sa then [stanza_program sa] else []),
      dp_tools := first_some [dp_tools s, stanza_tools sa]\<rparr>"
  using assms
  by (cases "dp_tools s"; cases "tools_package (sa_name sa)")
     (auto simp: stanza_lines_def stanza_ok_def dpkg_line_fields dpkg_other_lines process_package_def
       stanza_installed_def stanza_program_def stanza_tools_def between_def Let_def
       simp del: contains.simps append_Cons)

lemma first_some_append: "first_some (xs @ ys) = (case first_some xs of None \<Rightarrow> first_some ys | Some a \<Rightarrow> Some a)"
  by (induction xs rule: first_some.induct) auto

lemma dpkg_stanzas:
  assumes "\<forall>sa \<in> set ss. stanza_ok sa" "between s"
  shows "fold (dpkg_line apps) (concat (map stanza_lines ss)) s =
    s\<lparr>dp_packages := dp_packages s @ (if apps then map stanza_program (filter stanza_installed ss) else []),
      dp_tools := first_some (dp_tools s # map stanza_tools ss)\<rparr>"
  using assms
proof (induction ss arbitrary: s)
  case (Cons sa ss)
  let ?s = "s\<lparr>dp_packages := dp_packages s @ (if apps \<and> stanza_installed sa then [stanza_program sa] else []),
      dp_tools := first_some [dp_tools s, stanza_tools sa]\<rparr>"
  have "between ?s" using Cons(3) by (simp add: between_def)
  with Cons(1) [of ?s] Cons(2) have "fold (dpkg_line apps) (concat (map stanza_lines ss)) ?s =
      ?s\<lparr>dp_packages := dp_packages ?s @ (if apps then map stanza_program (filter stanza_installed ss) else []),
        dp_tools := first_some (dp_tools ?s # map stanza_tools ss)\<rparr>" by simp
  moreover have "first_some (dp_tools ?s # map stanza_tools ss) = first_some (dp_tools s # map stanza_tools (sa # ss))"
    using first_some_append [of "[dp_tools s, stanza_tools sa]" "map stanza_tools ss"]
    by (cases "dp_tools s"; cases "stanza_tools sa") simp_all
  ultimately show ?case using dpkg_stanza [of sa s apps] Cons(2,3) by simp
next
  case Nil
  have "first_some [dp_tools s] = dp_tools s" by (cases "dp_tools s") simp_all
  then show ?case by simp
qed

lemma one_line_append: "one_line (s @ t) \<longleftrightarrow> one_line s \<and> one_line t"
  by (auto simp: one_line_def)

lemma one_line_labels:
  "one_line ''Package: ''" "one_line ''Status: ''" "one_line ''Section: ''" "one_line ''Version: ''" "one_line []"
  by code_simp+

lemma stanza_one_line: "stanza_ok s \<Longrightarrow> l \<in> set (stanza_lines s) \<Longrightarrow> one_line l"
  unfolding stanza_lines_def
  by (auto simp: stanza_ok_def field_ok_def other_ok_def one_line_append one_line_labels simp del: append_Cons)

section \<open>Properties\<close>

text \<open>C17. Reading a printed \<^verbatim>\<open>dpkg\<close> status file gives back its packages: in file order exactly the
  stanzas with the status \<^verbatim>\<open>install ok installed\<close>, with their version and section (an empty one is
  absent), whatever other fields the stanzas have; the guest tools are those of the first installed
  package that is known to carry them; without application analysis no package is listed.\<close>

theorem dpkg_status_roundtrip:
  assumes "\<forall>w. \<not> fst (dr_cancelled d w)" and "\<forall>s \<in> set ss. stanza_ok s"
  shows "\<exists>w'. (parse_dpkg_status d (dpkg_text ss) opts w :: (vm_error, _) res \<times> _) =
    (Ok (if should_analyze_apps opts then map stanza_program (filter stanza_installed ss) else [],
       first_some (map stanza_tools ss)), w')"
proof -
  define apps where "apps = should_analyze_apps opts"
  define s where "s = dpkg_start\<lparr>dp_packages := (if apps then map stanza_program (filter stanza_installed ss) else []),
      dp_tools := first_some (map stanza_tools ss)\<rparr>"
  have ls: "lines (dpkg_text ss) = concat (map stanza_lines ss)"
    unfolding dpkg_text_def by (rule lines_unlines) (use assms(2) stanza_one_line in auto)
  have "fold (dpkg_line apps) (lines (dpkg_text ss)) dpkg_start = s"
    using dpkg_stanzas [OF assms(2), of dpkg_start apps] by (simp add: ls s_def between_def dpkg_start_def)
  then obtain w' where "dpkg_lines d apps (lines (dpkg_text ss)) dpkg_start w = (Ok s :: (vm_error, _) res, w')"
    using dpkg_lines_fold [of d apps "lines (dpkg_text ss)" dpkg_start w] assms(1) by auto
  moreover have "process_package apps s = s" by (simp add: process_package_def s_def dpkg_start_def)
  ultimately show ?thesis by (simp add: parse_dpkg_status_def s_def apps_def [symmetric])
qed

definition sample_stanzas :: "stanza list" where
  "sample_stanzas = [
     \<lparr>sa_name = ''libc6'', sa_status = ''install ok installed'', sa_section = ''libs'', sa_version = ''2.35'',
       sa_other = [''Priority: required'']\<rparr>,
     \<lparr>sa_name = ''old'', sa_status = ''deinstall ok config-files'', sa_section = '''', sa_version = ''1'',
       sa_other = []\<rparr>,
     \<lparr>sa_name = ''qemu-guest-agent'', sa_status = ''install ok installed'', sa_section = '''', sa_version = '''',
       sa_other = []\<rparr>]"

theorem dpkg_status_roundtrip_witness:
  "fst (parse_dpkg_status (pure_driver 0 (\<lambda>_. 0)) (dpkg_text sample_stanzas) default_options () :: (vm_error, _) res \<times> _) =
    Ok (map stanza_program [sample_stanzas ! 0, sample_stanzas ! 2], Some (tools ''QEMU Guest Agent'' None))"
proof -
  have "\<forall>s \<in> set sample_stanzas. stanza_ok s" by code_simp
  moreover have "\<forall>w. \<not> fst (dr_cancelled (pure_driver 0 (\<lambda>_. 0)) w)" by (simp add: pure_driver_def)
  ultimately have "fst (parse_dpkg_status (pure_driver 0 (\<lambda>_. 0)) (dpkg_text sample_stanzas) default_options () :: (vm_error, _) res \<times> _) =
      Ok (map stanza_program (filter stanza_installed sample_stanzas), first_some (map stanza_tools sample_stanzas))"
    using dpkg_status_roundtrip [of "pure_driver 0 (\<lambda>_. 0)" sample_stanzas default_options "()"]
    by (auto simp: should_analyze_apps_def default_options_def)
  moreover have "filter stanza_installed sample_stanzas = [sample_stanzas ! 0, sample_stanzas ! 2]" by code_simp
  moreover have "first_some (map stanza_tools sample_stanzas) = Some (tools ''QEMU Guest Agent'' None)" by code_simp
  ultimately show ?thesis by simp
qed

text \<open>The analysis of a Linux guest is a function of the bytes of its disk: over a native reader whose
  reads do not fail it returns what it returns over the plain bytes, for every chunk size up to
  \<open>2 ^ 31\<close>, whatever is cached or evicted on the way and whatever the \<^verbatim>\<open>ext4\<close> crate computes from what it
  reads; and it never returns an error: a partition that cannot be read is passed over.\<close>

theorem linux_analysis_depends_on_bytes:
  assumes "reader_live sz disk rd" and "\<forall>p \<in> set parts. pt_start p + pt_size p \<le> 2 ^ 64" and "chunk \<le> 2 ^ 31"
  shows "(\<exists>rd'. linux_analyze oc (reader_driver oc') x parts chunk opts rd =
      (fst (linux_analyze oc (pure_driver sz disk) x parts 512 opts ()), rd') \<and> reader_live sz disk rd') \<and>
    (\<forall>e. fst (linux_analyze oc (reader_driver oc') x parts chunk opts rd) \<noteq> Err e)"
proof -
  have "similar (twin_worlds (reader_live sz disk)) (linux_analyze oc (reader_driver oc') x parts chunk opts)
      (linux_analyze oc (pure_driver sz disk) x parts 512 opts)"
    using assms(2,3) by (intro live.linux_analyze_similar) auto
  then obtain r rd' u where "linux_analyze oc (reader_driver oc') x parts chunk opts rd = (r, rd')"
      "linux_analyze oc (pure_driver sz disk) x parts 512 opts () = (r, u)" "twin_worlds (reader_live sz disk) rd' u"
    by (rule similarE [where s = rd and t = "()"]) (use assms(1) in \<open>simp_all add: twin_worlds_def\<close>)
  then show ?thesis
    using linux_analyze_no_err [of oc "reader_driver oc'" x parts chunk opts] by (auto simp: twin_worlds_def no_err_def)
qed

text \<open>A crate that accepts a disk whose second byte is 9 and finds one file on it.\<close>

definition sample_ext4 :: "(unit, nat, nat) ext4_crate" where
  "sample_ext4 = \<lparr>
     sb_new = ReadAt 1 [0] (\<lambda>r. Return (if r = Inr (1, [9]) then Ok () else Err ''bad magic'')),
     sb_resolve_path = (\<lambda>_ p. Return (if p = ''/etc/hostname'' then Ok 7 else Err ''not found'')),
     sb_load_inode = (\<lambda>_ n. Return (Ok n)), sb_open = (\<lambda>_ n. Return (Ok n)),
     rd_read_to_end = (\<lambda>_. Return (Ok [118, 109]))\<rparr>"

definition sample_partition :: partition where
  "sample_partition = \<lparr>pt_index = 0, pt_start = 0, pt_size = 3, pt_kind = ''0x83'', pt_file_system = Ext4,
     pt_label = None\<rparr>"

theorem linux_analysis_depends_on_bytes_witness:
  "\<exists>a rd'. linux_analyze True (reader_driver True) sample_ext4 [sample_partition] 4096 default_options sample_reader =
    (Ok a, rd') \<and> os_edition (ar_guest_info a) = ''Host: vm''"
proof -
  have "reader_live 3 (reader_byte sample_reader) sample_reader"
    using sample_reader_inv by (simp add: reader_live_def sample_reader_def extents_live_def)
  then obtain rd' where "linux_analyze True (reader_driver True) sample_ext4 [sample_partition] 4096 default_options
      sample_reader = (fst (linux_analyze True (pure_driver 3 (reader_byte sample_reader)) sample_ext4
        [sample_partition] 512 default_options ()), rd')"
    using linux_analysis_depends_on_bytes [of 3 "reader_byte sample_reader" sample_reader "[sample_partition]" 4096
        True True sample_ext4 default_options] by (auto simp: sample_partition_def)
  moreover have "case fst (linux_analyze True (pure_driver 3 (reader_byte sample_reader)) sample_ext4
      [sample_partition] 512 default_options ()) of Ok a \<Rightarrow> os_edition (ar_guest_info a) = ''Host: vm'' | _ \<Rightarrow> False"
    by code_simp
  ultimately show ?thesis by (auto split: res.splits)
qed

end
