(* ===== verification/Registry.thy ===== *)
theory Registry
  imports Disk_Program Program_List
begin

text \<open>
  \<open>src/parsers/windows.rs\<close>, the Registry: opening a hive with recovery, finding keys and values,
  guest information, guest tools and installed programs.

  The \<^verbatim>\<open>nt-hive\<close> crate is the parameter \<open>h\<close>.  Its iterators are finite lists whose elements are results,
  consumed from the front, so an element that is an error is skipped (\<^verbatim>\<open>flatten\<close>) and an element that
  panics does so only when it is reached.  Every call may panic; \<open>catch_unwind\<close> turns the panic of a
  whole analysis into a value.  The cancellation flag is loaded in the driver's world.
\<close>

section \<open>The crate\<close>

record ('h, 'k, 'v) hive_crate =
  hv_new :: "bytes \<Rightarrow> (string, 'h) res"
  hv_without_validation :: "bytes \<Rightarrow> (string, 'h) res"
  hv_root_key_node :: "'h \<Rightarrow> (string, 'k) res"
  kn_name :: "'k \<Rightarrow> (string, string) res"
  kn_subkeys :: "'k \<Rightarrow> (string, (string, 'k) res list) res option"
  kn_values :: "'k \<Rightarrow> (string, (string, 'v) res list) res option"
  kv_name :: "'v \<Rightarrow> (string, string) res"
  kv_data :: "'v \<Rightarrow> (string, bytes) res"

text \<open>\<open>if let Some(Ok(items)) = ..\<close>: nothing is iterated otherwise.\<close>

definition items :: "(string, 'a list) res option \<Rightarrow> ('e, 'a list) res" where
  "items r = (case r of Some (Ok xs) \<Rightarrow> Ok xs | Some Panic \<Rightarrow> Panic | _ \<Rightarrow> Ok [])"

text \<open>A loop over \<open>items.flatten()\<close> that goes on as long as its body has no answer.\<close>

fun first_answer :: "('a \<Rightarrow> ('e, 'b option) res) \<Rightarrow> (string, 'a) res list \<Rightarrow> ('e, 'b option) res" where
  "first_answer f [] = Ok None"
| "first_answer f (Ok a # as) = and_then (f a) (\<lambda>r. case r of Some b \<Rightarrow> Ok (Some b) | None \<Rightarrow> first_answer f as)"
| "first_answer f (Err _ # as) = first_answer f as"
| "first_answer f (Panic # as) = Panic"

section \<open>Values\<close>

definition decode_value :: "bytes \<Rightarrow> string option" where
  "decode_value bs = (if bs = [] then None
     else non_empty (trim (trim_matches (\<lambda>c. c = CHR 0x00) (utf16_lossy (chunks2 bs)))))"

definition convert_value_to_string :: "('h, 'k, 'v) hive_crate \<Rightarrow> 'v \<Rightarrow> ('e, string option) res" where
  "convert_value_to_string h v = (case kv_data h v of
       Ok bs \<Rightarrow> Ok (decode_value bs) | Err _ \<Rightarrow> Ok None | Panic \<Rightarrow> Panic)"

text \<open>The value is answered by the first one with the name, even when it has no text.\<close>

definition named_value :: "('h, 'k, 'v) hive_crate \<Rightarrow> string \<Rightarrow> 'v \<Rightarrow> ('e, string option option) res" where
  "named_value h field v = (case kv_name h v of
       Ok n \<Rightarrow> if eq_ignore_ascii_case n field then and_then (convert_value_to_string h v) (\<lambda>s. Ok (Some s)) else Ok None
     | Err _ \<Rightarrow> Ok None
     | Panic \<Rightarrow> Panic)"

definition read_value_from_key :: "('h, 'k, 'v) hive_crate \<Rightarrow> 'k \<Rightarrow> string \<Rightarrow> ('e, string option) res" where
  "read_value_from_key h k field = and_then (items (kn_values h k)) (\<lambda>vs.
     and_then (first_answer (named_value h field) vs) (\<lambda>r. Ok (Option.bind r (\<lambda>s. s))))"

text \<open>A chain of \<open>or_else\<close> over several fields.\<close>

fun read_any :: "('h, 'k, 'v) hive_crate \<Rightarrow> 'k \<Rightarrow> string list \<Rightarrow> ('e, string option) res" where
  "read_any h k [] = Ok None"
| "read_any h k (f # fs) = and_then (read_value_from_key h k f) (\<lambda>r. case r of
       Some s \<Rightarrow> Ok (Some s) | None \<Rightarrow> read_any h k fs)"

section \<open>Keys\<close>

definition named_key :: "('h, 'k, 'v) hive_crate \<Rightarrow> string \<Rightarrow> 'k \<Rightarrow> ('e, 'k option) res" where
  "named_key h segment k = (case kn_name h k of
       Ok n \<Rightarrow> Ok (if eq_ignore_ascii_case n segment then Some k else None)
     | Err _ \<Rightarrow> Ok None
     | Panic \<Rightarrow> Panic)"

fun find_segments :: "('h, 'k, 'v) hive_crate \<Rightarrow> 'k \<Rightarrow> string list \<Rightarrow> ('e, 'k option) res" where
  "find_segments h k [] = Ok (Some k)"
| "find_segments h k (s # ss) = and_then (items (kn_subkeys h k)) (\<lambda>ks.
     and_then (first_answer (named_key h s) ks) (\<lambda>r. case r of
       None \<Rightarrow> Ok None | Some k' \<Rightarrow> find_segments h k' ss))"

definition backslash :: char where
  "backslash = CHR 0x5C"

definition find_key_by_path :: "('h, 'k, 'v) hive_crate \<Rightarrow> 'k \<Rightarrow> string \<Rightarrow> ('e, 'k option) res" where
  "find_key_by_path h root p = find_segments h root (split_on backslash p)"

definition reg_path :: "string list \<Rightarrow> string" where
  "reg_path ss = join_with [backslash] ss"

section \<open>Opening a hive\<close>

definition open_hive_with_recovery ::
    "('h, 'k, 'v) hive_crate \<Rightarrow> bytes \<Rightarrow> bool \<Rightarrow> (string, 'h \<times> string option) res" where
  "open_hive_with_recovery h bs logs_present = (case hv_new h bs of
       Ok hive \<Rightarrow> Ok (hive, None)
     | Panic \<Rightarrow> Panic
     | Err original_error \<Rightarrow> and_then (hv_without_validation h bs) (\<lambda>hive.
         Ok (hive, Some (''Hive with damaged/dirty header ('' @ original_error @ ''): ''
           @ (if logs_present
              then ''transactional .LOG1/.LOG2 files were detected alongside the hive, but the Registry parser (nt-hive) cannot replay their contents''
              else ''no transactional .LOG1/.LOG2 files were found alongside the hive to attempt replaying pending changes'')
           @ ''; permissive read mode (no header validation) was activated to recover the keys still intact in the primary file''))))"

section \<open>Guest tools\<close>

text \<open>
  \<open>str::to_lowercase\<close> on UTF-8 text.  Apart from the ASCII letters only the Kelvin sign and the
  dotted capital I have lower-case forms with an ASCII character; the other characters keep their
  bytes here, which no ASCII needle can match before or after.
\<close>

fun lowercase :: "string \<Rightarrow> string" where
  "lowercase [] = []"
| "lowercase (c # cs) =
     (if code c = 0xE2 \<and> take 2 (map code cs) = [0x84, 0xAA] then ''k'' @ lowercase (drop 2 cs)
      else if code c = 0xC4 \<and> take 1 (map code cs) = [0xB0] then ''i'' @ map char_of [0xCC, 0x87 :: nat] @ lowercase (drop 1 cs)
      else ascii_lower c # lowercase cs)"

definition tools_display_name :: "string \<Rightarrow> string option" where
  "tools_display_name name = (let n = lowercase name in
     if contains n ''vmware tools'' then Some ''VMware Tools''
     else if contains n ''virtualbox guest additions'' \<or> contains n ''oracle vm virtualbox guest additions''
       then Some ''VirtualBox Guest Additions''
     else if contains n ''qemu guest agent'' \<or> contains n ''virtio'' \<or> contains n ''red hat virtio''
       then Some ''QEMU Guest Agent''
     else if contains n ''hyper-v integration services'' \<or> contains n ''hyper-v guest components''
       then Some ''Hyper-V Integration Services''
     else None)"

definition classify_guest_tools_key :: "('h, 'k, 'v) hive_crate \<Rightarrow> 'k \<Rightarrow> ('e, guest_tools option) res" where
  "classify_guest_tools_key h k = and_then (read_value_from_key h k ''DisplayName'') (\<lambda>r. case r of
       None \<Rightarrow> Ok None
     | Some name \<Rightarrow> and_then (read_value_from_key h k ''DisplayVersion'') (\<lambda>ver.
         Ok (map_option (\<lambda>kind. tools kind ver) (tools_display_name name))))"

text \<open>The keys of the vendors, in the order they are tried, with the fields that hold a version.\<close>

definition tools_keys :: "(string \<times> string list \<times> string list) list" where
  "tools_keys =
     (let wow = (\<lambda>kind ps flds. map (\<lambda>p. (kind, p, flds)) ps) in
      wow ''VMware Tools'' [[''VMware, Inc.'', ''VMware Tools''], [''WOW6432Node'', ''VMware, Inc.'', ''VMware Tools'']]
        [''InstallVersion'', ''Version''] @
      wow ''VirtualBox Guest Additions'' [[''Oracle'', ''VirtualBox Guest Additions''],
          [''WOW6432Node'', ''Oracle'', ''VirtualBox Guest Additions'']] [''Version''] @
      wow ''QEMU Guest Agent'' [[''QEMU Guest Agent''], [''WOW6432Node'', ''QEMU Guest Agent''],
          [''Red Hat'', ''VirtIO''], [''WOW6432Node'', ''Red Hat'', ''VirtIO''], [''Red Hat'', ''Virtio''],
          [''WOW6432Node'', ''Red Hat'', ''Virtio'']] [''Version'', ''DisplayVersion'', ''InstallVersion''] @
      wow ''Hyper-V Integration Services'' [[''Microsoft'', ''Virtual Machine'', ''Auto''],
          [''WOW6432Node'', ''Microsoft'', ''Virtual Machine'', ''Auto''],
          [''Microsoft'', ''Virtual Machine'', ''Guest'', ''Parameters'']] [''IntegrationServicesVersion'', ''Version''])"

fun tools_by_key :: "('h, 'k, 'v) hive_crate \<Rightarrow> 'k \<Rightarrow> (string \<times> string list \<times> string list) list
    \<Rightarrow> ('e, guest_tools option) res" where
  "tools_by_key h root [] = Ok None"
| "tools_by_key h root ((kind, p, flds) # rest) = and_then (find_key_by_path h root (reg_path p)) (\<lambda>r. case r of
       Some k \<Rightarrow> and_then (read_any h k flds) (\<lambda>ver. Ok (Some (tools kind ver)))
     | None \<Rightarrow> tools_by_key h root rest)"

definition products_path :: string where
  "products_path = reg_path [''Microsoft'', ''Windows'', ''CurrentVersion'', ''Installer'', ''UserData'', ''S-1-5-18'', ''Products'']"

definition uninstall_paths :: "string list" where
  "uninstall_paths = [reg_path [''Microsoft'', ''Windows'', ''CurrentVersion'', ''Uninstall''],
     reg_path [''WOW6432Node'', ''Microsoft'', ''Windows'', ''CurrentVersion'', ''Uninstall'']]"

text \<open>\<open>for subkey in subkeys.flatten()\<close> below the key at a path, until one gives tools.\<close>

definition tools_below :: "('h, 'k, 'v) hive_crate \<Rightarrow> 'k \<Rightarrow> ('k \<Rightarrow> ('e, guest_tools option) res) \<Rightarrow> string
    \<Rightarrow> ('e, guest_tools option) res" where
  "tools_below h root f p = and_then (find_key_by_path h root p) (\<lambda>r. case r of
       None \<Rightarrow> Ok None
     | Some k \<Rightarrow> and_then (items (kn_subkeys h k)) (first_answer f))"

definition classify_product :: "('h, 'k, 'v) hive_crate \<Rightarrow> 'k \<Rightarrow> ('e, guest_tools option) res" where
  "classify_product h k = and_then (find_key_by_path h k ''InstallProperties'') (\<lambda>r. case r of
       None \<Rightarrow> Ok None | Some p \<Rightarrow> classify_guest_tools_key h p)"

definition or_tools :: "('e, 'a option) res \<Rightarrow> ('e, 'a option) res \<Rightarrow> ('e, 'a option) res" where
  "or_tools r r' = and_then r (\<lambda>t. case t of Some a \<Rightarrow> Ok (Some a) | None \<Rightarrow> r')"

definition extract_guest_tools_software :: "('h, 'k, 'v) hive_crate \<Rightarrow> 'k \<Rightarrow> ('e, guest_tools option) res" where
  "extract_guest_tools_software h root = or_tools (tools_by_key h root tools_keys)
     (or_tools (tools_below h root (classify_product h) products_path)
     (or_tools (tools_below h root (classify_guest_tools_key h) (uninstall_paths ! 0))
       (tools_below h root (classify_guest_tools_key h) (uninstall_paths ! 1))))"

section \<open>Guest information\<close>

definition os_value :: "('h, 'k, 'v) hive_crate \<Rightarrow> 'v \<Rightarrow> guest_info \<Rightarrow> ('e, guest_info) res" where
  "os_value h v g = (case kv_name h v of
       Err _ \<Rightarrow> Ok g
     | Panic \<Rightarrow> Panic
     | Ok n \<Rightarrow>
         (let text_or_keep = (\<lambda>upd. and_then (convert_value_to_string h v) (\<lambda>r. Ok (case r of Some s \<Rightarrow> upd s | None \<Rightarrow> g)));
              is = eq_ignore_ascii_case n
          in if is ''ProductName'' then text_or_keep (\<lambda>s. g\<lparr>os_name := s\<rparr>)
             else if (is ''DisplayVersion'' \<or> is ''ReleaseId'') \<and> os_edition g = '''' then text_or_keep (\<lambda>s. g\<lparr>os_edition := s\<rparr>)
             else if is ''CSDVersion'' then text_or_keep (\<lambda>s. g\<lparr>os_service_pack := s\<rparr>)
             else if (is ''CurrentBuild'' \<or> is ''CurrentBuildNumber'') \<and> os_build g = '''' then text_or_keep (\<lambda>s. g\<lparr>os_build := s\<rparr>)
             else Ok g))"

fun os_values :: "('h, 'k, 'v) hive_crate \<Rightarrow> (string, 'v) res list \<Rightarrow> guest_info \<Rightarrow> ('e, guest_info) res" where
  "os_values h [] g = Ok g"
| "os_values h (Ok v # vs) g = and_then (os_value h v g) (os_values h vs)"
| "os_values h (Err _ # vs) g = os_values h vs g"
| "os_values h (Panic # vs) g = Panic"

definition extract_guest_info :: "('h, 'k, 'v) hive_crate \<Rightarrow> 'k \<Rightarrow> ('e, guest_info) res" where
  "extract_guest_info h root =
     and_then (find_key_by_path h root (reg_path [''Microsoft'', ''Windows NT'', ''CurrentVersion''])) (\<lambda>r.
     and_then (case r of None \<Rightarrow> Ok default_guest_info
       | Some k \<Rightarrow> and_then (items (kn_values h k)) (\<lambda>vs. os_values h vs default_guest_info)) (\<lambda>g.
     and_then (extract_guest_tools_software h root) (\<lambda>ts.
       Ok ((if os_name g = '''' then g\<lparr>os_name := ''Windows (Unknown edition)''\<rparr> else g)\<lparr>guest_tools_of := ts\<rparr>))))"

section \<open>Installed programs\<close>

definition program_of_key :: "('h, 'k, 'v) hive_crate \<Rightarrow> 'k \<Rightarrow> ('e, program option) res" where
  "program_of_key h k = and_then (read_value_from_key h k ''DisplayName'') (\<lambda>r. case r of
       None \<Rightarrow> Ok None
     | Some name \<Rightarrow> and_then (read_value_from_key h k ''Publisher'') (\<lambda>pub.
         and_then (read_value_from_key h k ''DisplayVersion'') (\<lambda>ver.
           Ok (Some \<lparr>pg_name = name, pg_version = ver,
             pg_publisher = non_empty (case pub of Some s \<Rightarrow> s | None \<Rightarrow> ''''), pg_source = None\<rparr>))))"

fun extract_programs_from_subkeys :: "'w driver \<Rightarrow> ('h, 'k, 'v) hive_crate \<Rightarrow> (string, 'k) res list \<Rightarrow> program list
    \<Rightarrow> ('w, 'e, program list) io" where
  "extract_programs_from_subkeys d h [] out = io_ret out"
| "extract_programs_from_subkeys d h (Ok k # ks) out = io_bind (load_cancel d) (\<lambda>c.
     if c then io_ret out
     else io_bind (io_lift (program_of_key h k)) (\<lambda>r.
       extract_programs_from_subkeys d h ks (out @ (case r of Some p \<Rightarrow> [p] | None \<Rightarrow> []))))"
| "extract_programs_from_subkeys d h (Err _ # ks) out = extract_programs_from_subkeys d h ks out"
| "extract_programs_from_subkeys d h (Panic # ks) out = io_lift Panic"

fun programs_below :: "'w driver \<Rightarrow> ('h, 'k, 'v) hive_crate \<Rightarrow> 'k \<Rightarrow> string list \<Rightarrow> program list \<Rightarrow> ('w, 'e, program list) io" where
  "programs_below d h root [] out = io_ret out"
| "programs_below d h root (p # ps) out = io_bind (io_lift (find_key_by_path h root p)) (\<lambda>r. case r of
       None \<Rightarrow> programs_below d h root ps out
     | Some k \<Rightarrow> io_bind (io_lift (items (kn_subkeys h k))) (\<lambda>ks.
         io_bind (extract_programs_from_subkeys d h ks out) (programs_below d h root ps)))"

definition search_programs_in_registry :: "'w driver \<Rightarrow> ('h, 'k, 'v) hive_crate \<Rightarrow> 'k \<Rightarrow> ('w, 'e, program list) io" where
  "search_programs_in_registry d h root = io_bind (programs_below d h root uninstall_paths []) (\<lambda>ps. io_ret (sort_and_dedup ps))"

section \<open>The hives\<close>

definition try_analyze_software :: "'w driver \<Rightarrow> ('h, 'k, 'v) hive_crate \<Rightarrow> bytes \<Rightarrow> options \<Rightarrow> bool
    \<Rightarrow> ('w, vm_error, guest_info \<times> program list \<times> string option) io" where
  "try_analyze_software d h bs opts logs =
     io_bind (io_lift (map_err WindowsRegistry (open_hive_with_recovery h bs logs))) (\<lambda>(hive, notice).
     io_bind (io_lift (map_err WindowsRegistry (hv_root_key_node h hive))) (\<lambda>root.
     io_bind (if should_analyze_system opts then io_lift (extract_guest_info h root) else io_ret default_guest_info) (\<lambda>g.
     io_bind (if should_analyze_apps opts then search_programs_in_registry d h root else io_ret []) (\<lambda>ps.
       io_ret (g, ps, notice)))))"

definition service_kinds :: "(string \<times> string list) list" where
  "service_kinds = [
     (''VMware Tools'', [''VMTools'', ''vmvss'', ''vmusbmouse'', ''vmx_svga'', ''pvscsi'', ''vmxnet3'']),
     (''VirtualBox Guest Additions'', [''VBoxGuest'', ''VBoxService'', ''VBoxMouse'', ''VBoxSF'', ''VBoxVideo'', ''VBoxWddm'']),
     (''QEMU Guest Agent'', [''QEMU-GA'', ''qemu-ga'', ''viostor'', ''netkvm'', ''vioscsi'', ''vioserial'', ''viorng'', ''balloon'']),
     (''Hyper-V Integration Services'', [''vmbus'', ''hypervkvp'', ''hv_kvp'', ''vmicheartbeat'', ''vmicshutdown'',
       ''vmictimesync'', ''vmicvss'', ''vmicrdv''])]"

definition service_keys :: "(string \<times> string list \<times> string list) list" where
  "service_keys = concat (map (\<lambda>prefix. concat (map (\<lambda>(kind, services).
       map (\<lambda>srv. (kind, [prefix, ''Services'', srv], [''Version'', ''DriverVersion''])) services) service_kinds))
     [''ControlSet001'', ''ControlSet002'', ''CurrentControlSet''])"

definition try_detect_guest_tools_in_system :: "('h, 'k, 'v) hive_crate \<Rightarrow> bytes \<Rightarrow> bool
    \<Rightarrow> (vm_error, guest_tools option \<times> string option) res" where
  "try_detect_guest_tools_in_system h bs logs =
     and_then (map_err WindowsRegistry (open_hive_with_recovery h bs logs)) (\<lambda>(hive, notice).
     and_then (map_err WindowsRegistry (hv_root_key_node h hive)) (\<lambda>root.
     and_then (tools_by_key h root service_keys) (\<lambda>ts. Ok (ts, notice))))"

record hives =
  hs_software :: bytes
  hs_system :: "bytes option"
  hs_software_logs_present :: bool
  hs_system_logs_present :: bool
  hs_warnings :: "string list"

definition inaccessible_name :: string where
  "inaccessible_name = ''Windows (dirty / inaccessible Registry)''"

definition of_notice :: "string option \<Rightarrow> string list" where
  "of_notice n = (case n of Some m \<Rightarrow> [m] | None \<Rightarrow> [])"

text \<open>What the analysis of the SOFTWARE hive leaves: information, programs, warnings and whether the
  file system must be consulted.\<close>

definition software_outcome :: "(vm_error + guest_info \<times> program list \<times> string option) option
    \<Rightarrow> guest_info \<times> program list \<times> string list \<times> bool" where
  "software_outcome r = (case r of
       Some (Inr (g, ps, notice)) \<Rightarrow> (g, ps, of_notice notice, False)
     | Some (Inl e) \<Rightarrow> (default_guest_info\<lparr>os_name := inaccessible_name\<rparr>, [],
         [''SOFTWARE hive corrupt or inaccessible (dirty Registry): '' @ display_error e], True)
     | None \<Rightarrow> (default_guest_info\<lparr>os_name := inaccessible_name\<rparr>, [],
         [''SOFTWARE hive severely damaged: the Registry parser failed irrecoverably (dirty Registry)''], True))"

definition system_outcome :: "(vm_error + guest_tools option \<times> string option) option \<Rightarrow> guest_tools option \<times> string list" where
  "system_outcome r = (case r of
       Some (Inr (ts, notice)) \<Rightarrow> (ts, of_notice notice)
     | Some (Inl e) \<Rightarrow> (None, [''SYSTEM hive corrupt or inaccessible (dirty Registry): '' @ display_error e])
     | None \<Rightarrow> (None, [''SYSTEM hive severely damaged: the Registry parser failed irrecoverably (dirty Registry)'']))"

definition analyze_hives :: "'w driver \<Rightarrow> ('h, 'k, 'v) hive_crate \<Rightarrow> hives \<Rightarrow> options
    \<Rightarrow> ('w, vm_error, analysis_result \<times> bool) io" where
  "analyze_hives d h hs opts =
     io_bind (catch_unwind (try_analyze_software d h (hs_software hs) opts (hs_software_logs_present hs))) (\<lambda>r.
       (case software_outcome r of (g, ps, ws, fallback) \<Rightarrow>
          (case (if should_analyze_system opts \<and> guest_tools_of g = None then hs_system hs else None) of
             None \<Rightarrow> io_ret (\<lparr>ar_guest_info = g, ar_programs = ps, ar_warnings = hs_warnings hs @ ws\<rparr>, fallback)
           | Some sys \<Rightarrow>
               io_bind (catch_unwind (io_lift (try_detect_guest_tools_in_system h sys (hs_system_logs_present hs)))) (\<lambda>r'.
                 (case system_outcome r' of (ts, ws') \<Rightarrow>
                    io_ret (\<lparr>ar_guest_info = g\<lparr>guest_tools_of := ts\<rparr>, ar_programs = ps,
                      ar_warnings = hs_warnings hs @ ws @ ws'\<rparr>, fallback))))))"

section \<open>Laws\<close>

context reliable_driver
begin

lemma extract_programs_similar [similar_rules]:
  "similar (twin_worlds inv) (extract_programs_from_subkeys d h ks out) (extract_programs_from_subkeys ref h ks out)"
proof (induction ks arbitrary: out)
  case (Cons k ks)
  then show ?case by (cases k) (auto intro!: similar_rules)
qed (auto intro: similar_rules)

lemma programs_below_similar [similar_rules]:
  "similar (twin_worlds inv) (programs_below d h root ps out) (programs_below ref h root ps out)"
  by (induction ps arbitrary: out) (auto intro!: similar_rules)

lemma analyze_hives_similar [similar_rules]:
  "similar (twin_worlds inv) (analyze_hives d h hs opts) (analyze_hives ref h hs opts)"
  unfolding analyze_hives_def try_analyze_software_def search_programs_in_registry_def
  by (intro similar_rules)

end

context vm_driver
begin

lemma keeps_extract_programs [keeps_rules]: "keeps inv (extract_programs_from_subkeys d h ks out)"
proof (induction ks arbitrary: out)
  case (Cons k ks)
  then show ?case by (cases k) (auto intro!: keeps_rules no_panic_keeps [OF no_panic_load_cancel])
qed (auto intro: keeps_rules)

lemma keeps_programs_below [keeps_rules]: "keeps inv (programs_below d h root ps out)"
  by (induction ps arbitrary: out) (auto intro!: keeps_rules)

lemma no_panic_analyze_hives [no_panic_rules]: "no_panic inv (analyze_hives d h hs opts)"
  unfolding analyze_hives_def try_analyze_software_def search_programs_in_registry_def
  by (intro no_panic_rules keeps_rules)

end

lemma no_err_analyze_hives [no_err_rules]: "no_err (analyze_hives d h hs opts)"
  unfolding analyze_hives_def by (intro no_err_rules)

section \<open>Text values\<close>

text \<open>The UTF-16 encoding of a text given by its code points, as a REG\_SZ value stores it.\<close>

definition scalar :: "nat \<Rightarrow> bool" where
  "scalar u = (u < 0xD800 \<or> 0xE000 \<le> u \<and> u < 0x110000)"

definition utf16_units :: "nat \<Rightarrow> nat list" where
  "utf16_units u = (if u < 0x10000 then [u]
     else [0xD800 + (u - 0x10000) div 1024, 0xDC00 + (u - 0x10000) mod 1024])"

definition value_bytes :: "nat list \<Rightarrow> bytes" where
  "value_bytes us = concat (map (le_bytes 2) (concat (map utf16_units us)))"

definition text_of :: "nat list \<Rightarrow> string" where
  "text_of us = map char_of (concat (map utf8_encode us))"

lemma utf16_points_units: "\<forall>u \<in> set us. scalar u \<Longrightarrow> utf16_points (concat (map utf16_units us)) = us"
proof (induction us)
  case (Cons u us)
  then have IH: "utf16_points (concat (map utf16_units us)) = us" and u: "scalar u" by simp_all
  show ?case
  proof (cases "u < 0x10000")
    case True
    then show ?thesis using IH u by (auto simp: utf16_units_def [of u] scalar_def)
  next
    case False
    then have "(u - 0x10000) div 1024 < 1024" using u by (auto simp: scalar_def)
    moreover have "0x10000 + (u - 0x10000) div 1024 * 1024 + (u - 0x10000) mod 1024 = u"
      using False by (metis add.assoc div_mult_mod_eq le_add_diff_inverse not_less)
    ultimately show ?thesis using False IH by (simp add: utf16_units_def [of u])
  qed
qed simp

lemma utf16_units_small: "scalar u \<Longrightarrow> v \<in> set (utf16_units u) \<Longrightarrow> v < 65536"
  by (auto simp: utf16_units_def scalar_def split: if_splits)

lemma chunks2_le_bytes: "\<forall>v \<in> set vs. v < 65536 \<Longrightarrow> chunks2 (concat (map (le_bytes 2) vs)) = vs"
proof (induction vs)
  case (Cons v vs)
  have "le_nat (le_bytes 2 v) = v" using Cons(2) by (simp add: le_nat_le_bytes)
  then show ?case using Cons by (simp add: numeral_2_eq_2)
qed simp

lemma chunks2_value_bytes:
  assumes "\<forall>u \<in> set us. scalar u"
  shows "utf16_lossy (chunks2 (value_bytes us)) = text_of us"
proof -
  have "chunks2 (value_bytes us) = concat (map utf16_units us)"
    unfolding value_bytes_def using assms utf16_units_small by (intro chunks2_le_bytes) auto
  then show ?thesis using utf16_points_units [OF assms] by (simp add: utf16_lossy_def text_of_def)
qed

lemma trim_matches_end:
  assumes "s \<noteq> []" "\<not> P (hd s)" "\<not> P (last s)" "P c"
  shows "trim_matches P (s @ [c]) = s" "trim_matches P s = s"
proof -
  have "dropWhile P (s @ t) = s @ t" for t using assms(1,2) by (cases s) auto
  moreover have "dropWhile P (rev s) = rev s" using assms(1,3) by (cases s rule: rev_cases) auto
  moreover from this have "dropWhile P (rev (s @ [c])) = rev s" using assms(4) by simp
  ultimately show "trim_matches P (s @ [c]) = s" "trim_matches P s = s"
    using \<open>\<And>t. dropWhile P (s @ t) = s @ t\<close> [of "[]"] by (simp_all add: trim_matches_def)
qed

section \<open>Intact hives\<close>

text \<open>An intact hive is a tree of keys; the crate answers from the tree.\<close>

datatype reg = Reg (rg_name: string) (rg_values: "(string \<times> bytes) list") (rg_subkeys: "reg list")

definition tree_hive :: "reg \<Rightarrow> (unit, reg, string \<times> bytes) hive_crate" where
  "tree_hive root = \<lparr>hv_new = (\<lambda>_. Ok ()), hv_without_validation = (\<lambda>_. Ok ()), hv_root_key_node = (\<lambda>_. Ok root),
     kn_name = (\<lambda>k. Ok (rg_name k)), kn_subkeys = (\<lambda>k. Some (Ok (map Ok (rg_subkeys k)))),
     kn_values = (\<lambda>k. Some (Ok (map Ok (rg_values k)))), kv_name = (\<lambda>v. Ok (fst v)), kv_data = (\<lambda>v. Ok (snd v))\<rparr>"

fun reg_find :: "reg \<Rightarrow> string list \<Rightarrow> reg option" where
  "reg_find k [] = Some k"
| "reg_find k (s # ss) = Option.bind (List.find (\<lambda>k'. eq_ignore_ascii_case (rg_name k') s) (rg_subkeys k)) (\<lambda>k'. reg_find k' ss)"

definition reg_value :: "reg \<Rightarrow> string \<Rightarrow> string option" where
  "reg_value k field = Option.bind (List.find (\<lambda>v. eq_ignore_ascii_case (fst v) field) (rg_values k)) (\<lambda>v. decode_value (snd v))"

definition reg_program :: "reg \<Rightarrow> program option" where
  "reg_program k = map_option (\<lambda>name. \<lparr>pg_name = name, pg_version = reg_value k ''DisplayVersion'',
     pg_publisher = reg_value k ''Publisher'', pg_source = None\<rparr>) (reg_value k ''DisplayName'')"

definition reg_subkeys_at :: "reg \<Rightarrow> string list \<Rightarrow> reg list" where
  "reg_subkeys_at root p = (case reg_find root p of Some k \<Rightarrow> rg_subkeys k | None \<Rightarrow> [])"

lemma first_answer_pure:
  "first_answer (\<lambda>a. Ok (if Q a then Some (g a) else None)) (map Ok xs) = Ok (map_option g (List.find Q xs))"
  by (induction xs) auto

lemma named_key_tree:
  "named_key (tree_hive root) s = (\<lambda>k. Ok (if eq_ignore_ascii_case (rg_name k) s then Some ((\<lambda>x. x) k) else None))"
  by (simp add: named_key_def tree_hive_def fun_eq_iff)

lemma named_value_tree:
  "named_value (tree_hive root) field =
    (\<lambda>v. Ok (if eq_ignore_ascii_case (fst v) field then Some (decode_value (snd v)) else None))"
  by (auto simp: named_value_def convert_value_to_string_def tree_hive_def fun_eq_iff)

lemma find_segments_tree: "find_segments (tree_hive root) k ss = Ok (reg_find k ss)"
proof (induction ss arbitrary: k)
  case (Cons s ss)
  have "(first_answer (named_key (tree_hive root) s) (map Ok (rg_subkeys k)) :: ('a, _) res) =
      Ok (List.find (\<lambda>k'. eq_ignore_ascii_case (rg_name k') s) (rg_subkeys k))"
    by (simp only: named_key_tree first_answer_pure option.map_ident)
  moreover have "items (kn_subkeys (tree_hive root) k) = (Ok (map Ok (rg_subkeys k)) :: ('a, _) res)"
    by (simp add: items_def tree_hive_def)
  ultimately show ?case using Cons
    by (cases "List.find (\<lambda>k'. eq_ignore_ascii_case (rg_name k') s) (rg_subkeys k)") simp_all
qed simp

lemma read_value_tree: "read_value_from_key (tree_hive root) k field = Ok (reg_value k field)"
proof -
  have "(first_answer (named_value (tree_hive root) field) (map Ok (rg_values k)) :: ('a, _) res) =
      Ok (map_option (\<lambda>v. decode_value (snd v)) (List.find (\<lambda>v. eq_ignore_ascii_case (fst v) field) (rg_values k)))"
    by (simp only: named_value_tree first_answer_pure)
  moreover have "items (kn_values (tree_hive root) k) = (Ok (map Ok (rg_values k)) :: ('a, _) res)"
    by (simp add: items_def tree_hive_def)
  ultimately show ?thesis by (simp add: read_value_from_key_def reg_value_def bind_map_option comp_def)
qed

lemma decode_value_nonempty: "decode_value bs \<noteq> Some []"
  by (simp add: decode_value_def non_empty_def)

lemma reg_value_nonempty: "reg_value k field \<noteq> Some []"
  by (auto simp: reg_value_def bind_eq_Some_conv decode_value_nonempty)

lemma program_of_tree: "program_of_key (tree_hive root) k = Ok (reg_program k)"
  using reg_value_nonempty [of k "''Publisher''"]
  by (auto simp: program_of_key_def read_value_tree reg_program_def non_empty_def split: option.splits)

lemma extract_programs_tree:
  assumes "\<And>w. \<not> fst (dr_cancelled d w)"
  shows "\<exists>w'. extract_programs_from_subkeys d (tree_hive root) (map Ok ks) out w =
    (Ok (out @ List.map_filter reg_program ks), w')"
proof (induction ks arbitrary: out w)
  case (Cons k ks)
  obtain w1 where "dr_cancelled d w = (False, w1)" using assms [of w] by (cases "dr_cancelled d w") auto
  then show ?case
    using Cons [of "out @ (case reg_program k of Some p \<Rightarrow> [p] | None \<Rightarrow> [])" w1]
    by (auto simp: load_cancel_def io_bind_def program_of_tree map_filter_simps split: option.splits)
qed (simp add: map_filter_simps)

lemma programs_below_tree:
  assumes "\<And>w. \<not> fst (dr_cancelled d w)"
  shows "\<exists>w'. programs_below d (tree_hive root) root ps out w =
    (Ok (out @ List.map_filter reg_program (concat (map (\<lambda>p. reg_subkeys_at root (split_on backslash p)) ps))), w')"
proof (induction ps arbitrary: out w)
  case (Cons p ps)
  show ?case
  proof (cases "reg_find root (split_on backslash p)")
    case None
    then show ?thesis using Cons [of out w]
      by (auto simp: find_key_by_path_def find_segments_tree reg_subkeys_at_def io_bind_def)
  next
    case (Some k)
    obtain w1 where w1: "extract_programs_from_subkeys d (tree_hive root) (map Ok (rg_subkeys k)) out w =
        (Ok (out @ List.map_filter reg_program (rg_subkeys k)) :: ('b, program list) res, w1)"
      using extract_programs_tree [OF assms] by blast
    have "items (kn_subkeys (tree_hive root) k) = (Ok (map Ok (rg_subkeys k)) :: ('b, _) res)"
      by (simp add: items_def tree_hive_def)
    then show ?thesis using Some w1 Cons [of "out @ List.map_filter reg_program (rg_subkeys k)" w1]
      by (auto simp: find_key_by_path_def find_segments_tree reg_subkeys_at_def io_bind_def map_filter_def)
  qed
qed (simp add: map_filter_simps)

lemma utf8_encode_bytes: "scalar u \<Longrightarrow> b \<in> set (utf8_encode u) \<Longrightarrow> b < 256 \<and> (u \<noteq> 0 \<longrightarrow> b \<noteq> 0)"
proof -
  assume u: "scalar u" and b: "b \<in> set (utf8_encode u)"
  define p q r s t where "p = u div 262144" and "q = u div 4096" and "r = u div 64" and "s = q mod 64" and "t = r mod 64"
  define v where "v = u mod 64"
  have enc: "utf8_encode u = (if u < 0x80 then [u] else if u < 0x800 then [0xC0 + r, 0x80 + v]
      else if u < 0x10000 then [0xE0 + q, 0x80 + t, 0x80 + v] else [0xF0 + p, 0x80 + s, 0x80 + t, 0x80 + v])"
    by (simp add: utf8_encode_def p_def q_def r_def s_def t_def v_def)
  have "u < 0x110000" using u by (auto simp: scalar_def)
  then have p: "p < 8" by (simp add: p_def less_mult_imp_div_less)
  have q: "u < 0x10000 \<Longrightarrow> q < 16" and r: "u < 0x800 \<Longrightarrow> r < 32"
    by (simp_all add: q_def r_def less_mult_imp_div_less)
  have m: "s < 64" "t < 64" "v < 64" by (simp_all add: s_def t_def v_def)
  consider "u < 0x80" | "\<not> u < 0x80" "u < 0x800" | "\<not> u < 0x80" "\<not> u < 0x800" "u < 0x10000"
    | "\<not> u < 0x80" "\<not> u < 0x800" "\<not> u < 0x10000" by blast
  then show ?thesis
  proof cases
    case 1
    then show ?thesis using b by (simp add: enc)
  next
    case 2
    then show ?thesis using b r m by (auto simp: enc)
  next
    case 3
    then show ?thesis using b q m by (auto simp: enc)
  next
    case 4
    then show ?thesis using b p m by (auto simp: enc)
  qed
qed

lemma utf8_encode_nonempty: "utf8_encode u \<noteq> []"
  by (simp add: utf8_encode_def)

lemma text_of_ends:
  assumes "\<forall>u \<in> set us. scalar u" "us \<noteq> []" "hd us \<noteq> 0" "last us \<noteq> 0"
  shows "text_of us \<noteq> []" "hd (text_of us) \<noteq> CHR 0x00" "last (text_of us) \<noteq> CHR 0x00"
proof -
  let ?bs = "concat (map utf8_encode us)"
  have "hd ?bs = hd (utf8_encode (hd us))" using assms(2) utf8_encode_nonempty by (cases us) simp_all
  moreover have "last ?bs = last (utf8_encode (last us))" "?bs \<noteq> []"
    using assms(2) utf8_encode_nonempty by (cases us rule: rev_cases; simp)+
  moreover have "0 < hd (utf8_encode (hd us))" "hd (utf8_encode (hd us)) < 256"
      "0 < last (utf8_encode (last us))" "last (utf8_encode (last us)) < 256"
    using utf8_encode_bytes [of "hd us" "hd (utf8_encode (hd us))"] utf8_encode_bytes [of "last us" "last (utf8_encode (last us))"]
      assms utf8_encode_nonempty by auto
  moreover have "char_of b \<noteq> CHR 0x00" if "0 < b" "b < 256" for b :: nat
  proof
    assume "char_of b = CHR 0x00"
    then have "code (char_of b) = code (CHR 0x00)" by simp
    then show False using that by simp
  qed
  ultimately show "text_of us \<noteq> []" "hd (text_of us) \<noteq> CHR 0x00" "last (text_of us) \<noteq> CHR 0x00"
    by (simp_all add: text_of_def hd_map last_map)
qed

section \<open>Properties\<close>

text \<open>C22. A text stored in the Registry is read back: for every Unicode text that is not empty, has no white
  space at its ends and no NUL there, the value decoded from its UTF-16 bytes is the text, with or
  without the terminating NUL, characters outside the basic plane included.\<close>

theorem registry_text_roundtrip:
  assumes "\<forall>u \<in> set us. scalar u" and "us \<noteq> []" and "hd us \<noteq> 0" and "last us \<noteq> 0"
    and "trim (text_of us) = text_of us"
  shows "decode_value (value_bytes (us @ [0])) = Some (text_of us) \<and> decode_value (value_bytes us) = Some (text_of us)"
proof -
  note ends = text_of_ends [OF assms(1-4)]
  have "\<forall>u \<in> set (us @ [0]). scalar u" using assms(1) by (simp add: scalar_def)
  then have "utf16_lossy (chunks2 (value_bytes (us @ [0]))) = text_of (us @ [0])" by (rule chunks2_value_bytes)
  also have "\<dots> = text_of us @ [CHR 0x00]" by (simp add: text_of_def utf8_encode_def) (simp add: char_of_def)
  finally have "utf16_lossy (chunks2 (value_bytes (us @ [0]))) = text_of us @ [CHR 0x00]" .
  moreover have "value_bytes (us @ [0]) \<noteq> []" "value_bytes us \<noteq> []"
    using calculation chunks2_value_bytes [OF assms(1)] ends(1) by (auto simp: utf16_lossy_def)
  ultimately show ?thesis
    using chunks2_value_bytes [OF assms(1)] trim_matches_end [OF ends, of "CHR 0x00"] assms(5) ends(1)
    by (simp add: decode_value_def non_empty_def)
qed

theorem registry_text_roundtrip_witness:
  "decode_value (value_bytes ([0x41, 0x1F4A9, 0x42] @ [0])) = Some (text_of [0x41, 0x1F4A9, 0x42])"
proof -
  have "trim (text_of [0x41, 0x1F4A9, 0x42]) = text_of [0x41, 0x1F4A9, 0x42]" by code_simp
  then show ?thesis using registry_text_roundtrip [of "[0x41, 0x1F4A9, 0x42]"] by (simp add: scalar_def)
qed


definition sample_hive :: reg where
  "sample_hive = Reg ''ROOT'' [] [Reg ''Microsoft'' [] [Reg ''Windows'' [] [Reg ''CurrentVersion'' [] [Reg ''Uninstall'' []
     [Reg ''{1}'' [(''DisplayName'', [0x47, 0, 0x6F, 0, 0, 0]), (''DisplayVersion'', [0x31, 0])] [],
      Reg ''{2}'' [(''Publisher'', [0x47, 0])] []]]]]]"


text \<open>C19. A hive that cannot be analysed is reported and not hidden: the file-system fallback is asked for
  exactly when the analysis of the SOFTWARE hive failed or panicked; then there are no programs, the
  name says that the Registry is inaccessible and a warning is added; otherwise the programs are
  those of the hive.  Warnings from the extraction are never lost.\<close>

theorem damaged_hive_reported:
  assumes "analyze_hives d h hs opts w = (r, w')"
    and "try_analyze_software d h (hs_software hs) opts (hs_software_logs_present hs) w = (s, w1)"
  shows "\<exists>a fallback ws. r = Ok (a, fallback) \<and> ar_warnings a = hs_warnings hs @ ws \<and> fallback = (\<not> is_ok s) \<and>
    (if fallback then ar_programs a = [] \<and> os_name (ar_guest_info a) = inaccessible_name \<and> ws \<noteq> []
     else \<exists>g notice. s = Ok (g, ar_programs a, notice) \<and> os_name (ar_guest_info a) = os_name g \<and> set (of_notice notice) \<subseteq> set ws)"
proof -
  let ?q = "\<lambda>g. if should_analyze_system opts \<and> guest_tools_of g = None then hs_system hs else None"
  have main: "\<exists>a fallback' ws'. r = Ok (a, fallback') \<and> fallback' = fallback \<and> ar_warnings a = hs_warnings hs @ ws @ ws' \<and>
      ar_programs a = ps \<and> os_name (ar_guest_info a) = os_name g"
    if "software_outcome (case s of Ok x \<Rightarrow> Some (Inr x) | Err e \<Rightarrow> Some (Inl e) | Panic \<Rightarrow> None) = (g, ps, ws, fallback)"
    for g ps ws fallback
    using assms that
    by (cases "?q g"; cases s)
      (auto simp: analyze_hives_def catch_unwind_def io_bind_def split: prod.splits res.splits)
  show ?thesis
  proof (cases s)
    case (Ok x)
    obtain g ps notice where x: "x = (g, ps, notice)" by (cases x) auto
    then show ?thesis using main [of g ps "of_notice notice" False] Ok by (auto simp: software_outcome_def is_ok_def)
  qed (use main in \<open>fastforce simp: software_outcome_def is_ok_def\<close>)+
qed

definition refusing_hive :: "(unit, unit, unit) hive_crate" where
  "refusing_hive = \<lparr>hv_new = (\<lambda>_. Err ''SequenceNumberMismatch''), hv_without_validation = (\<lambda>_. Err ''InvalidSignature''),
     hv_root_key_node = (\<lambda>_. Panic), kn_name = (\<lambda>_. Panic), kn_subkeys = (\<lambda>_. None), kn_values = (\<lambda>_. None),
     kv_name = (\<lambda>_. Panic), kv_data = (\<lambda>_. Panic)\<rparr>"

definition sample_hives :: hives where
  "sample_hives = \<lparr>hs_software = [0, 0], hs_system = None, hs_software_logs_present = True, hs_system_logs_present = False,
     hs_warnings = []\<rparr>"

theorem damaged_hive_reported_witness:
  "\<exists>a. fst (analyze_hives (pure_driver 0 (\<lambda>_. 0)) refusing_hive sample_hives default_options ()) = Ok (a, True) \<and>
    os_name (ar_guest_info a) = inaccessible_name \<and> ar_warnings a \<noteq> []"
proof -
  obtain r w' where r: "analyze_hives (pure_driver 0 (\<lambda>_. 0)) refusing_hive sample_hives default_options () = (r, w')"
    by (metis prod.exhaust)
  have "try_analyze_software (pure_driver 0 (\<lambda>_. 0)) refusing_hive (hs_software sample_hives) default_options
      (hs_software_logs_present sample_hives) () = (Err (WindowsRegistry ''InvalidSignature''), ())"
    by (simp add: try_analyze_software_def open_hive_with_recovery_def refusing_hive_def io_bind_def)
  from damaged_hive_reported [OF r this] show ?thesis using r by (auto simp: is_ok_def)
qed

end
