(* ===== verification/Calendar.thy ===== *)
theory Calendar
  imports Rust_Str
begin

text \<open>
  The date arithmetic and the PE header of \<open>src/parsers/windows.rs\<close> (\<open>extract_pe_timestamp\<close>,
  \<open>date_from_epoch\<close>, \<open>civil_from_days\<close>).

  The only caller passes the days of a 32-bit number of seconds, so the \<open>i64\<close> and \<open>u64\<close> values
  stay far from their bounds and are \<open>int\<close> and \<open>nat\<close> here.  The reference is the Gregorian
  calendar counted day by day: \<open>next_date\<close> applied from 1970-01-01 on.
\<close>

section \<open>The code\<close>

text \<open>Rust's division of signed integers by a positive constant truncates towards zero.\<close>

definition trunc_div :: "int \<Rightarrow> int \<Rightarrow> int" where
  "trunc_div a b = (if a < 0 then - ((- a) div b) else a div b)"

definition year_of_era :: "nat \<Rightarrow> nat" where
  "year_of_era doe = (doe - doe div 1460 + doe div 36524 - doe div 146096) div 365"

definition civil_from_days :: "int \<Rightarrow> int \<times> nat \<times> nat" where
  "civil_from_days days_since_epoch =
     (let z = days_since_epoch + 719468;
          era = trunc_div (if 0 \<le> z then z else z - 146096) 146097;
          doe = nat (z - era * 146097);
          yoe = year_of_era doe;
          y = int yoe + era * 400;
          doy = doe - (365 * yoe + yoe div 4 - yoe div 100);
          mp = (5 * doy + 2) div 153;
          d = doy - (153 * mp + 2) div 5 + 1;
          m = (if mp < 10 then mp + 3 else mp - 9)
      in (if m \<le> 2 then y + 1 else y, m, d))"

definition date_from_epoch :: "nat \<Rightarrow> string" where
  "date_from_epoch epoch_seconds = (case civil_from_days (int (epoch_seconds div 86400)) of (year, month, day) \<Rightarrow>
     dec_padded 4 (nat year) @ ''-'' @ dec_padded 2 month @ ''-'' @ dec_padded 2 day)"

definition checked_add64 :: "nat \<Rightarrow> nat \<Rightarrow> nat option" where
  "checked_add64 a b = (if a + b < 2 ^ 64 then Some (a + b) else None)"

definition extract_pe_timestamp :: "bytes \<Rightarrow> nat option" where
  "extract_pe_timestamp bs =
     (if length bs < 0x40 \<or> subrange bs 0 2 \<noteq> [0x4D, 0x5A] then None
      else Option.bind (get_range bs 0x3C 0x40) (\<lambda>f.
        (let e_lfanew = le_nat f in
         Option.bind (checked_add64 e_lfanew 4) (\<lambda>signature_end.
         Option.bind (checked_add64 signature_end 8) (\<lambda>timestamp_end.
           if length bs < timestamp_end \<or> subrange bs e_lfanew signature_end \<noteq> [0x50, 0x45, 0, 0] then None
           else Option.bind (checked_add64 signature_end 4) (\<lambda>timestamp_start.
             Some (le_nat (subrange bs timestamp_start timestamp_end))))))))"

section \<open>The Gregorian calendar\<close>

definition leap :: "nat \<Rightarrow> bool" where
  "leap y = (y mod 4 = 0 \<and> (y mod 100 \<noteq> 0 \<or> y mod 400 = 0))"

definition month_days :: "bool \<Rightarrow> nat \<Rightarrow> nat" where
  "month_days lp m = (if m = 2 then (if lp then 29 else 28) else if m \<in> {4, 6, 9, 11} then 30 else 31)"

fun next_date :: "nat \<times> nat \<times> nat \<Rightarrow> nat \<times> nat \<times> nat" where
  "next_date (y, m, d) = (if d < month_days (leap y) m then (y, m, d + 1)
     else if m < 12 then (y, m + 1, 1) else (y + 1, 1, 1))"

definition date_after :: "nat \<Rightarrow> nat \<times> nat \<times> nat" where
  "date_after n = (next_date ^^ n) (1970, 1, 1)"

section \<open>Years and months counted from March\<close>

text \<open>The month with number \<open>k\<close> counted from March, and the day of the year on which it starts.\<close>

definition month_no :: "nat \<Rightarrow> nat" where
  "month_no k = (if k < 10 then k + 3 else k - 9)"

definition month_start :: "nat \<Rightarrow> nat" where
  "month_start k = (153 * k + 2) div 5"

definition march_len :: "nat \<Rightarrow> nat" where
  "march_len y = (if leap (y + 1) then 366 else 365)"

definition era_days :: "nat \<Rightarrow> nat" where
  "era_days k = 365 * k + k div 4 - k div 100"

definition march_start :: "nat \<Rightarrow> nat" where
  "march_start y = 146097 * (y div 400) + era_days (y mod 400)"

text \<open>The date of day \<open>e\<close> of month \<open>k\<close> of the year that starts in March of \<open>y\<close>.\<close>

definition march_date :: "nat \<Rightarrow> nat \<Rightarrow> nat \<Rightarrow> nat \<times> nat \<times> nat" where
  "march_date y k e = (if month_no k \<le> 2 then y + 1 else y, month_no k, e + 1)"

abbreviation march_month_days :: "nat \<Rightarrow> nat \<Rightarrow> nat" where
  "march_month_days y k \<equiv> month_days (leap (y + 1)) (month_no k)"

lemma twelve: "k < 12 \<Longrightarrow> k \<in> {0, 1, 2, 3, 4, 5, 6, 7, 8, 9, 10, 11 :: nat}"
  by (simp only: insert_iff empty_iff) arith

lemma month_start_next: "k < 11 \<Longrightarrow> month_start (k + 1) = month_start k + march_month_days y k"
  using twelve [of k] by (auto simp: month_start_def month_no_def month_days_def)

lemma month_fits: "k < 12 \<Longrightarrow> e < march_month_days y k \<Longrightarrow> month_start k + e < march_len y"
  using twelve [of k] by (auto simp: month_start_def month_no_def month_days_def march_len_def split: if_splits)

lemma march_len_Feb: "month_start 11 + march_month_days y 11 = march_len y"
  by (simp add: month_start_def month_no_def month_days_def march_len_def)

lemma month_found:
  assumes "k < 12" "e < march_month_days y k"
  shows "(5 * (month_start k + e) + 2) div 153 = k"
  using assms twelve [of k]
  by (intro div_nat_eqI) (auto simp: month_start_def month_no_def month_days_def split: if_splits)

lemma leap_era: "leap (400 * q + r) = leap r"
proof -
  have "(400 * q + r) mod 4 = (r + 4 * (100 * q)) mod 4" "(400 * q + r) mod 100 = (r + 100 * (4 * q)) mod 100"
    by (simp_all add: algebra_simps)
  then have "(400 * q + r) mod 4 = r mod 4" "(400 * q + r) mod 100 = r mod 100" by (simp_all only: mod_mult_self2)
  then show ?thesis by (simp add: leap_def)
qed

lemma leap_cases:
  assumes "leap (100 * c + 4 * s + t + 1)" "c < 4" "s < 25" "t < 4"
  shows "t = 3" "s < 24 \<or> c = 3"
proof -
  have "(100 * c + 4 * s + t + 1) mod 4 = (t + 1 + 4 * (25 * c + s)) mod 4" by (simp add: algebra_simps)
  then have "(100 * c + 4 * s + t + 1) mod 4 = (t + 1) mod 4" by (simp only: mod_mult_self2)
  then have "(t + 1) mod 4 = 0" using assms(1) by (simp only: leap_def)
  then show t: "t = 3" using assms(4) by presburger
  show "s < 24 \<or> c = 3"
  proof (rule disjCI)
    assume "c \<noteq> 3"
    then have c: "c \<in> {0, 1, 2}" using assms(2) by auto
    show "s < 24"
    proof (rule ccontr)
      assume "\<not> s < 24"
      then have "s = 24" using assms(3) by simp
      then show False using assms(1) c t by (auto simp: leap_def)
    qed
  qed
qed

lemma year_of_era_digits:
  assumes "c < 4" "s < 25" "t < 4" and doy: "doy < 365 \<or> doy = 365 \<and> t = 3 \<and> (s < 24 \<or> c = 3)"
  shows "year_of_era (36524 * c + 1461 * s + 365 * t + doy) = 100 * c + 4 * s + t"
proof -
  define r u where "r = 1461 * s + 365 * t + doy" and "u = (24 * c + s + 365 * t + doy) div 1460"
  have D: "36524 * c + 1461 * s + 365 * t + doy = 36524 * c + r" by (simp add: r_def)
  show ?thesis
  proof (cases "r < 36524")
    case True
    have "(36524 * c + r) div 36524 = c" using True by simp
    moreover have "(36524 * c + r) div 146096 = 0" using True assms(1) by simp
    moreover have "36524 * c + r = 1460 * (25 * c + s) + (24 * c + s + 365 * t + doy)" by (simp add: r_def)
    then have "(36524 * c + r) div 1460 = 25 * c + s + u" by (simp add: u_def)
    moreover have "u = 0 \<and> doy < 365 \<or> u = 1 \<and> 0 < doy"
    proof (cases "24 * c + s + 365 * t + doy < 1460")
      case True
      then show ?thesis using doy by (auto simp: u_def)
    next
      case False
      then have "u = 1" unfolding u_def using assms by (intro div_nat_eqI) auto
      then show ?thesis using False assms by auto
    qed
    ultimately have "year_of_era (36524 * c + r) = (365 * (100 * c + 4 * s + t) + (doy - u)) div 365" "doy - u < 365"
      using doy by (auto simp: year_of_era_def r_def)
    then show ?thesis by (simp add: D)
  next
    case False
    then have "s = 24 \<and> t = 3 \<and> doy = 365" using assms by (auto simp: r_def)
    moreover from this have "c = 3" using doy by simp
    ultimately show ?thesis by (simp add: year_of_era_def)
  qed
qed

text \<open>A day of a 400-year era and the year it is in.\<close>

lemma year_of_era_eq:
  assumes "k < 400" "doy < march_len k"
  shows "year_of_era (era_days k + doy) = k" "era_days k + doy < 146097"
proof -
  define c s t where "c = k div 100" and "s = k mod 100 div 4" and "t = k mod 4"
  have t: "k mod 100 mod 4 = t" unfolding t_def by (simp add: mod_mod_cancel)
  have k: "k = 100 * c + 4 * s + t" using t by (simp add: c_def s_def) (metis div_mult_mod_eq mult.commute add.assoc)
  have b: "c < 4" "s < 25" "t < 4" using assms(1) by (auto simp: c_def s_def t_def)
  have "k div 100 = c" "k div 4 = 25 * c + s" using b by (auto simp: k)
  then have D: "era_days k + doy = 36524 * c + 1461 * s + 365 * t + doy" by (simp add: k era_days_def)
  have doy: "doy < 365 \<or> doy = 365 \<and> t = 3 \<and> (s < 24 \<or> c = 3)"
    using assms(2) leap_cases [OF _ b] by (auto simp: march_len_def k split: if_splits)
  from year_of_era_digits [OF b doy] show "year_of_era (era_days k + doy) = k"
    unfolding D by (simp add: k)
  show "era_days k + doy < 146097" unfolding D using b doy by auto
qed

lemma march_len_era: "march_len y = march_len (y mod 400)"
proof -
  have "y + 1 = 400 * (y div 400) + (y mod 400 + 1)" by simp
  then have "leap (y + 1) = leap (y mod 400 + 1)" using leap_era by metis
  then show ?thesis by (simp add: march_len_def)
qed

lemma march_start_next: "march_start (y + 1) = march_start y + march_len y"
proof (cases "y mod 400 = 399")
  case True
  then have "(y + 1) mod 400 = 0" "(y + 1) div 400 = y div 400 + 1" by (simp_all add: mod_Suc div_Suc)
  moreover have "march_len 399 = 366" by (simp add: march_len_def leap_def)
  ultimately show ?thesis using True march_len_era [of y] by (simp add: march_start_def era_days_def)
next
  case False
  define k where "k = y mod 400"
  have k: "k + 1 < 400" using False by (simp add: k_def)
  have "(y + 1) mod 400 = k + 1" "(y + 1) div 400 = y div 400" using k by (simp_all add: k_def mod_Suc div_Suc)
  moreover have "era_days (k + 1) = era_days k + march_len k"
  proof -
    have "(k + 1) mod 100 = 0 \<Longrightarrow> (k + 1) mod 4 = 0" by presburger
    moreover have "k div 100 \<le> k div 4" by (rule div_le_mono2) simp_all
    ultimately show ?thesis using k by (cases "(k + 1) mod 4 = 0"; cases "(k + 1) mod 100 = 0")
      (simp_all add: march_len_def leap_def div_Suc era_days_def ac_simps)
  qed
  moreover have "march_len y = march_len k" unfolding k_def by (rule march_len_era)
  ultimately show ?thesis by (simp add: march_start_def k_def [symmetric])
qed

lemma civil_from_days_march:
  assumes "k < 12" "e < march_month_days y k" "n + 719468 = march_start y + month_start k + e"
  shows "civil_from_days (int n) = (case march_date y k e of (a, m, d) \<Rightarrow> (int a, m, d))"
proof -
  define yoe doy where "yoe = y mod 400" and "doy = month_start k + e"
  have doy: "doy < march_len yoe" using month_fits [OF assms(1,2)] march_len_era by (simp add: doy_def yoe_def)
  have yoe: "yoe < 400" by (simp add: yoe_def)
  define doe where "doe = era_days yoe + doy"
  have z: "n + 719468 = doe + 146097 * (y div 400)"
    unfolding doe_def doy_def yoe_def using assms(3) by (simp only: march_start_def ac_simps)
  note year = year_of_era_eq [OF yoe doy, folded doe_def]
  have i: "int n + 719468 = int (n + 719468)" by simp
  have pos: "(0 \<le> int n + 719468) = True" by simp
  have era: "trunc_div (int n + 719468) 146097 = int (y div 400)"
    unfolding trunc_div_def i using z year(2) by (simp add: zdiv_int [symmetric] div_mult_self2)
  have doe: "nat (int n + 719468 - int (y div 400) * 146097) = doe"
    unfolding i using z by simp
  have doy': "doe - (365 * yoe + yoe div 4 - yoe div 100) = doy" by (simp add: doe_def era_days_def)
  have mp: "(5 * doy + 2) div 153 = k" unfolding doy_def by (rule month_found [OF assms(1,2)])
  have day: "doy - (153 * k + 2) div 5 + 1 = e + 1" by (simp add: doy_def month_start_def)
  have "yoe + y div 400 * 400 = y" by (simp add: yoe_def)
  then have y: "int yoe + int (y div 400) * 400 = int y" by (metis of_nat_add of_nat_mult of_nat_numeral)
  have "civil_from_days (int n) = (if month_no k \<le> 2 then int y + 1 else int y, month_no k, e + 1)"
    unfolding civil_from_days_def Let_def pos if_True era doe year(1) doy' mp day y month_no_def ..
  then show ?thesis by (simp add: march_date_def)
qed

lemma next_march_date:
  assumes "k < 12" "e < march_month_days y k"
  shows "next_date (march_date y k e) = (if e + 1 < march_month_days y k then march_date y k (e + 1)
    else if k < 11 then march_date y (k + 1) 0 else march_date (y + 1) 0 0)"
proof -
  have "month_days (leap (if month_no k \<le> 2 then y + 1 else y)) (month_no k) = march_month_days y k"
    by (simp add: month_days_def)
  then have "next_date (march_date y k e) = (let a = (if month_no k \<le> 2 then y + 1 else y); m = month_no k in
      if e + 1 < march_month_days y k then (a, m, e + 2) else if m < 12 then (a, m + 1, 1) else (a + 1, 1, 1))"
    by (simp add: march_date_def Let_def)
  moreover have "k < 11 \<Longrightarrow> month_no (k + 1) = (if month_no k < 12 then month_no k + 1 else 1)"
    using twelve [of k] by (auto simp: month_no_def)
  ultimately show ?thesis using assms(1) by (auto simp: march_date_def Let_def month_no_def)
qed

text \<open>Every day has its place in a year counted from March.\<close>

lemma date_after_march:
  "\<exists>y k e. k < 12 \<and> e < march_month_days y k \<and> n + 719468 = march_start y + month_start k + e \<and>
    date_after n = march_date y k e"
proof (induction n)
  case 0
  have "march_start 1969 + month_start 10 + 0 = 719468" by (simp add: march_start_def era_days_def month_start_def)
  moreover have "date_after 0 = march_date 1969 10 0" by (simp add: date_after_def march_date_def month_no_def)
  moreover have "0 < march_month_days 1969 10" by (simp add: month_days_def month_no_def)
  ultimately show ?case by (intro exI [of _ 1969] exI [of _ 10] exI [of _ 0]) simp
next
  case (Suc n)
  then obtain y k e where k: "k < 12" and e: "e < march_month_days y k" and
      n: "n + 719468 = march_start y + month_start k + e" and d: "date_after n = march_date y k e" by blast
  have step: "date_after (Suc n) = next_date (march_date y k e)" using d by (simp add: date_after_def)
  note nx = next_march_date [OF k e]
  consider "e + 1 < march_month_days y k" | "\<not> e + 1 < march_month_days y k" "k < 11"
    | "\<not> e + 1 < march_month_days y k" "k = 11" using k by linarith
  then show ?case
  proof cases
    case 1
    then show ?thesis using step nx k n by (intro exI [of _ y] exI [of _ k] exI [of _ "e + 1"]) simp
  next
    case 2
    have "0 < march_month_days y (k + 1)" by (simp add: month_days_def)
    moreover have "Suc n + 719468 = march_start y + month_start (k + 1) + 0"
      using n e 2 month_start_next [OF 2(2), of y] by simp
    ultimately show ?thesis using step nx 2 by (intro exI [of _ y] exI [of _ "k + 1"] exI [of _ 0]) simp
  next
    case 3
    have "0 < march_month_days (y + 1) 0" by (simp add: month_days_def)
    moreover have "Suc n + 719468 = march_start (y + 1) + month_start 0 + 0"
      using n e 3 march_len_Feb [of y] march_start_next [of y] by (simp add: month_start_def)
    ultimately show ?thesis using step nx 3 by (intro exI [of _ "y + 1"] exI [of _ 0]) simp
  qed
qed

lemma subrange_middle: "length a = i \<Longrightarrow> length b = n \<Longrightarrow> subrange (a @ b @ c) i (i + n) = b"
  by (simp add: subrange_def)

definition pe_image :: "bytes \<Rightarrow> bytes \<Rightarrow> bytes \<Rightarrow> nat \<Rightarrow> bytes \<Rightarrow> bytes" where
  "pe_image dos gap machine stamp rest = [0x4D, 0x5A] @ dos @ le_bytes 4 (0x40 + length gap) @ gap
     @ [0x50, 0x45, 0, 0] @ machine @ le_bytes 4 stamp @ rest"

section \<open>Properties\<close>

text \<open>C20. The conversion of a day number to a date agrees with the Gregorian calendar: for every \<open>n\<close> the
  date \<open>n\<close> days after the epoch is the one that counting \<open>n\<close> days from 1970-01-01 reaches, with the
  lengths of the months and the leap years of the calendar.\<close>

theorem civil_from_days_gregorian:
  "civil_from_days (int n) = (case date_after n of (y, m, d) \<Rightarrow> (int y, m, d))"
proof -
  obtain y k e where "k < 12" "e < march_month_days y k" "n + 719468 = march_start y + month_start k + e"
      "date_after n = march_date y k e" using date_after_march [of n] by blast
  then show ?thesis using civil_from_days_march [of k e y n] by simp
qed

text \<open>The time stamp of a PE header is found: for every image that starts with a DOS header of 64
  bytes pointing to a PE signature behind any gap, the stamp is the little-endian number eight bytes
  after the start of the signature, whatever the other fields hold.\<close>

theorem pe_timestamp_roundtrip:
  assumes "length dos = 58" and "length machine = 4" and "0x40 + length gap < 2 ^ 32" and "stamp < 2 ^ 32"
  shows "extract_pe_timestamp (pe_image dos gap machine stamp rest) = Some stamp"
proof -
  let ?bs = "pe_image dos gap machine stamp rest" and ?h = "[0x4D, 0x5A] @ dos" and ?sig = "[0x50, 0x45, 0, 0] :: bytes"
  define e where "e = 0x40 + length gap"
  have bs: "?bs = ?h @ le_bytes 4 e @ gap @ ?sig @ machine @ le_bytes 4 stamp @ rest"
    by (simp add: pe_image_def e_def)
  have len: "length ?h = 0x3C" "length (?h @ le_bytes 4 e @ gap) = e"
      "length (?h @ le_bytes 4 e @ gap @ ?sig @ machine) = e + 8" "0x40 \<le> e" "e + 12 \<le> length ?bs"
    using assms(1,2) by (simp_all add: e_def bs)
  have "get_range ?bs 0x3C 0x40 = Some (le_bytes 4 e)"
    using subrange_middle [OF len(1), of "le_bytes 4 e" 4] len(4,5) by (simp add: get_range_Some bs)
  moreover have "le_nat (le_bytes 4 e) = e" "le_nat (le_bytes 4 stamp) = stamp"
    using assms(3,4) by (simp_all add: le_nat_le_bytes e_def)
  moreover have "checked_add64 e 4 = Some (e + 4)" "checked_add64 (e + 4) 8 = Some (e + 12)"
      "checked_add64 (e + 4) 4 = Some (e + 8)" using assms(3) by (simp_all add: checked_add64_def e_def)
  moreover have "subrange ?bs e (e + 4) = ?sig" "subrange ?bs (e + 8) (e + 12) = le_bytes 4 stamp"
    using subrange_middle [OF len(2), of ?sig 4] subrange_middle [OF len(3), of "le_bytes 4 stamp" 4]
    by (simp_all add: bs add.commute)
  moreover have "subrange ?bs 0 2 = [0x4D, 0x5A]" by (simp add: bs subrange_def)
  ultimately show ?thesis using len(4,5) by (simp add: extract_pe_timestamp_def Let_def del: le_bytes.simps)
qed

theorem pe_timestamp_roundtrip_witness:
  "extract_pe_timestamp (pe_image (replicate 58 0) [] [0x64, 0x86, 3, 0] 1600000000 []) = Some 1600000000"
  using pe_timestamp_roundtrip [of "replicate 58 0" "[0x64, 0x86, 3, 0]" "[]" 1600000000 "[]"] by simp

end
