(* ===== verification/Windows_Guest.thy ===== *)
theory Windows_Guest
  imports Registry Calendar
begin

text \<open>
  \<open>src/parsers/windows.rs\<close>, the disk: the \<^verbatim>\<open>ntfs\<close> crate is the parameter \<open>x\<close>, its calls disk programs
  whose errors are the text \<^verbatim>\<open>{:?}\<close> prints.  \<open>Option<Result<..>>\<close> of the crate is a result whose
  \<open>Ok None\<close> is absence.  The iterator over a directory is a tree of disk operations that yields an
  item, or ends, after each call of \<open>next\<close>.
\<close>

section \<open>The crate\<close>

record file_name_key =
  nk_is_directory :: bool
  nk_dos :: bool
  nk_name :: string

text \<open>An item \<open>None\<close> is an entry that is an error or has no readable key; the loop passes over it.\<close>

datatype dir_iter =
    IterDone
  | IterPanic
  | IterItem "file_name_key option" dir_iter
  | IterRead bytes "io_error + nat \<times> bytes \<Rightarrow> dir_iter"
  | IterSeek seek_from "io_error + nat \<Rightarrow> dir_iter"

record ('nt, 'f, 'ix, 'en, 'it, 'at, 'vl) ntfs_crate =
  nt_new :: "(string, 'nt) disk_prog"
  nt_read_upcase_table :: "'nt \<Rightarrow> (string, 'nt) disk_prog"
  nt_root_directory :: "'nt \<Rightarrow> (string, 'f) disk_prog"
  nt_directory_index :: "'f \<Rightarrow> (string, 'ix) disk_prog"
  nt_find :: "'nt \<Rightarrow> 'ix \<Rightarrow> string \<Rightarrow> (string, 'en option) disk_prog"
  nt_to_file :: "'nt \<Rightarrow> 'en \<Rightarrow> (string, 'f) disk_prog"
  nt_is_directory :: "'f \<Rightarrow> bool"
  nt_data :: "'f \<Rightarrow> (string, 'it option) disk_prog"
  nt_to_attribute :: "'it \<Rightarrow> (string, 'at) disk_prog"
  nt_value :: "'at \<Rightarrow> (string, 'vl) disk_prog"
  nt_len :: "'vl \<Rightarrow> nat"
  nt_read_to_end :: "'vl \<Rightarrow> (io_error, bytes) disk_prog"
  nt_read_prefix :: "'vl \<Rightarrow> nat \<Rightarrow> (io_error, bytes) disk_prog"
  nt_entries :: "'ix \<Rightarrow> dir_iter"

section \<open>Files and directories\<close>

fun navigate_directory :: "bool \<Rightarrow> 'w driver \<Rightarrow> ('nt, 'f, 'ix, 'en, 'it, 'at, 'vl) ntfs_crate \<Rightarrow> 'nt \<Rightarrow> 'f \<Rightarrow> string list
    \<Rightarrow> (vdisk \<times> 'w, string, 'f option) io" where
  "navigate_directory oc d x nt cur [] = io_ret (Some cur)"
| "navigate_directory oc d x nt cur (s # ss) =
     io_bind (run_prog oc d (nt_directory_index x cur)) (\<lambda>ix.
     io_bind (run_prog oc d (nt_find x nt ix s)) (\<lambda>r. case r of
       None \<Rightarrow> io_ret None
     | Some en \<Rightarrow> io_bind (run_prog oc d (nt_to_file x nt en)) (\<lambda>f.
         if nt_is_directory x f then navigate_directory oc d x nt f ss else io_ret None)))"

text \<open>The part \<open>read_file_bytes\<close> and \<open>read_file_prefix\<close> share: the value of the default data stream.\<close>

definition data_value :: "bool \<Rightarrow> 'w driver \<Rightarrow> ('nt, 'f, 'ix, 'en, 'it, 'at, 'vl) ntfs_crate \<Rightarrow> 'nt \<Rightarrow> 'f \<Rightarrow> string
    \<Rightarrow> (vdisk \<times> 'w, vm_error, 'vl option) io" where
  "data_value oc d x nt dir name =
     io_bind (io_map_err FileSystemError (run_prog oc d (nt_directory_index x dir))) (\<lambda>ix.
     io_bind (io_map_err FileSystemError (run_prog oc d (nt_find x nt ix name))) (\<lambda>r. case r of
       None \<Rightarrow> io_ret None
     | Some en \<Rightarrow>
         io_bind (io_map_err FileSystemError (run_prog oc d (nt_to_file x nt en))) (\<lambda>f.
         io_bind (io_map_err FileSystemError (run_prog oc d (nt_data x f))) (\<lambda>di. case di of
           None \<Rightarrow> io_err (FileSystemError (''The file '' @ name @ '' has no default data stream''))
         | Some it \<Rightarrow>
             io_bind (io_map_err FileSystemError (run_prog oc d (nt_to_attribute x it))) (\<lambda>at.
             io_bind (io_map_err FileSystemError (run_prog oc d (nt_value x at))) (\<lambda>vl.
               io_ret (Some vl)))))))"

definition read_file_bytes :: "bool \<Rightarrow> 'w driver \<Rightarrow> ('nt, 'f, 'ix, 'en, 'it, 'at, 'vl) ntfs_crate \<Rightarrow> 'nt \<Rightarrow> 'f \<Rightarrow> string
    \<Rightarrow> (vdisk \<times> 'w, vm_error, bytes option) io" where
  "read_file_bytes oc d x nt dir name = io_bind (data_value oc d x nt dir name) (\<lambda>r. case r of
       None \<Rightarrow> io_ret None
     | Some vl \<Rightarrow> if 2 * 1024 * 1024 * 1024 < nt_len x vl
         then io_err (FileSystemError (''Hive '' @ name @ '' is suspiciously large ('' @ dec_str (nt_len x vl) @ '' bytes)''))
         else io_bind (io_map_err Io (run_prog oc d (nt_read_to_end x vl))) (\<lambda>bs. io_ret (Some bs)))"

definition read_file_prefix :: "bool \<Rightarrow> 'w driver \<Rightarrow> ('nt, 'f, 'ix, 'en, 'it, 'at, 'vl) ntfs_crate \<Rightarrow> 'nt \<Rightarrow> 'f \<Rightarrow> string
    \<Rightarrow> nat \<Rightarrow> (vdisk \<times> 'w, vm_error, bytes option) io" where
  "read_file_prefix oc d x nt dir name max_bytes = io_bind (data_value oc d x nt dir name) (\<lambda>r. case r of
       None \<Rightarrow> io_ret None
     | Some vl \<Rightarrow> io_bind (io_map_err Io (run_prog oc d (nt_read_prefix x vl max_bytes))) (\<lambda>bs. io_ret (Some bs)))"

definition file_exists :: "bool \<Rightarrow> 'w driver \<Rightarrow> ('nt, 'f, 'ix, 'en, 'it, 'at, 'vl) ntfs_crate \<Rightarrow> 'nt \<Rightarrow> 'f \<Rightarrow> string
    \<Rightarrow> (vdisk \<times> 'w, 'e, bool) io" where
  "file_exists oc d x nt dir name =
     io_bind (io_try (run_prog oc d (nt_directory_index x dir))) (\<lambda>r. case r of
       Inl _ \<Rightarrow> io_ret False
     | Inr ix \<Rightarrow> io_bind (io_try (run_prog oc d (nt_find x nt ix name))) (\<lambda>r'.
         io_ret (case r' of Inr (Some _) \<Rightarrow> True | _ \<Rightarrow> False)))"

definition either_exists :: "bool \<Rightarrow> 'w driver \<Rightarrow> ('nt, 'f, 'ix, 'en, 'it, 'at, 'vl) ntfs_crate \<Rightarrow> 'nt \<Rightarrow> 'f \<Rightarrow> string
    \<Rightarrow> string \<Rightarrow> (vdisk \<times> 'w, 'e, bool) io" where
  "either_exists oc d x nt dir a b = io_bind (file_exists oc d x nt dir a) (\<lambda>r.
     if r then io_ret True else file_exists oc d x nt dir b)"

section \<open>Extraction of the hives\<close>

definition CONFIG_PATH :: "string list" where
  "CONFIG_PATH = [''Windows'', ''System32'', ''config'']"

text \<open>\<open>Ntfs::new\<close>, the upcase table and the root directory.\<close>

definition mount_ntfs :: "bool \<Rightarrow> 'w driver \<Rightarrow> ('nt, 'f, 'ix, 'en, 'it, 'at, 'vl) ntfs_crate \<Rightarrow> (vdisk \<times> 'w, string, 'nt \<times> 'f) io" where
  "mount_ntfs oc d x = io_bind (run_prog oc d (nt_new x)) (\<lambda>nt.
     io_bind (run_prog oc d (nt_read_upcase_table x nt)) (\<lambda>nt'.
     io_bind (run_prog oc d (nt_root_directory x nt')) (\<lambda>root. io_ret (nt', root))))"

definition system_hive_warning :: "vm_error \<Rightarrow> string" where
  "system_hive_warning e = ''Could not read the SYSTEM hive from disk (dirty / inaccessible Registry): '' @ display_error e"

definition read_hives :: "bool \<Rightarrow> 'w driver \<Rightarrow> ('nt, 'f, 'ix, 'en, 'it, 'at, 'vl) ntfs_crate \<Rightarrow> 'nt \<Rightarrow> 'f \<Rightarrow> bool
    \<Rightarrow> (vdisk \<times> 'w, vm_error, hives) io" where
  "read_hives oc d x nt config include_system =
     io_bind (read_file_bytes oc d x nt config ''SOFTWARE'') (\<lambda>r. case r of
       None \<Rightarrow> io_err (WindowsRegistry ''SOFTWARE hive not found'')
     | Some software \<Rightarrow>
         io_bind (either_exists oc d x nt config ''SOFTWARE.LOG1'' ''SOFTWARE.LOG2'') (\<lambda>software_logs.
           if include_system then
             io_bind (either_exists oc d x nt config ''SYSTEM.LOG1'' ''SYSTEM.LOG2'') (\<lambda>system_logs.
             io_bind (io_try (read_file_bytes oc d x nt config ''SYSTEM'')) (\<lambda>r'.
               io_ret \<lparr>hs_software = software, hs_system = (case r' of Inr b \<Rightarrow> b | Inl _ \<Rightarrow> None),
                 hs_software_logs_present = software_logs, hs_system_logs_present = system_logs,
                 hs_warnings = (case r' of Inl e \<Rightarrow> [system_hive_warning e] | Inr _ \<Rightarrow> [])\<rparr>))
           else io_ret \<lparr>hs_software = software, hs_system = None, hs_software_logs_present = software_logs,
             hs_system_logs_present = False, hs_warnings = []\<rparr>))"

definition extract_ntfs_hives :: "bool \<Rightarrow> 'w driver \<Rightarrow> ('nt, 'f, 'ix, 'en, 'it, 'at, 'vl) ntfs_crate \<Rightarrow> nat \<Rightarrow> nat \<Rightarrow> nat \<Rightarrow> bool
    \<Rightarrow> ('w, vm_error, hives) io" where
  "extract_ntfs_hives oc d x start len chunk include_system = with_view oc start len chunk
     (io_bind (io_map_err FileSystemError (mount_ntfs oc d x)) (\<lambda>(nt, root).
      io_bind (io_map_err FileSystemError (navigate_directory oc d x nt root CONFIG_PATH)) (\<lambda>r. case r of
        None \<Rightarrow> io_err (WindowsRegistry (reg_path CONFIG_PATH @ '' does not exist on the NTFS partition''))
      | Some config \<Rightarrow> read_hives oc d x nt config include_system)))"

definition is_system_partition :: "bool \<Rightarrow> 'w driver \<Rightarrow> ('nt, 'f, 'ix, 'en, 'it, 'at, 'vl) ntfs_crate \<Rightarrow> nat \<Rightarrow> nat \<Rightarrow> nat
    \<Rightarrow> ('w, 'e, bool) io" where
  "is_system_partition oc d x start len chunk = with_view oc start len chunk
     (io_bind (io_try (mount_ntfs oc d x)) (\<lambda>r. case r of
        Inl _ \<Rightarrow> io_ret False
      | Inr (nt, root) \<Rightarrow> io_bind (io_try (navigate_directory oc d x nt root CONFIG_PATH)) (\<lambda>r'.
          io_ret (case r' of Inr (Some _) \<Rightarrow> True | _ \<Rightarrow> False))))"

section \<open>Fallback to the file system\<close>

definition FALLBACK_FS_ORIGIN :: string where
  "FALLBACK_FS_ORIGIN = ''FallbackFS''"

definition PROGRAM_FILES_DIRS :: "string list" where
  "PROGRAM_FILES_DIRS = [''Program Files'', ''Program Files (x86)'']"

text \<open>The body of the loop over a directory: the names seen in it and the programs found.\<close>

definition scan_item :: "file_name_key option \<Rightarrow> string list \<times> program list \<Rightarrow> string list \<times> program list" where
  "scan_item it = (\<lambda>(seen, out). case it of
       None \<Rightarrow> (seen, out)
     | Some k \<Rightarrow> if \<not> nk_is_directory k \<or> nk_dos k \<or> nk_name k \<in> {''.'', ''..''} \<or> nk_name k \<in> set seen then (seen, out)
         else (nk_name k # seen, out @ [\<lparr>pg_name = nk_name k, pg_version = None, pg_publisher = None,
           pg_source = Some FALLBACK_FS_ORIGIN\<rparr>]))"

primrec scan_entries :: "bool \<Rightarrow> 'w driver \<Rightarrow> dir_iter \<Rightarrow> string list \<times> program list
    \<Rightarrow> (vdisk \<times> 'w, 'e, string list \<times> program list) io" where
  "scan_entries oc d IterDone st = io_ret st"
| "scan_entries oc d IterPanic st = io_lift Panic"
| "scan_entries oc d (IterItem it rest) st = io_bind (on_world (load_cancel d)) (\<lambda>c.
     if c then io_ret (scan_item it st) else scan_entries oc d rest (scan_item it st))"
| "scan_entries oc d (IterRead buf k) st = resume (vdisk_read oc d buf) (\<lambda>r. scan_entries oc d (k r) st)"
| "scan_entries oc d (IterSeek p k) st = resume (on_view (vdisk_seek p)) (\<lambda>r. scan_entries oc d (k r) st)"

definition scan_folders_as_programs :: "bool \<Rightarrow> 'w driver \<Rightarrow> ('nt, 'f, 'ix, 'en, 'it, 'at, 'vl) ntfs_crate \<Rightarrow> 'f
    \<Rightarrow> program list \<Rightarrow> (vdisk \<times> 'w, 'e, program list) io" where
  "scan_folders_as_programs oc d x dir out =
     io_bind (io_try (run_prog oc d (nt_directory_index x dir))) (\<lambda>r. case r of
       Inl _ \<Rightarrow> io_ret out
     | Inr ix \<Rightarrow> io_bind (on_world (load_cancel d)) (\<lambda>c.
         if c then io_ret out
         else io_bind (scan_entries oc d (nt_entries x ix) ([], out)) (\<lambda>(seen, out'). io_ret out')))"

definition detect_os_from_binaries :: "bool \<Rightarrow> 'w driver \<Rightarrow> ('nt, 'f, 'ix, 'en, 'it, 'at, 'vl) ntfs_crate \<Rightarrow> 'nt \<Rightarrow> 'f
    \<Rightarrow> (vdisk \<times> 'w, 'e, (guest_info \<times> string) option) io" where
  "detect_os_from_binaries oc d x nt system32 =
     io_bind (io_try (read_file_prefix oc d x nt system32 ''ntoskrnl.exe'' 8192)) (\<lambda>r.
       (case (case r of Inr (Some bs) \<Rightarrow> extract_pe_timestamp bs | _ \<Rightarrow> None) of
          Some ts \<Rightarrow> io_ret (Some (default_guest_info\<lparr>
              os_name := ''Windows (approximate version from '' @ FALLBACK_FS_ORIGIN @ '')'',
              os_build := ''Approximated from the PE compilation timestamp of ntoskrnl.exe: '' @ date_from_epoch ts\<rparr>,
            ''Registry completely inaccessible: an approximate OS version was determined from the PE timestamp of ''
              @ [backslash] @ reg_path [''Windows'', ''System32'', ''ntoskrnl.exe ('' @ FALLBACK_FS_ORIGIN @ '')'']))
        | None \<Rightarrow> io_bind (file_exists oc d x nt system32 ''license.rtf'') (\<lambda>found.
            io_ret (if found then Some (default_guest_info\<lparr>
                os_name := ''Windows (detected by '' @ FALLBACK_FS_ORIGIN @ '': license.rtf)''\<rparr>,
              ''Registry completely inaccessible: ntoskrnl.exe could not be read, but Windows was confirmed via the presence of ''
                @ [backslash] @ reg_path [''Windows'', ''System32'', ''license.rtf ('' @ FALLBACK_FS_ORIGIN @ '')''])
              else None))))"

definition fallback_os :: "bool \<Rightarrow> 'w driver \<Rightarrow> ('nt, 'f, 'ix, 'en, 'it, 'at, 'vl) ntfs_crate \<Rightarrow> 'nt \<Rightarrow> 'f
    \<Rightarrow> (vdisk \<times> 'w, 'e, guest_info option \<times> string list) io" where
  "fallback_os oc d x nt root =
     io_bind (io_try (navigate_directory oc d x nt root [''Windows'', ''System32''])) (\<lambda>r. case r of
       Inr (Some system32) \<Rightarrow> io_bind (detect_os_from_binaries oc d x nt system32) (\<lambda>r'. io_ret (case r' of
           Some (info, msg) \<Rightarrow> (Some info, [msg])
         | None \<Rightarrow> (None, [''FallbackFS: could not determine the OS version (neither ntoskrnl.exe nor license.rtf were readable in ''
             @ [backslash] @ reg_path [''Windows'', ''System32)''] ])))
     | _ \<Rightarrow> io_ret (None, [''FallbackFS: '' @ [backslash] @ reg_path [''Windows'', ''System32 was not found on the NTFS partition''] ]))"

fun fallback_folders :: "bool \<Rightarrow> 'w driver \<Rightarrow> ('nt, 'f, 'ix, 'en, 'it, 'at, 'vl) ntfs_crate \<Rightarrow> 'nt \<Rightarrow> 'f
    \<Rightarrow> string list \<Rightarrow> program list \<Rightarrow> (vdisk \<times> 'w, 'e, program list) io" where
  "fallback_folders oc d x nt root [] out = io_ret out"
| "fallback_folders oc d x nt root (folder # rest) out = io_bind (on_world (load_cancel d)) (\<lambda>c.
     if c then io_ret out
     else io_bind (io_try (navigate_directory oc d x nt root [folder])) (\<lambda>r.
       io_bind (case r of Inr (Some dir) \<Rightarrow> scan_folders_as_programs oc d x dir out | _ \<Rightarrow> io_ret out)
         (fallback_folders oc d x nt root rest)))"

definition recovered_warning :: "program list \<Rightarrow> string list" where
  "recovered_warning ps = (if ps = [] then []
     else [''FallbackFS: recovered '' @ dec_str (length ps) @ '' software entries by scanning the '' @ [backslash]
       @ ''Program Files folders (no version/publisher; origin '' @ FALLBACK_FS_ORIGIN
       @ '') because the Registry is inaccessible''])"

text \<open>The three steps of mounting again, each with a warning of its own.\<close>

definition remount_ntfs :: "bool \<Rightarrow> 'w driver \<Rightarrow> ('nt, 'f, 'ix, 'en, 'it, 'at, 'vl) ntfs_crate \<Rightarrow> (vdisk \<times> 'w, string, 'nt \<times> 'f) io" where
  "remount_ntfs oc d x =
     io_bind (io_map_err (\<lambda>e. ''FallbackFS: could not re-mount the NTFS partition ('' @ e @ '')'') (run_prog oc d (nt_new x))) (\<lambda>nt.
     io_bind (io_map_err (\<lambda>e. ''FallbackFS: could not read the NTFS UpCase table ('' @ e @ '')'') (run_prog oc d (nt_read_upcase_table x nt))) (\<lambda>nt'.
     io_bind (io_map_err (\<lambda>e. ''FallbackFS: could not access the NTFS root directory ('' @ e @ '')'') (run_prog oc d (nt_root_directory x nt'))) (\<lambda>root.
       io_ret (nt', root))))"

definition apply_fs_fallback :: "bool \<Rightarrow> 'w driver \<Rightarrow> ('nt, 'f, 'ix, 'en, 'it, 'at, 'vl) ntfs_crate \<Rightarrow> partition \<Rightarrow> nat \<Rightarrow> options
    \<Rightarrow> ('w, 'e, guest_info option \<times> program list \<times> string list) io" where
  "apply_fs_fallback oc d x p chunk opts = with_view oc (pt_start p) (pt_size p) chunk
     (io_bind (io_try (remount_ntfs oc d x)) (\<lambda>r. case r of
        Inl w \<Rightarrow> io_ret (None, [], [w])
      | Inr (nt, root) \<Rightarrow>
          io_bind (if should_analyze_system opts then fallback_os oc d x nt root else io_ret (None, [])) (\<lambda>(g, ws).
          io_bind (if should_analyze_apps opts then fallback_folders oc d x nt root PROGRAM_FILES_DIRS [] else io_ret []) (\<lambda>ps.
            io_ret (g, ps, ws @ recovered_warning ps)))))"

section \<open>WindowsInspector\<close>

definition degraded_result :: "string \<Rightarrow> analysis_result" where
  "degraded_result warning = \<lparr>ar_guest_info = default_guest_info\<lparr>os_name := inaccessible_name\<rparr>,
     ar_programs = [], ar_warnings = [warning]\<rparr>"

fun find_system_partition :: "bool \<Rightarrow> 'w driver \<Rightarrow> ('nt, 'f, 'ix, 'en, 'it, 'at, 'vl) ntfs_crate \<Rightarrow> nat \<Rightarrow> partition list
    \<Rightarrow> ('w, 'e, partition option) io" where
  "find_system_partition oc d x chunk [] = io_ret None"
| "find_system_partition oc d x chunk (p # ps) = io_bind (is_system_partition oc d x (pt_start p) (pt_size p) chunk) (\<lambda>c.
     if c then io_ret (Some p) else find_system_partition oc d x chunk ps)"

definition with_fallback :: "analysis_result \<Rightarrow> guest_info option \<times> program list \<times> string list \<Rightarrow> analysis_result" where
  "with_fallback a = (\<lambda>(g, ps, ws). \<lparr>ar_guest_info = (case g of Some info \<Rightarrow> info | None \<Rightarrow> ar_guest_info a),
     ar_programs = ar_programs a @ ps, ar_warnings = ar_warnings a @ ws\<rparr>)"

definition analyze_system_partition :: "bool \<Rightarrow> 'w driver \<Rightarrow> ('nt, 'f, 'ix, 'en, 'it, 'at, 'vl) ntfs_crate \<Rightarrow> ('h, 'k, 'v) hive_crate
    \<Rightarrow> nat \<Rightarrow> options \<Rightarrow> partition \<Rightarrow> ('w, vm_error, analysis_result) io" where
  "analyze_system_partition oc d x h chunk opts p =
     io_bind (io_try (extract_ntfs_hives oc d x (pt_start p) (pt_size p) chunk
       (op_include_system opts \<and> should_analyze_system opts))) (\<lambda>r. case r of
       Inl e \<Rightarrow> io_ret (degraded_result
         (''Could not extract the Windows Registry hives (dirty / inaccessible Registry): '' @ display_error e))
     | Inr hs \<Rightarrow> io_bind (analyze_hives d h hs opts) (\<lambda>(a, fallback).
         if fallback then io_bind (apply_fs_fallback oc d x p chunk opts) (\<lambda>f. io_ret (with_fallback a f))
         else io_ret a))"

definition windows_analyze :: "bool \<Rightarrow> 'w driver \<Rightarrow> ('nt, 'f, 'ix, 'en, 'it, 'at, 'vl) ntfs_crate \<Rightarrow> ('h, 'k, 'v) hive_crate
    \<Rightarrow> partition list \<Rightarrow> nat \<Rightarrow> options \<Rightarrow> ('w, vm_error, analysis_result) io" where
  "windows_analyze oc d x h parts chunk opts =
     (if \<not> should_analyze_system opts \<and> \<not> should_analyze_apps opts then io_ret default_analysis
      else io_bind (find_system_partition oc d x chunk (filter is_ntfs parts)) (\<lambda>r. case r of
        None \<Rightarrow> io_ret (degraded_result (''No NTFS partition contains '' @ reg_path CONFIG_PATH @ '' (Registry inaccessible)''))
      | Some p \<Rightarrow> analyze_system_partition oc d x h chunk opts p))"

section \<open>The analysis is a function of the bytes\<close>

lemmas ntfs_ops = read_file_bytes_def read_file_prefix_def data_value_def either_exists_def file_exists_def
  mount_ntfs_def remount_ntfs_def read_hives_def

text \<open>The partition chosen is one of the partitions given.\<close>

lemma find_system_partition_in:
  "find_system_partition oc d x chunk ps w = (Ok (Some p), w') \<Longrightarrow> p \<in> set ps"
  by (induction ps arbitrary: w) (auto simp: res_simps split: if_splits)

lemma similar_bind_option:
  assumes "similar R m m'" "similar R n n'" "\<And>a s s'. m s = (Ok (Some a), s') \<Longrightarrow> Q a"
    "\<And>a. Q a \<Longrightarrow> similar R (f a) (f' a)"
  shows "similar R (io_bind m (\<lambda>r. case r of None \<Rightarrow> n | Some a \<Rightarrow> f a))
    (io_bind m' (\<lambda>r. case r of None \<Rightarrow> n' | Some a \<Rightarrow> f' a))"
proof (rule similarI)
  fix s t
  assume "R s t"
  with assms(1) obtain r s1 t1 where m: "m s = (r, s1)" "m' t = (r, t1)" "R s1 t1" by (rule similarE)
  consider "r = Ok None" | a where "r = Ok (Some a)" | e where "r = Err e" | "r = Panic" by (cases r) auto
  then show "\<exists>r s' t'. io_bind m (\<lambda>r. case r of None \<Rightarrow> n | Some a \<Rightarrow> f a) s = (r, s') \<and>
      io_bind m' (\<lambda>r. case r of None \<Rightarrow> n' | Some a \<Rightarrow> f' a) t = (r, t') \<and> R s' t'"
  proof cases
    case 1
    from assms(2) m(3) obtain r' s2 t2 where "n s1 = (r', s2)" "n' t1 = (r', t2)" "R s2 t2" by (rule similarE)
    then show ?thesis using 1 m by simp
  next
    case (2 a)
    then have "similar R (f a) (f' a)" using assms(3,4) m(1) by blast
    from this m(3) obtain r' s2 t2 where "f a s1 = (r', s2)" "f' a t1 = (r', t2)" "R s2 t2" by (rule similarE)
    then show ?thesis using 2 m by simp
  qed (use m in auto)
qed

lemma no_panic_bind_option:
  assumes "no_panic P m" "no_panic P n" "\<And>a s s'. m s = (Ok (Some a), s') \<Longrightarrow> Q a"
    "\<And>a. Q a \<Longrightarrow> no_panic P (f a)"
  shows "no_panic P (io_bind m (\<lambda>r. case r of None \<Rightarrow> n | Some a \<Rightarrow> f a))"
  unfolding no_panic_def
proof (intro allI impI)
  fix w
  assume w: "P w"
  obtain r w1 where m: "m w = (r, w1)" by fastforce
  then have r: "r \<noteq> Panic" "P w1" using assms(1) w by (auto simp: no_panic_def)
  consider "r = Ok None" | a where "r = Ok (Some a)" | e where "r = Err e" using r by (cases r) auto
  then show "fst (io_bind m (\<lambda>r. case r of None \<Rightarrow> n | Some a \<Rightarrow> f a) w) \<noteq> Panic \<and>
      P (snd (io_bind m (\<lambda>r. case r of None \<Rightarrow> n | Some a \<Rightarrow> f a) w))"
  proof cases
    case 1
    then show ?thesis using m r assms(2) by (simp add: no_panic_def)
  next
    case (2 a)
    then show ?thesis using m r assms(3,4) by (simp add: no_panic_def)
  qed (use m r in simp)
qed

context reliable_driver
begin

lemma navigate_similar [similar_rules]:
  "similar (twin_views sz disk inv) (navigate_directory oc d x nt cur ss) (navigate_directory oc ref x nt cur ss)"
  by (induction ss arbitrary: cur) (auto intro!: similar_rules)

lemma ntfs_ops_similar [similar_rules]:
  "similar (twin_views sz disk inv) (mount_ntfs oc d x) (mount_ntfs oc ref x)"
  "similar (twin_views sz disk inv) (remount_ntfs oc d x) (remount_ntfs oc ref x)"
  "similar (twin_views sz disk inv) (read_file_prefix oc d x nt f n k) (read_file_prefix oc ref x nt f n k)"
  "similar (twin_views sz disk inv) (file_exists oc d x nt f n) (file_exists oc ref x nt f n)"
  "similar (twin_views sz disk inv) (read_hives oc d x nt f b) (read_hives oc ref x nt f b)"
  unfolding ntfs_ops by (intro similar_rules)+

lemma scan_entries_similar [similar_rules]:
  "similar (twin_views sz disk inv) (scan_entries oc d it st) (scan_entries oc ref it st)"
proof (induction it arbitrary: st)
  case (IterItem i it)
  then show ?case unfolding scan_entries.simps by (intro similar_rules)
qed (auto intro!: similar_rules vdisk_read_similar on_view_seek_similar)

lemma fallback_folders_similar [similar_rules]:
  "similar (twin_views sz disk inv) (fallback_folders oc d x nt root fs out) (fallback_folders oc ref x nt root fs out)"
  by (induction fs arbitrary: out) (auto simp: scan_folders_as_programs_def intro!: similar_rules)

lemma fallback_os_similar [similar_rules]:
  "similar (twin_views sz disk inv) (fallback_os oc d x nt root) (fallback_os oc ref x nt root)"
  unfolding fallback_os_def detect_os_from_binaries_def by (intro similar_rules)

lemma windows_analyze_similar:
  assumes "\<And>p. p \<in> set parts \<Longrightarrow> pt_start p + pt_size p \<le> 2 ^ 64" "c \<le> 2 ^ 31" "c' \<le> 2 ^ 31"
  shows "similar (twin_worlds inv) (windows_analyze oc d x h parts c opts) (windows_analyze oc ref x h parts c' opts)"
proof -
  note view = with_view_similar [where sz = sz and disk = disk]
  have sys: "similar (twin_worlds inv) (is_system_partition oc d x (pt_start p) (pt_size p) c)
      (is_system_partition oc ref x (pt_start p) (pt_size p) c')" if "p \<in> set parts" for p
    unfolding is_system_partition_def by (intro view similar_rules assms that)
  have find: "similar (twin_worlds inv) (find_system_partition oc d x c ps) (find_system_partition oc ref x c' ps)"
    if "set ps \<subseteq> set parts" for ps
    using that by (induction ps) (auto intro!: similar_rules sys)
  have one: "similar (twin_worlds inv) (analyze_system_partition oc d x h c opts p)
      (analyze_system_partition oc ref x h c' opts p)" if "p \<in> set parts" for p
    unfolding analyze_system_partition_def extract_ntfs_hives_def apply_fs_fallback_def
    by (intro view similar_rules assms that)
  show ?thesis unfolding windows_analyze_def
  proof (intro similar_if similar_ret similar_bind_option [where Q = "\<lambda>p. p \<in> set parts"] one find)
    show "set (filter is_ntfs parts) \<subseteq> set parts" by auto
    show "p \<in> set parts" if "find_system_partition oc d x c (filter is_ntfs parts) s = (Ok (Some p), s')" for p s s'
      using find_system_partition_in [OF that] by simp
  qed
qed

end

section \<open>Degradation instead of failure\<close>

lemma no_err_more [no_err_rules]: "no_err (io_lift Panic)" "no_err (on_world (load_cancel d))"
  by (auto simp: no_err_def on_world_def load_cancel_def split: prod.splits)

primrec iter_safe :: "dir_iter \<Rightarrow> bool" where
  "iter_safe IterDone = True"
| "iter_safe IterPanic = False"
| "iter_safe (IterItem i it) = iter_safe it"
| "iter_safe (IterRead buf k) = (\<forall>r. iter_safe (k r))"
| "iter_safe (IterSeek p k) = (\<forall>r. iter_safe (k r))"

text \<open>A crate none of whose calls panics, whatever the disk answers.\<close>

definition ntfs_safe :: "('nt, 'f, 'ix, 'en, 'it, 'at, 'vl) ntfs_crate \<Rightarrow> bool" where
  "ntfs_safe x \<longleftrightarrow> prog_safe (nt_new x) \<and> (\<forall>nt. prog_safe (nt_read_upcase_table x nt)) \<and>
     (\<forall>nt. prog_safe (nt_root_directory x nt)) \<and> (\<forall>f. prog_safe (nt_directory_index x f)) \<and>
     (\<forall>nt ix s. prog_safe (nt_find x nt ix s)) \<and> (\<forall>nt en. prog_safe (nt_to_file x nt en)) \<and>
     (\<forall>f. prog_safe (nt_data x f)) \<and> (\<forall>it. prog_safe (nt_to_attribute x it)) \<and>
     (\<forall>at. prog_safe (nt_value x at)) \<and> (\<forall>v. prog_safe (nt_read_to_end x v)) \<and>
     (\<forall>v n. prog_safe (nt_read_prefix x v n)) \<and> (\<forall>ix. iter_safe (nt_entries x ix))"

lemma ntfs_safeD:
  assumes "ntfs_safe x"
  shows "prog_safe (nt_new x)" "prog_safe (nt_read_upcase_table x nt)" "prog_safe (nt_root_directory x nt)"
    "prog_safe (nt_directory_index x f)" "prog_safe (nt_find x nt ix s)" "prog_safe (nt_to_file x nt en)"
    "prog_safe (nt_data x f)" "prog_safe (nt_to_attribute x i)" "prog_safe (nt_value x a)"
    "prog_safe (nt_read_to_end x v)" "prog_safe (nt_read_prefix x v n)" "iter_safe (nt_entries x ix)"
  using assms unfolding ntfs_safe_def by simp_all

context vm_driver
begin

lemma no_panic_navigate:
  "ntfs_safe x \<Longrightarrow> no_panic (view_inv sz disk inv) (navigate_directory oc d x nt cur ss)"
  by (induction ss arbitrary: cur) (auto intro!: no_panic_rules no_panic_run_prog ntfs_safeD)

lemma no_panic_ntfs_ops:
  assumes "ntfs_safe x"
  shows "no_panic (view_inv sz disk inv) (mount_ntfs oc d x)"
    "no_panic (view_inv sz disk inv) (remount_ntfs oc d x)"
    "no_panic (view_inv sz disk inv) (read_file_prefix oc d x nt f n k)"
    "no_panic (view_inv sz disk inv) (file_exists oc d x nt f n)"
    "no_panic (view_inv sz disk inv) (read_hives oc d x nt f b)"
  unfolding ntfs_ops by (intro no_panic_rules no_panic_run_prog ntfs_safeD assms)+

lemma no_panic_scan_entries:
  "iter_safe it \<Longrightarrow> no_panic (view_inv sz disk inv) (scan_entries oc d it st)"
proof (induction it arbitrary: st)
  case (IterItem i it)
  then show ?case unfolding scan_entries.simps by (intro no_panic_rules) simp
qed (auto intro!: no_panic_resume no_panic_vdisk_read no_panic_seek no_panic_ret)

lemma no_panic_fallback_folders:
  assumes "ntfs_safe x"
  shows "no_panic (view_inv sz disk inv) (fallback_folders oc d x nt root fs out)"
  using assms
  by (induction fs arbitrary: out) (auto simp: scan_folders_as_programs_def
      intro!: no_panic_rules no_panic_navigate no_panic_run_prog no_panic_scan_entries ntfs_safeD)

lemma no_panic_fallback_os:
  assumes "ntfs_safe x"
  shows "no_panic (view_inv sz disk inv) (fallback_os oc d x nt root)"
  unfolding fallback_os_def detect_os_from_binaries_def
  by (intro no_panic_rules no_panic_navigate no_panic_ntfs_ops assms)

lemma no_panic_windows_analyze:
  assumes "ntfs_safe x" "\<And>p. p \<in> set parts \<Longrightarrow> pt_start p + pt_size p \<le> 2 ^ 64" "c \<le> 2 ^ 31"
  shows "no_panic inv (windows_analyze oc d x h parts c opts)"
proof -
  note ops = no_panic_rules no_panic_navigate no_panic_ntfs_ops no_panic_fallback_os no_panic_fallback_folders assms
  note view = no_panic_with_view [where sz = sz and disk = disk]
  have sys: "no_panic inv (is_system_partition oc d x (pt_start p) (pt_size p) c)" if "p \<in> set parts" for p
    unfolding is_system_partition_def by (intro view ops that)
  have find: "no_panic inv (find_system_partition oc d x c ps)" if "set ps \<subseteq> set parts" for ps
    using that by (induction ps) (auto intro!: no_panic_rules sys)
  have one: "no_panic inv (analyze_system_partition oc d x h c opts p)" if "p \<in> set parts" for p
    unfolding analyze_system_partition_def extract_ntfs_hives_def apply_fs_fallback_def
    by (intro view ops that)
  show ?thesis unfolding windows_analyze_def
  proof (intro no_panic_if no_panic_ret no_panic_bind_option [where Q = "\<lambda>p. p \<in> set parts"] one find)
    show "set (filter is_ntfs parts) \<subseteq> set parts" by auto
    show "p \<in> set parts" if "find_system_partition oc d x c (filter is_ntfs parts) s = (Ok (Some p), s')" for p s s'
      using find_system_partition_in [OF that] by simp
  qed
qed

end

lemma windows_analyze_no_err: "no_err (windows_analyze oc d x h parts c opts)"
proof -
  have "no_err (scan_entries oc d it st)" for it st
  proof (induction it arbitrary: st)
    case (IterItem i it)
    then show ?case unfolding scan_entries.simps by (intro no_err_rules)
  qed (auto intro!: no_err_rules)
  then have "no_err (fallback_folders oc d x nt root fs out)" for nt root fs out
    by (induction fs arbitrary: out) (auto simp: scan_folders_as_programs_def intro!: no_err_rules)
  moreover have "no_err (find_system_partition oc d x c ps)" for ps
    by (induction ps) (auto simp: is_system_partition_def intro!: no_err_rules)
  ultimately show ?thesis
    unfolding windows_analyze_def analyze_system_partition_def apply_fs_fallback_def fallback_os_def
      detect_os_from_binaries_def file_exists_def
    by (intro no_err_rules)
qed

section \<open>Properties\<close>


text \<open>A crate that mounts every disk and finds a directory \<open>Windows/System32/config\<close> with a SOFTWARE
  file, and a Registry parser that panics.\<close>

definition sample_ntfs :: "(unit, bool, unit, string, unit, unit, unit) ntfs_crate" where
  "sample_ntfs = \<lparr>nt_new = SeekTo (SeekStart 0) (\<lambda>_. ReadNext [0] (\<lambda>r. Return (case r of Inr _ \<Rightarrow> Ok () | Inl e \<Rightarrow> Err (io_text e)))),
     nt_read_upcase_table = (\<lambda>_. Return (Ok ())), nt_root_directory = (\<lambda>_. Return (Ok True)),
     nt_directory_index = (\<lambda>_. Return (Ok ())),
     nt_find = (\<lambda>_ _ s. Return (Ok (if s \<in> set (''SOFTWARE'' # CONFIG_PATH) then Some s else None))),
     nt_to_file = (\<lambda>_ s. Return (Ok (s \<in> set CONFIG_PATH))), nt_is_directory = (\<lambda>f. f),
     nt_data = (\<lambda>_. Return (Ok (Some ()))), nt_to_attribute = (\<lambda>_. Return (Ok ())), nt_value = (\<lambda>_. Return (Ok ())),
     nt_len = (\<lambda>_. 2), nt_read_to_end = (\<lambda>_. Return (Ok [1, 2])), nt_read_prefix = (\<lambda>_ _. Return (Ok [1])),
     nt_entries = (\<lambda>_. IterDone)\<rparr>"

definition panicking_hive :: "(unit, unit, unit) hive_crate" where
  "panicking_hive = \<lparr>hv_new = (\<lambda>_. Panic), hv_without_validation = (\<lambda>_. Panic), hv_root_key_node = (\<lambda>_. Panic),
     kn_name = (\<lambda>_. Panic), kn_subkeys = (\<lambda>_. Some Panic), kn_values = (\<lambda>_. Some Panic), kv_name = (\<lambda>_. Panic),
     kv_data = (\<lambda>_. Panic)\<rparr>"

definition ntfs_partition :: partition where
  "ntfs_partition = \<lparr>pt_index = 0, pt_start = 0, pt_size = 3, pt_kind = ''0x07'', pt_file_system = Ntfs, pt_label = None\<rparr>"

lemma sample_ntfs_safe: "ntfs_safe sample_ntfs"
  by (simp add: ntfs_safe_def sample_ntfs_def split: sum.splits)


text \<open>The analysis of a Windows guest is a function of the bytes of its disk: over a native reader whose
  reads do not fail it returns what it returns over the plain bytes, for every chunk size up to
  \<open>2 ^ 31\<close> and whatever is cached or evicted on the way.\<close>

theorem windows_analysis_depends_on_bytes:
  assumes "reader_live sz disk rd" and "\<forall>p \<in> set parts. pt_start p + pt_size p \<le> 2 ^ 64" and "chunk \<le> 2 ^ 31"
  shows "\<exists>rd'. windows_analyze oc (reader_driver oc') x h parts chunk opts rd =
    (fst (windows_analyze oc (pure_driver sz disk) x h parts 512 opts ()), rd') \<and> reader_live sz disk rd'"
proof -
  have "similar (twin_worlds (reader_live sz disk)) (windows_analyze oc (reader_driver oc') x h parts chunk opts)
      (windows_analyze oc (pure_driver sz disk) x h parts 512 opts)"
    using assms(2,3) by (intro live.windows_analyze_similar) auto
  then obtain r rd' u where "windows_analyze oc (reader_driver oc') x h parts chunk opts rd = (r, rd')"
      "windows_analyze oc (pure_driver sz disk) x h parts 512 opts () = (r, u)" "twin_worlds (reader_live sz disk) rd' u"
    by (rule similarE [where s = rd and t = "()"]) (use assms(1) in \<open>simp_all add: twin_worlds_def\<close>)
  then show ?thesis by (auto simp: twin_worlds_def)
qed

theorem windows_analysis_depends_on_bytes_witness:
  "\<exists>a rd'. windows_analyze True (reader_driver True) sample_ntfs panicking_hive [ntfs_partition] 4096 default_options
    sample_reader = (Ok a, rd') \<and> os_name (ar_guest_info a) = inaccessible_name \<and> length (ar_warnings a) = 2"
proof -
  have "reader_live 3 (reader_byte sample_reader) sample_reader"
    using sample_reader_inv by (simp add: reader_live_def sample_reader_def extents_live_def)
  then obtain rd' where "windows_analyze True (reader_driver True) sample_ntfs panicking_hive [ntfs_partition] 4096
      default_options sample_reader = (fst (windows_analyze True (pure_driver 3 (reader_byte sample_reader)) sample_ntfs
        panicking_hive [ntfs_partition] 512 default_options ()), rd')"
    using windows_analysis_depends_on_bytes [of 3 "reader_byte sample_reader" sample_reader "[ntfs_partition]" 4096
        True True sample_ntfs panicking_hive default_options] by (auto simp: ntfs_partition_def)
  moreover have "case fst (windows_analyze True (pure_driver 3 (reader_byte sample_reader)) sample_ntfs panicking_hive
      [ntfs_partition] 512 default_options ()) of
      Ok a \<Rightarrow> os_name (ar_guest_info a) = inaccessible_name \<and> length (ar_warnings a) = 2 | _ \<Rightarrow> False"
    by code_simp
  ultimately show ?thesis by (auto split: res.splits)
qed

end
