(* ===== verification/Floating.thy ===== *)
theory Floating
  imports Options
begin

text \<open>
  The floating-point arithmetic behind the numbers the program shows, and
  \<open>InspectionProgress::completion_percentage\<close> of \<open>src/models/options.rs\<close>.

  A non-negative float is a quotient of naturals.  Conversions, division and multiplication round the
  exact value to 53 binary digits for \<open>f64\<close> and to 24 for \<open>f32\<close>, ties to the even one;
  nothing here comes near the ends of the exponent range.  \<open>{:.w}\<close> rounds the exact value to
  \<open>w\<close> decimals the same way.
\<close>

section \<open>Rounding\<close>

definition round_half_even :: "nat \<Rightarrow> nat \<Rightarrow> nat" where
  "round_half_even n d = (let q = n div d; r = n mod d in
     if 2 * r < d \<or> 2 * r = d \<and> even q then q else q + 1)"

text \<open>The binary digits beyond the \<open>p\<close> that a float has.\<close>

function float_excess :: "nat \<Rightarrow> nat \<Rightarrow> nat" where
  "float_excess p n = (if n < 2 ^ p then 0 else Suc (float_excess p (n div 2)))"
  by pat_completeness auto
termination
proof (relation "measure snd", goal_cases)
  case (2 p n)
  then have "0 < n" by (metis gr0I zero_less_numeral zero_less_power)
  then show ?case by simp
qed simp

declare float_excess.simps [simp del]

text \<open>The doublings until a quotient has \<open>p\<close> binary digits before the point.\<close>

function float_scale :: "nat \<Rightarrow> nat \<Rightarrow> nat \<Rightarrow> nat" where
  "float_scale p a b = (if a = 0 \<or> b * 2 ^ (p - 1) \<le> a then 0 else Suc (float_scale p (2 * a) b))"
  by pat_completeness auto
termination by (relation "measure (\<lambda>(p, a, b). b * 2 ^ (p - 1) - a)") auto

declare float_scale.simps [simp del]

text \<open>The float with \<open>p\<close> digits nearest to \<open>a / b\<close>, as numerator and denominator.\<close>

definition float_round :: "nat \<Rightarrow> nat \<Rightarrow> nat \<Rightarrow> nat \<times> nat" where
  "float_round p a b = (let k = float_excess p (a div b); e = float_scale p a b in
     (round_half_even (a * 2 ^ e) (b * 2 ^ k) * 2 ^ k, 2 ^ e))"

definition as_f64 :: "nat \<Rightarrow> nat" where
  "as_f64 n = round_half_even n (2 ^ float_excess 53 n) * 2 ^ float_excess 53 n"

definition f64_div :: "nat \<Rightarrow> nat \<Rightarrow> nat \<times> nat" where
  "f64_div a b = float_round 53 a b"

definition f64_mul :: "nat \<times> nat \<Rightarrow> nat \<Rightarrow> nat \<times> nat" where
  "f64_mul x c = float_round 53 (fst x * c) (snd x)"

definition f64_min :: "nat \<times> nat \<Rightarrow> nat \<times> nat \<Rightarrow> nat \<times> nat" where
  "f64_min x y = (if fst x * snd y \<le> fst y * snd x then x else y)"

definition as_f32 :: "nat \<times> nat \<Rightarrow> nat \<times> nat" where
  "as_f32 x = float_round 24 (fst x) (snd x)"

text \<open>\<open>{:.w}\<close> of a float.\<close>

definition fixed_point :: "nat \<Rightarrow> nat \<Rightarrow> string" where
  "fixed_point w t = dec_str (t div 10 ^ w) @ ''.'' @ dec_padded w (t mod 10 ^ w)"

definition format_f64 :: "nat \<Rightarrow> nat \<Rightarrow> nat \<Rightarrow> string" where
  "format_f64 w num den = fixed_point w (round_half_even (num * 10 ^ w) den)"

section \<open>The percentage of a batch\<close>

definition completion_percentage :: "progress \<Rightarrow> nat \<times> nat" where
  "completion_percentage p = (let planned = pr_total_tasks p; completed = pr_completed_tasks p in
     if planned = 0 then (pr_percentage p, 1)
     else if planned \<le> completed then (100, 1)
     else as_f32 (f64_min (f64_mul (f64_div (as_f64 completed) (as_f64 planned)) 100)
       (float_round 53 9999999 100000)))"

section \<open>Laws\<close>

lemma round_half_even_error:
  assumes "0 < d"
  shows "2 * \<bar>int (round_half_even n d * d) - int n\<bar> \<le> int d"
proof -
  define q r where "q = n div d" and "r = n mod d"
  have n: "n = q * d + r" and r: "r < d" using assms by (simp_all add: q_def r_def)
  show ?thesis
  proof (cases "2 * r < d \<or> 2 * r = d \<and> even q")
    case True
    then have "round_half_even n d = q" by (simp add: round_half_even_def q_def r_def Let_def)
    then show ?thesis using n True by auto
  next
    case False
    then have "round_half_even n d = q + 1"
      by (auto simp: round_half_even_def q_def r_def Let_def)
    then have diff: "int (round_half_even n d * d) - int n = int d - int r"
      using n by (simp add: algebra_simps)
    have "int d \<le> 2 * int r" using False by auto
    then show ?thesis unfolding diff using r by simp
  qed
qed

lemma near_tenths:
  "2 * \<bar>x - y * 10\<bar> \<le> u \<Longrightarrow> 2 * \<bar>y - z\<bar> \<le> e \<Longrightarrow> 2 * \<bar>x - 10 * z\<bar> \<le> u + 10 * e" for x :: int
  by (simp add: abs_if split: if_splits)

lemma float_excess_small [simp]: "n < 2 ^ p \<Longrightarrow> float_excess p n = 0"
  by (simp add: float_excess.simps)

lemma float_excess_le: "n < 2 ^ (p + k) \<Longrightarrow> float_excess p n \<le> k"
proof (induction k arbitrary: n)
  case 0
  then show ?case by simp
next
  case (Suc k)
  then have "n < 2 ^ (p + k) * 2" by (simp add: power_add)
  then have "n div 2 < 2 ^ (p + k)" by (rule less_mult_imp_div_less)
  then show ?case using Suc.IH [of "n div 2"] by (subst float_excess.simps) simp
qed

lemma as_f64_small [simp]: "n < 2 ^ 53 \<Longrightarrow> as_f64 n = n"
  by (simp add: as_f64_def round_half_even_def)

lemma as_f64_error:
  assumes "n < 2 ^ 64"
  shows "2 * \<bar>int (as_f64 n) - int n\<bar> \<le> (if n < 2 ^ 53 then 0 else 2048)"
proof (cases "n < 2 ^ 53")
  case True
  then show ?thesis by simp
next
  case False
  have "float_excess 53 n \<le> 11" using assms by (intro float_excess_le) simp
  then have "(2::int) ^ float_excess 53 n \<le> 2 ^ 11" by (intro power_increasing) simp_all
  then have "int (2 ^ float_excess 53 n) \<le> 2048" by simp
  then show ?thesis
    using round_half_even_error [of "2 ^ float_excess 53 n" n] False by (simp add: as_f64_def)
qed

lemma float_scale_spec: "0 < a \<Longrightarrow> b * 2 ^ (p - 1) \<le> a * 2 ^ float_scale p a b"
proof (induction p a b rule: float_scale.induct)
  case (1 p a b)
  show ?case
  proof (cases "b * 2 ^ (p - 1) \<le> a")
    case True
    then show ?thesis by (simp add: float_scale.simps)
  next
    case False
    then show ?thesis using 1 by (subst float_scale.simps) (simp add: mult.left_commute mult.assoc)
  qed
qed

lemma float_excess_spec: "0 < float_excess p n \<Longrightarrow> 2 ^ (p + (float_excess p n - 1)) \<le> n"
proof (induction p n rule: float_excess.induct)
  case (1 p n)
  then have big: "\<not> n < 2 ^ p" by (cases "n < 2 ^ p") simp_all
  then have step: "float_excess p n = Suc (float_excess p (n div 2))" by (subst float_excess.simps) simp
  show ?case
  proof (cases "float_excess p (n div 2)")
    case 0
    then show ?thesis using step big by simp
  next
    case (Suc m)
    then have "2 ^ (p + m) \<le> n div 2" using 1(1) [OF big] by simp
    then show ?thesis using step Suc by simp
  qed
qed

text \<open>Before the rounding there are \<open>p\<close> binary digits, so the relative error is at most
  \<open>2 ^ -p\<close>.\<close>

lemma float_round_digits:
  assumes "0 < a" "0 < b" "0 < p"
  shows "b * 2 ^ float_excess p (a div b) * 2 ^ (p - 1) \<le> a * 2 ^ float_scale p a b"
proof (cases "float_excess p (a div b)")
  case 0
  then show ?thesis using float_scale_spec [OF assms(1), of b p] by simp
next
  case (Suc k)
  then have "2 ^ (p + k) \<le> a div b" using float_excess_spec [of p "a div b"] by simp
  then have "b * 2 ^ (p + k) \<le> b * (a div b)" by (rule mult_le_mono2)
  also have "\<dots> \<le> a" by simp
  finally have "b * 2 ^ (p + k) \<le> a * 2 ^ float_scale p a b"
    by (metis le_trans mult.right_neutral mult_le_mono2 one_le_numeral one_le_power)
  moreover have "Suc k + (p - 1) = p + k" using assms(3) by simp
  ultimately show ?thesis using Suc by (metis mult.assoc power_add)
qed

lemma float_round_error:
  assumes "float_round p a b = (n, d)" "0 < b" "0 < p"
  shows "0 < d \<and> 2 ^ p * \<bar>int (n * b) - int (a * d)\<bar> \<le> int (a * d)"
proof (cases "a = 0")
  case True
  then have "n = 0 \<and> 0 < d" using assms by (auto simp: float_round_def Let_def round_half_even_def)
  then show ?thesis using True by simp
next
  case False
  define k e where "k = float_excess p (a div b)" and "e = float_scale p a b"
  define N where "N = round_half_even (a * 2 ^ e) (b * 2 ^ k)"
  have nd: "n = N * 2 ^ k" "d = 2 ^ e" using assms(1) by (auto simp: float_round_def Let_def k_def e_def N_def)
  have two: "(2::int) ^ p = 2 ^ (p - 1) * 2" using assms(3) by (cases p) simp_all
  have "2 * \<bar>int (N * (b * 2 ^ k)) - int (a * 2 ^ e)\<bar> \<le> int (b * 2 ^ k)"
    unfolding N_def using assms(2) by (intro round_half_even_error) simp
  then have "2 ^ (p - 1) * (2 * \<bar>int (N * (b * 2 ^ k)) - int (a * 2 ^ e)\<bar>) \<le> 2 ^ (p - 1) * int (b * 2 ^ k)"
    by (rule mult_left_mono) simp
  also have "\<dots> = int (b * 2 ^ k * 2 ^ (p - 1))" by simp
  also have "\<dots> \<le> int (a * 2 ^ e)"
    using float_round_digits [of a b p] False assms(2,3) unfolding k_def e_def of_nat_le_iff by simp
  finally have "2 ^ p * \<bar>int (N * (b * 2 ^ k)) - int (a * 2 ^ e)\<bar> \<le> int (a * 2 ^ e)"
    by (simp add: two mult.assoc)
  moreover have "n * b = N * (b * 2 ^ k)" using nd by (simp add: mult.commute mult.left_commute)
  ultimately show ?thesis using nd(2) by (simp only:) simp
qed

lemma float_round_le:
  assumes "float_round p a b = (n, d)" "0 < b" "0 < p"
  shows "2 ^ p * (n * b) \<le> (2 ^ p + 1) * (a * d)"
proof -
  have "2 ^ p * \<bar>int (n * b) - int (a * d)\<bar> \<le> int (a * d)" using float_round_error [OF assms] by blast
  moreover have "2 ^ p * (int (n * b) - int (a * d)) \<le> 2 ^ p * \<bar>int (n * b) - int (a * d)\<bar>"
    by (intro mult_left_mono) simp_all
  ultimately have "2 ^ p * int (n * b) \<le> (2 ^ p + 1) * int (a * d)" by (simp only: right_diff_distrib distrib_right)
  then have "int (2 ^ p * (n * b)) \<le> int ((2 ^ p + 1) * (a * d))" by (simp add: distrib_right)
  then show ?thesis by (simp only: of_nat_le_iff)
qed

text \<open>The cap of the percentage stays below 100 in \<open>f32\<close>.\<close>

lemma cap_close: "fst (float_round 53 9999999 100000) * 10 ^ 7 \<le> 999999901 * snd (float_round 53 9999999 100000)"
  and cap_pos: "0 < snd (float_round 53 9999999 100000)"
  by code_simp+

lemma capped_below_100:
  assumes "fst v * snd c \<le> fst c * snd v" "fst c * 10 ^ 7 \<le> 999999901 * snd c" "0 < snd c" "0 < snd v"
  shows "fst (as_f32 v) < 100 * snd (as_f32 v) \<and> 0 < snd (as_f32 v)"
proof -
  obtain n d where nd: "float_round 24 (fst v) (snd v) = (n, d)" by fastforce
  have d: "0 < d" using float_round_error [OF nd assms(4)] by simp
  have "snd c * (fst v * 10 ^ 7) = (fst v * snd c) * 10 ^ 7" by simp
  also have "\<dots> \<le> (fst c * snd v) * 10 ^ 7" using assms(1) by (rule mult_le_mono1)
  also have "\<dots> = (fst c * 10 ^ 7) * snd v" by simp
  also have "\<dots> \<le> (999999901 * snd c) * snd v" using assms(2) by (rule mult_le_mono1)
  also have "\<dots> = snd c * (999999901 * snd v)" by simp
  finally have v: "fst v * 10 ^ 7 \<le> 999999901 * snd v" using assms(3) by (simp only: nat_mult_le_cancel1)
  have "2 ^ 24 * (n * snd v) * 10 ^ 7 \<le> (2 ^ 24 + 1) * (fst v * d) * 10 ^ 7"
    using float_round_le [OF nd assms(4)] by (intro mult_le_mono1) simp
  also have "\<dots> = (2 ^ 24 + 1) * d * (fst v * 10 ^ 7)" by simp
  also have "\<dots> \<le> (2 ^ 24 + 1) * d * (999999901 * snd v)" using v by (rule mult_le_mono2)
  finally have "snd v * (2 ^ 24 * 10 ^ 7 * n) \<le> snd v * ((2 ^ 24 + 1) * 999999901 * d)" by (simp add: ac_simps)
  then have "2 ^ 24 * 10 ^ 7 * n \<le> (2 ^ 24 + 1) * 999999901 * d" using assms(4) by (simp only: nat_mult_le_cancel1)
  then show ?thesis using nd d by (simp add: as_f32_def)
qed

section \<open>Properties\<close>

text \<open>C32. The percentage shown for a batch never overstates it, in spite of the coarse rounding of
  \<open>f32\<close>: with tasks planned it is at most 100, and it is 100 exactly when every task is complete.\<close>

theorem completion_percentage_bounded:
  assumes "0 < pr_total_tasks p" and "completion_percentage p = (n, d)"
  shows "0 < d \<and> n \<le> 100 * d \<and> (n = 100 * d \<longleftrightarrow> pr_total_tasks p \<le> pr_completed_tasks p)"
proof (cases "pr_total_tasks p \<le> pr_completed_tasks p")
  case True
  then show ?thesis using assms by (auto simp: completion_percentage_def)
next
  case False
  define c where "c = float_round 53 9999999 100000"
  define x where "x = f64_mul (f64_div (as_f64 (pr_completed_tasks p)) (as_f64 (pr_total_tasks p))) 100"
  have r: "as_f32 (f64_min x c) = (n, d)"
    using False assms by (simp add: completion_percentage_def Let_def x_def c_def)
  have pos: "0 < snd (float_round q a b)" for q a b by (simp add: float_round_def Let_def)
  have "0 < snd (f64_min x c)" by (simp add: f64_min_def x_def c_def f64_mul_def pos)
  moreover have "fst (f64_min x c) * snd c \<le> fst c * snd (f64_min x c)" by (simp add: f64_min_def)
  ultimately show ?thesis
    using capped_below_100 [of "f64_min x c" c] cap_close cap_pos r False by (simp add: c_def)
qed

theorem completion_percentage_bounded_witness:
  "\<exists>n d. completion_percentage (new_progress\<lparr>pr_total_tasks := 2 ^ 63, pr_completed_tasks := 2 ^ 63 - 1\<rparr>) = (n, d) \<and>
    n < 100 * d"
proof -
  let ?p = "new_progress\<lparr>pr_total_tasks := 2 ^ 63, pr_completed_tasks := 2 ^ 63 - 1\<rparr>"
  obtain n d where nd: "completion_percentage ?p = (n, d)" by fastforce
  have "0 < pr_total_tasks ?p" "\<not> pr_total_tasks ?p \<le> pr_completed_tasks ?p" by simp_all
  then have "n \<noteq> 100 * d \<and> n \<le> 100 * d" using completion_percentage_bounded [OF _ nd] by blast
  then show ?thesis using nd by auto
qed

end
