(* ===== verification/Human_Report.thy ===== *)
theory Human_Report
  imports Floating
begin

text \<open>
  The text of a report on the console: \<open>format_bytes\<close> of \<open>src/models/image.rs\<close>, the icons of
  \<open>src/models/partition.rs\<close> and \<open>print_human_report\<close> of \<open>src/bin/vmspect.rs\<close>.

  The two numbers that are printed from floating point are computed as in \<open>Floating\<close>.  Texts
  are UTF-8 bytes, so a column is padded by the number of bytes that start a character.  Lines are
  the elements of a list, as in \<open>Cli\<close>.
\<close>

section \<open>Sizes\<close>

definition UNITS :: "string list" where
  "UNITS = [''B'', ''KiB'', ''MiB'', ''GiB'', ''TiB'']"

text \<open>The loop that divides by 1024, which is exact: after \<open>idx\<close> rounds the value is
  \<open>v / 1024 ^ idx\<close>.\<close>

function unit_index :: "nat \<Rightarrow> nat \<Rightarrow> nat" where
  "unit_index v idx = (if 1024 * 1024 ^ idx \<le> v \<and> idx < length UNITS - 1 then unit_index v (idx + 1) else idx)"
  by pat_completeness auto
termination by (relation "measure (\<lambda>(v, idx). length UNITS - 1 - idx)") auto

declare unit_index.simps [simp del]

definition format_bytes :: "nat \<Rightarrow> string" where
  "format_bytes b = (let v = as_f64 b; idx = unit_index v 0 in
     if idx = 0 then dec_str b @ '' '' @ UNITS ! idx
     else format_f64 1 v (1024 ^ idx) @ '' '' @ UNITS ! idx)"

section \<open>The report\<close>

definition char_count :: "string \<Rightarrow> nat" where
  "char_count s = length (filter (\<lambda>c. \<not> is_cont (code c)) s)"

text \<open>The formats \<open>{:<w}\<close> and \<open>{:>w}\<close>.\<close>

definition pad_right :: "nat \<Rightarrow> string \<Rightarrow> string" where
  "pad_right w s = s @ replicate (w - char_count s) (CHR '' '')"

definition pad_left :: "nat \<Rightarrow> string \<Rightarrow> string" where
  "pad_left w s = replicate (w - char_count s) (CHR '' '') @ s"

fun icon :: "operating_system \<Rightarrow> string" where
  "icon Windows = [CHR 0xF0, CHR 0x9F, CHR 0xAA, CHR 0x9F]"
| "icon Linux = [CHR 0xF0, CHR 0x9F, CHR 0x90, CHR 0xA7]"
| "icon OsUnknown = [CHR 0xE2, CHR 0x9D, CHR 0x93]"

fun debug_os :: "operating_system \<Rightarrow> string" where
  "debug_os Windows = ''Windows''"
| "debug_os Linux = ''Linux''"
| "debug_os OsUnknown = ''Unknown''"

fun debug_scheme :: "table_scheme \<Rightarrow> string" where
  "debug_scheme Mbr = ''Mbr''"
| "debug_scheme Gpt = ''Gpt''"
| "debug_scheme NoScheme = ''None''"

definition size_text :: "nat \<Rightarrow> string" where
  "size_text b = format_bytes b @ '' ('' @ dec_str b @ '' bytes)''"

definition image_lines :: "image_info \<Rightarrow> string list" where
  "image_lines img = ['''', ''[+] IMAGE INFO'',
     ''    File:            '' @ im_path img,
     ''    Format:          '' @ to_ascii_uppercase (im_format img),
     ''    Hypervisor:      '' @ hypervisor_name (im_hypervisor img),
     ''    Virtual Size:    '' @ size_text (im_virtual_size img),
     ''    On-disk Size:    '' @ size_text (im_actual_size img)]"

definition partition_line :: "partition \<Rightarrow> string" where
  "partition_line p = ''    #'' @ dec_str (pt_index p) @ '' - FS: '' @ pad_right 10 (file_system_name (pt_file_system p))
     @ '' Size: '' @ pad_right 10 (format_bytes (pt_size p)) @ '' Offset: '' @ pad_right 12 (dec_str (pt_start p))
     @ '' Type: '' @ pt_kind p @ (case pt_label p of Some l \<Rightarrow> '' [Label: '' @ l @ '']'' | None \<Rightarrow> '''')"

definition partition_lines :: "report \<Rightarrow> string list" where
  "partition_lines rep = ['''', ''[+] PARTITIONS ('' @ debug_scheme (rp_scheme rep) @ '')'']
     @ (if rp_partitions rep = [] then [''    (No recognizable partitions were identified)'']
        else map partition_line (rp_partitions rep))"

definition tools_lines :: "guest_tools option \<Rightarrow> string list" where
  "tools_lines t = (case t of
       Some g \<Rightarrow> if gt_present g
         then [''    Guest Tools:     '' @ gt_kind g @ (case gt_version g of Some v \<Rightarrow> '' '' @ v | None \<Rightarrow> '''')]
         else []
     | None \<Rightarrow> [])"

definition system_lines :: "report \<Rightarrow> string list" where
  "system_lines rep = (let info = rp_guest_info rep in
     ['''', ''[+] OPERATING SYSTEM '' @ icon (rp_operating_system rep),
      ''    Family:          '' @ debug_os (rp_operating_system rep),
      ''    Name / Version:  '' @ (if os_name info \<noteq> '''' then formatted_os_string info
         else ''Not detected or unavailable'')]
     @ tools_lines (guest_tools_of info))"

definition warning_lines :: "string list \<Rightarrow> string list" where
  "warning_lines ws = (if ws = [] then []
     else ['''', ''[!] WARNINGS ('' @ dec_str (length ws) @ '')''] @ map (\<lambda>w. ''    - '' @ w) ws)"

definition program_line :: "nat \<Rightarrow> program \<Rightarrow> string" where
  "program_line n p = ''    '' @ pad_left 4 (dec_str n) @ ''. '' @ pad_right 45 (pg_name p) @ '' | Version: ''
     @ pad_right 20 (case pg_version p of Some v \<Rightarrow> v | None \<Rightarrow> ''-'') @ '' | Publisher: ''
     @ (case pg_publisher p of Some s \<Rightarrow> s | None \<Rightarrow> ''-'')"

definition program_lines :: "program list \<Rightarrow> string list" where
  "program_lines ps = ['''', ''[+] INSTALLED SOFTWARE ('' @ dec_str (length ps) @ '')'']
     @ (if ps = [] then [''    (No applications detected or extraction disabled)'']
        else map (\<lambda>(n, p). program_line n p) (zip [1..<length ps + 1] ps))"

definition statistics_lines :: "stats \<Rightarrow> nat \<Rightarrow> string list" where
  "statistics_lines s duration_ms = ['''', ''[+] STATISTICS'',
      ''    Access Mode:     '' @ st_access_mode s,
      ''    Bytes Read:      '' @ format_bytes (st_bytes_read s),
      ''    Read Operations: '' @ dec_str (st_read_operations s),
      ''    Cache Hits:      '' @ dec_str (st_cache_hits s),
      ''    Source Location: '' @ st_source_location s]
     @ (if st_nbd_requests s > 0 then [''    NBD Requests:    '' @ dec_str (st_nbd_requests s)] else [])
     @ [''    Phase Durations: identify '' @ dec_str (st_identification_duration_ms s)
          @ '' ms | backend '' @ dec_str (st_backend_initialization_duration_ms s)
          @ '' ms | partitions '' @ dec_str (st_partition_detection_duration_ms s)
          @ '' ms | guest '' @ dec_str (st_guest_analysis_duration_ms s)
          @ '' ms | report '' @ dec_str (st_report_generation_duration_ms s) @ '' ms'',
        ''    Duration:        '' @ dec_str duration_ms @ '' ms (''
          @ (case f64_div (as_f64 duration_ms) 1000 of (num, den) \<Rightarrow> format_f64 2 num den) @ '' s)'']"

definition print_human_report :: "report \<Rightarrow> nat \<Rightarrow> string list" where
  "print_human_report rep duration_ms = image_lines (rp_image rep) @ partition_lines rep @ system_lines rep
     @ warning_lines (rp_warnings rep) @ program_lines (rp_installed_programs rep)
     @ statistics_lines (rp_stats rep) duration_ms"

section \<open>Laws\<close>

lemma unit_index_spec:
  assumes "idx \<le> 4" "idx = 0 \<or> 1024 ^ idx \<le> v"
  shows "unit_index v idx \<le> 4 \<and> (unit_index v idx = 0 \<or> 1024 ^ unit_index v idx \<le> v) \<and>
    (unit_index v idx < 4 \<longrightarrow> v < 1024 ^ (unit_index v idx + 1))"
  using assms
proof (induction v idx rule: unit_index.induct)
  case (1 v idx)
  then show ?case by (subst (1 2 3 4 5) unit_index.simps) (auto simp: UNITS_def)
qed

lemma optional_lines: "(P \<Longrightarrow> m = []) \<Longrightarrow> \<exists>x y. h @ (if P then e else m) = x @ m @ y"
  by (rule exI [of _ "if P then h @ e else h"], rule exI [of _ "[]"]) simp

section \<open>Properties\<close>

text \<open>What \<open>format_bytes\<close> prints is the size: below one KiB the number of bytes, and otherwise
  tenths of the largest unit that fits (at most TiB), rounded to the nearest tenth; beyond \<open>2 ^ 53\<close>
  bytes the rounding of the floating-point conversion, at most 1024 bytes, comes on top.\<close>

theorem format_bytes_accurate:
  assumes "b < 2 ^ 64"
  shows "b < 1024 \<and> format_bytes b = dec_str b @ '' B'' \<or>
    (\<exists>i t. 0 < i \<and> i \<le> 4 \<and> 1024 \<le> b \<and> format_bytes b = fixed_point 1 t @ '' '' @ UNITS ! i \<and>
      1024 ^ i \<le> as_f64 b \<and> (i < 4 \<longrightarrow> as_f64 b < 1024 ^ (i + 1)) \<and>
      2 * \<bar>int (t * 1024 ^ i) - int (10 * b)\<bar> \<le> 1024 ^ i + (if b < 2 ^ 53 then 0 else 20480))"
proof -
  define i where "i = unit_index (as_f64 b) 0"
  have i: "i \<le> 4" "i = 0 \<or> 1024 ^ i \<le> as_f64 b" "i < 4 \<longrightarrow> as_f64 b < 1024 ^ (i + 1)"
    using unit_index_spec [of 0 "as_f64 b"] by (auto simp: i_def)
  have conv: "2 * \<bar>int (as_f64 b) - int b\<bar> \<le> (if b < 2 ^ 53 then 0 else 2048)"
    using assms by (rule as_f64_error)
  show ?thesis
  proof (cases "i = 0")
    case True
    then have "as_f64 b < 1024" using i by simp
    then have "b < 1024" using conv by (cases "b < 2 ^ 53") simp_all
    then show ?thesis using True by (simp add: format_bytes_def i_def UNITS_def)
  next
    case False
    define t where "t = round_half_even (as_f64 b * 10) (1024 ^ i)"
    have "2 * \<bar>int (t * 1024 ^ i) - int (as_f64 b * 10)\<bar> \<le> int (1024 ^ i)"
      unfolding t_def by (rule round_half_even_error) simp
    then have near: "2 * \<bar>int (t * 1024 ^ i) - int (10 * b)\<bar> \<le> 1024 ^ i + (if b < 2 ^ 53 then 0 else 20480)"
      using near_tenths [of "int (t * 1024 ^ i)" "int (as_f64 b)" "1024 ^ i" "int b", OF _ conv]
      by (cases "b < 2 ^ 53") simp_all
    have "1024 ^ 1 \<le> (1024 :: nat) ^ i" using False by (intro power_increasing) simp_all
    then have "1024 \<le> as_f64 b" using i(2) False by simp
    then have "1024 \<le> b" using conv by (cases "b < 2 ^ 53") simp_all
    moreover have "format_bytes b = fixed_point 1 t @ '' '' @ UNITS ! i"
      using False by (simp add: format_bytes_def i_def [symmetric] Let_def format_f64_def t_def)
    ultimately show ?thesis using near i False by blast
  qed
qed

theorem format_bytes_accurate_witness:
  "(1048575::nat) < 2 ^ 64 \<and> (\<exists>t. format_bytes 1048575 = fixed_point 1 t @ '' KiB'' \<and>
    2 * \<bar>int (t * 1024) - 10485750\<bar> \<le> 1024) \<and> format_bytes 1048575 = ''1024.0 KiB''"
proof -
  have i: "1024 ^ i \<le> (1048575::nat) \<Longrightarrow> i < 4 \<longrightarrow> 1048575 < (1024::nat) ^ (i + 1) \<Longrightarrow> 0 < i \<Longrightarrow> i \<le> 4 \<Longrightarrow> i = 1" for i
    by (cases "i = 1"; cases "i = 2"; cases "i = 3"; cases "i = 4") auto
  have shown: "format_bytes 1048575 = ''1024.0 KiB''" by code_simp
  obtain j t where "0 < j" "j \<le> 4" "format_bytes 1048575 = fixed_point 1 t @ '' '' @ UNITS ! j"
      "1024 ^ j \<le> as_f64 1048575" "j < 4 \<longrightarrow> as_f64 1048575 < 1024 ^ (j + 1)"
      "2 * \<bar>int (t * 1024 ^ j) - int (10 * 1048575)\<bar> \<le> 1024 ^ j + (if (1048575::nat) < 2 ^ 53 then 0 else 20480)"
    using format_bytes_accurate [of 1048575] by auto
  then show ?thesis using i [of j] shown by (auto simp: UNITS_def)
qed

text \<open>Nothing is lost in print: the report has one line for every partition, every warning and every
  program, in their order, the programs numbered from one, and a line holds the whole name.\<close>

theorem human_report_complete:
  "\<exists>a b c d. print_human_report rep ms = a @ map partition_line (rp_partitions rep)
      @ b @ map (\<lambda>w. ''    - '' @ w) (rp_warnings rep)
      @ c @ map (\<lambda>(n, p). program_line n p) (zip [1..<length (rp_installed_programs rep) + 1] (rp_installed_programs rep)) @ d \<and>
    (\<forall>n p. \<exists>u v. program_line n p = u @ pg_name p @ v)"
proof -
  have parts: "\<exists>x y. partition_lines rep = x @ map partition_line (rp_partitions rep) @ y"
    unfolding partition_lines_def by (rule optional_lines) simp
  have warns: "\<exists>x y. warning_lines ws = x @ map (\<lambda>w. ''    - '' @ w) ws @ y" for ws
    using optional_lines [of "ws = []" "map (\<lambda>w. ''    - '' @ w) ws"
        "['''', ''[!] WARNINGS ('' @ dec_str (length ws) @ '')'']" "[]"]
    by (cases "ws = []") (simp_all add: warning_lines_def)
  have progs: "\<exists>x y. program_lines ps = x @ map (\<lambda>(n, p). program_line n p) (zip [1..<length ps + 1] ps) @ y" for ps
    unfolding program_lines_def by (rule optional_lines) simp
  obtain x1 y1 x2 y2 x3 y3 where eqs: "partition_lines rep = x1 @ map partition_line (rp_partitions rep) @ y1"
    "warning_lines (rp_warnings rep) = x2 @ map (\<lambda>w. ''    - '' @ w) (rp_warnings rep) @ y2"
    "program_lines (rp_installed_programs rep) = x3 @ map (\<lambda>(n, p). program_line n p)
      (zip [1..<length (rp_installed_programs rep) + 1] (rp_installed_programs rep)) @ y3"
    using parts warns [of "rp_warnings rep"] progs [of "rp_installed_programs rep"] by (elim exE) blast
  have "program_line n p = (''    '' @ pad_left 4 (dec_str n) @ ''. '') @ pg_name p
      @ (replicate (45 - char_count (pg_name p)) (CHR '' '') @ '' | Version: ''
        @ pad_right 20 (case pg_version p of Some v \<Rightarrow> v | None \<Rightarrow> ''-'') @ '' | Publisher: ''
        @ (case pg_publisher p of Some s \<Rightarrow> s | None \<Rightarrow> ''-''))" for n p
    by (simp add: program_line_def pad_right_def)
  then show ?thesis
    unfolding print_human_report_def eqs by (metis append_assoc)
qed

end
