(* ===== verification/Engine.thy ===== *)
theory Engine
  imports Linux_Guest Windows_Guest Human_Report
begin

text \<open>
  The inspection of one image: \<open>src/engine/mod.rs\<close> (\<open>InspectionEngine\<close>), \<open>src/parsers/mod.rs\<close>,
  \<open>src/parsers/desconocido.rs\<close> and the two entry points of \<open>src/lib.rs\<close>.

  An engine has a cancellation flag, a progress record and the events sent to the callback.  The flag
  is one shared atomic: while a reader is open its current state is the reader's \<open>dk_cancel\<close>, and it is
  put back into the engine at the end.  The environment \<open>ie\<close> holds the host, the helper and the readings
  of the clock.
\<close>

section \<open>Inspectors\<close>

definition unknown_analyze :: "options \<Rightarrow> ('w, vm_error, analysis_result) io" where
  "unknown_analyze opts = io_ret \<lparr>ar_guest_info = (if should_analyze_system opts
       then default_guest_info\<lparr>os_name := ''Unknown operating system''\<rparr> else default_guest_info),
     ar_programs = [], ar_warnings = []\<rparr>"

definition get_inspector where
  "get_inspector oc d x nt h os parts chunk opts = (case os of
       Windows \<Rightarrow> windows_analyze oc d nt h parts chunk opts
     | Linux \<Rightarrow> linux_analyze oc d x parts chunk opts
     | OsUnknown \<Rightarrow> unknown_analyze opts)"

section \<open>The engine\<close>

record engine =
  eg_token :: token
  eg_progress :: progress
  eg_events :: "progress_event list"

record inspect_env =
  ie_host :: host
  ie_resolved :: "(io_error, path) res"
  ie_nbd :: nbd_env
  ie_clock :: "nat \<Rightarrow> nat"

text \<open>\<open>InspectionEngine::new\<close>: the flag is loaded once for the progress record.\<close>

definition new_engine :: "options \<Rightarrow> engine" where
  "new_engine opts = (let p = progress_with_token (op_cancel_token opts) in
     \<lparr>eg_token = pr_token p, eg_progress = p, eg_events = []\<rparr>)"

definition engine_cancel :: "engine \<Rightarrow> engine" where
  "engine_cancel e = e\<lparr>eg_token := cancel_token (eg_token e), eg_progress := progress_cancel (eg_progress e)\<rparr>"

text \<open>\<open>is_cancelled\<close>: the flag, the progress record's own mark, and the flag once more through the
  record's link to it.\<close>

definition flag_set :: "progress \<Rightarrow> token \<Rightarrow> bool \<times> token" where
  "flag_set p t = (case load_token t of (c, t') \<Rightarrow>
     if c \<or> pr_cancelled p then (True, t') else load_token t')"

definition engine_is_cancelled :: "(engine, 'e, bool) io" where
  "engine_is_cancelled e = (case flag_set (eg_progress e) (eg_token e) of (c, t) \<Rightarrow> (Ok c, e\<lparr>eg_token := t\<rparr>))"

definition reader_is_cancelled :: "(disk_reader \<times> engine, 'e, bool) io" where
  "reader_is_cancelled = (\<lambda>(rd, e). case flag_set (eg_progress e) (dk_cancel rd) of (c, t) \<Rightarrow>
     (Ok c, (rd\<lparr>dk_cancel := t\<rparr>, e)))"

definition stop_if :: "('w, vm_error, bool) io \<Rightarrow> ('w, vm_error, unit) io" where
  "stop_if m = io_bind m (\<lambda>c. if c then io_err Cancelled else io_ret ())"

text \<open>Progress and events; without a callback no event is built.\<close>

definition modify :: "('w \<Rightarrow> 'w) \<Rightarrow> ('w, 'e, unit) io" where
  "modify f w = (Ok (), f w)"

definition emit :: "bool \<Rightarrow> nat \<Rightarrow> string \<Rightarrow> string \<Rightarrow> engine \<Rightarrow> engine" where
  "emit cb pct stage detail e = (if cb then e\<lparr>eg_events := eg_events e @
     [\<lparr>ev_percentage = pct, ev_stage = stage, ev_detail = Some detail\<rparr>]\<rparr> else e)"

definition mark :: "bool \<Rightarrow> nat \<Rightarrow> string \<Rightarrow> string \<Rightarrow> engine \<Rightarrow> engine" where
  "mark cb pct stage detail e = emit cb pct stage detail (e\<lparr>eg_progress := set_percentage pct (eg_progress e)\<rparr>)"

definition in_stage :: "nat \<Rightarrow> engine \<Rightarrow> engine" where
  "in_stage n e = e\<lparr>eg_progress := set_stage_id n (eg_progress e)\<rparr>"

section \<open>Identification\<close>

definition to_image_error :: "path \<Rightarrow> io_error \<Rightarrow> vm_error" where
  "to_image_error p e = (if kind_of e = NotFound then ImageNotFound p else Io e)"

definition identified_detail :: "inspect_env \<Rightarrow> image_info \<Rightarrow> string" where
  "identified_detail ie img = ''Format: '' @ im_format img @ '' | Hypervisor: '' @ hypervisor_name (im_hypervisor img)
     @ '' | Size: '' @ format_bytes (im_virtual_size img)"

definition identify_stage :: "bool \<Rightarrow> inspect_env \<Rightarrow> options \<Rightarrow> bool \<Rightarrow> path \<Rightarrow> (engine, vm_error, image_info) io" where
  "identify_stage oc ie opts cb p =
     io_bind (io_lift (map_err (to_image_error p) (host_metadata (ie_host ie) p))) (\<lambda>_.
     io_bind (stop_if engine_is_cancelled) (\<lambda>_.
     io_bind (modify (\<lambda>e. mark cb 5 ''Identifying disk image'' (''Analyzing '' @ p) (in_stage 1 e))) (\<lambda>_.
     io_bind (io_lift (map_err (to_image_error p) (identify_image oc (ie_host ie) p))) (\<lambda>img.
     io_bind (stop_if engine_is_cancelled) (\<lambda>_.
     io_bind (modify (\<lambda>e. mark cb 15 ''Initializing read backend'' (identified_detail ie img)
       (e\<lparr>eg_progress := set_total_bytes (im_virtual_size img) (eg_progress e)\<rparr>))) (\<lambda>_.
     io_bind (modify (\<lambda>e. if op_force_nbd opts then emit cb 15 ''Explicit external backend enabled''
         (''Warning: qemu-nbd will be launched as an explicitly requested, read-only helper. ''
           @ ''It does not mount or attach the image in the host OS.'') e else e)) (\<lambda>_.
       io_ret img)))))))"

section \<open>Detection, guest analysis and report\<close>

definition engine_driver :: "bool \<Rightarrow> (disk_reader \<times> engine) driver" where
  "engine_driver oc = \<lparr>dr_size = (\<lambda>w. dr_size (reader_driver oc) (fst w)),
     dr_read = (\<lambda>off n (rd, e). case dr_read (reader_driver oc) off n rd of (r, rd') \<Rightarrow> (r, (rd', e))),
     dr_hit = (\<lambda>(rd, e). (dr_hit (reader_driver oc) rd, e)),
     dr_cancelled = (\<lambda>(rd, e). case dr_cancelled (reader_driver oc) rd of (c, rd') \<Rightarrow> (c, (rd', e)))\<rparr>"

definition partition_done :: "disk_reader \<times> engine \<Rightarrow> disk_reader \<times> engine" where
  "partition_done = (\<lambda>(rd, e). (rd, e\<lparr>eg_progress := increment_completed_tasks (eg_progress e)\<rparr>))"

definition detect_stage :: "bool \<Rightarrow> (disk_reader \<times> engine, vm_error, detected_disk) io" where
  "detect_stage oc = resume (detect_with_progress oc (engine_driver oc) partition_done) (\<lambda>r. case r of
       Inr dd \<Rightarrow> io_ret dd
     | Inl err \<Rightarrow> if kind_of err = Interrupted
         then io_bind reader_is_cancelled (\<lambda>c. io_err (if c then Cancelled else Io err)) else io_err (Io err))"

type_synonym inspector =
  "operating_system \<Rightarrow> partition list \<Rightarrow> nat \<Rightarrow> options \<Rightarrow> (disk_reader \<times> engine, vm_error, analysis_result) io"

definition guest_failure :: "vm_error \<Rightarrow> string" where
  "guest_failure e = ''Could not complete the guest OS analysis; continuing with image/partition data only: '' @ display_error e"

definition guest_stage :: "inspector \<Rightarrow> options \<Rightarrow> nat \<Rightarrow> detected_disk \<Rightarrow> (disk_reader \<times> engine, vm_error, analysis_result) io" where
  "guest_stage an opts chunk dd =
     (if should_analyze_system opts \<or> should_analyze_apps opts
      then resume (an (dd_operating_system dd) (dd_partitions dd) chunk opts) (\<lambda>r. case r of
          Inr a \<Rightarrow> io_ret a
        | Inl e \<Rightarrow> io_ret (default_analysis\<lparr>ar_warnings := [guest_failure e]\<rparr>))
      else io_ret default_analysis)"

fun os_debug :: "operating_system \<Rightarrow> string" where
  "os_debug Windows = ''Windows''"
| "os_debug Linux = ''Linux''"
| "os_debug OsUnknown = ''Unknown''"

definition final_stats :: "inspect_env \<Rightarrow> disk_reader \<Rightarrow> stats" where
  "final_stats ie rd = (dk_stats rd)\<lparr>
     st_identification_duration_ms := ie_clock ie 0, st_backend_initialization_duration_ms := ie_clock ie 1,
     st_partition_detection_duration_ms := ie_clock ie 2, st_guest_analysis_duration_ms := ie_clock ie 3,
     st_report_generation_duration_ms := ie_clock ie 4, st_duration_ms := ie_clock ie 5\<rparr>"

definition make_report :: "inspect_env \<Rightarrow> image_info \<Rightarrow> detected_disk \<Rightarrow> analysis_result \<Rightarrow> disk_reader \<Rightarrow> report" where
  "make_report ie img dd a rd = \<lparr>rp_image = img, rp_scheme = dd_scheme dd, rp_partitions = dd_partitions dd,
     rp_operating_system = dd_operating_system dd, rp_guest_info = ar_guest_info a,
     rp_installed_programs = ar_programs a, rp_warnings = ar_warnings a, rp_stats = final_stats ie rd\<rparr>"

definition completed_detail :: "inspect_env \<Rightarrow> stats \<Rightarrow> string" where
  "completed_detail ie s = ''Backend: '' @ st_access_mode s @ '' | Reads: '' @ dec_str (st_read_operations s)
     @ '' | Bytes: '' @ format_bytes (st_bytes_read s) @ '' | Cache hits: '' @ dec_str (st_cache_hits s)"

definition on_engine :: "(engine \<Rightarrow> engine) \<Rightarrow> (disk_reader \<times> engine, 'e, unit) io" where
  "on_engine f = modify (\<lambda>(rd, e). (rd, f e))"

definition chunk_size_of :: "options \<Rightarrow> disk_reader \<Rightarrow> nat" where
  "chunk_size_of opts rd = (case op_chunk_size opts of Some c \<Rightarrow> c | None \<Rightarrow> recommended_chunk_size rd)"

definition report_stage :: "inspect_env \<Rightarrow> bool \<Rightarrow> image_info \<Rightarrow> detected_disk \<Rightarrow> analysis_result
    \<Rightarrow> (disk_reader \<times> engine, vm_error, report) io" where
  "report_stage ie cb img dd a =
     io_bind (on_engine (\<lambda>e. mark cb 90 ''Generating final report''
       (dec_str (length (ar_programs a)) @ '' programs/packages identified'') (in_stage 4 e))) (\<lambda>_ (rd, e).
       (let rep = make_report ie img dd a rd
        in (Ok rep, (rd, mark cb 100 ''Analysis completed successfully'' (completed_detail ie (rp_stats rep)) e))))"

definition inspect_reader :: "bool \<Rightarrow> inspect_env \<Rightarrow> inspector \<Rightarrow> options \<Rightarrow> bool \<Rightarrow> image_info \<Rightarrow> nat \<Rightarrow> string
    \<Rightarrow> (disk_reader \<times> engine, vm_error, report) io" where
  "inspect_reader oc ie an opts cb img chunk mode =
     io_bind (stop_if reader_is_cancelled) (\<lambda>_.
     io_bind (on_engine (\<lambda>e. mark cb 25 ''Reading partition table''
       (''Access: '' @ mode @ '' | Chunk size: '' @ format_bytes chunk) (in_stage 2 e))) (\<lambda>_.
     io_bind (detect_stage oc) (\<lambda>dd.
     io_bind (stop_if reader_is_cancelled) (\<lambda>_.
     io_bind (on_engine (\<lambda>e. mark cb 45 ''Analyzing file systems'' (dec_str (length (dd_partitions dd))
       @ '' partitions found. OS detected: '' @ os_debug (dd_operating_system dd)) e)) (\<lambda>_.
     io_bind (on_engine (\<lambda>e. mark cb 55 (''Analyzing operating system ('' @ os_debug (dd_operating_system dd) @ '')'')
       ''Starting system files / Registry scan'' (in_stage 3 e))) (\<lambda>_.
     io_bind (guest_stage an opts chunk dd) (\<lambda>a.
     io_bind (stop_if reader_is_cancelled) (\<lambda>_.
       report_stage ie cb img dd a))))))))"

definition run_inspection :: "bool \<Rightarrow> inspect_env \<Rightarrow> inspector \<Rightarrow> options \<Rightarrow> bool \<Rightarrow> path \<Rightarrow> (engine, vm_error, report) io" where
  "run_inspection oc ie an opts cb p = io_bind (identify_stage oc ie opts cb p) (\<lambda>img e.
     (case open_with_options_diagnostic oc (ie_host ie) (ie_resolved ie) (ie_nbd ie) img
         (opts\<lparr>op_cancel_token := eg_token e\<rparr>) of
        (Ok rd, tok) \<Rightarrow>
          (case inspect_reader oc ie an opts cb img (chunk_size_of opts rd) (dk_access_mode rd) (rd, e) of
             (r, (rd', e')) \<Rightarrow> (r, e'\<lparr>eg_token := dk_cancel rd'\<rparr>))
      | (Err x, tok) \<Rightarrow> (Err x, e\<lparr>eg_token := tok\<rparr>)
      | (Panic, tok) \<Rightarrow> (Panic, e\<lparr>eg_token := tok\<rparr>)))"

section \<open>Entry points\<close>

definition engine_inspect where
  "engine_inspect oc ie x nt h opts cb p =
     run_inspection oc ie (get_inspector oc (engine_driver oc) x nt h) opts cb p"

text \<open>\<open>inspect_background\<close>: \<open>spawned\<close> is the outcome of creating the thread.  The clone shares the
  flag and the progress, so the value of the join handle is that of \<open>inspect\<close>.\<close>

definition inspect_background where
  "inspect_background spawned oc ie x nt h opts p e = (case spawned of
       Inl err \<Rightarrow> Err (Io err)
     | Inr (_ :: unit) \<Rightarrow> Ok (engine_inspect oc ie x nt h opts False p e))"

definition inspect_summary where
  "inspect_summary oc ie x nt h opts p = (let opts' = opts\<lparr>op_no_apps := True\<rparr> in
     case engine_inspect oc ie x nt h opts' False p (new_engine opts') of
       (r, e) \<Rightarrow> (and_then r (\<lambda>rep. Ok (report_summary rep)), e))"

text \<open>\<open>lib.rs\<close>: the message of an event, its percentage right-aligned in three columns.\<close>

definition event_message :: "progress_event \<Rightarrow> string" where
  "event_message ev = (let n = dec_str (ev_percentage ev) in
     ''['' @ replicate (3 - length n) (CHR '' '') @ n @ ''%] '' @ ev_stage ev
       @ (case ev_detail ev of Some d \<Rightarrow> '' - '' @ d | None \<Rightarrow> ''''))"

definition lib_inspect where
  "lib_inspect oc ie x nt h opts p = (case engine_inspect oc ie x nt h opts True p (new_engine opts) of
     (r, e) \<Rightarrow> (r, map event_message (eg_events e)))"

definition lib_inspect_with_progress where
  "lib_inspect_with_progress oc ie x nt h opts p = (case engine_inspect oc ie x nt h opts True p (new_engine opts) of
     (r, e) \<Rightarrow> (r, eg_events e))"

section \<open>What reading the disk cannot change\<close>

text \<open>An invariant that the operations of a driver keep is kept by detection and by both inspectors.\<close>

lemma keepsD: "keeps P m \<Longrightarrow> P w \<Longrightarrow> m w = (r, w') \<Longrightarrow> P w'"
  unfolding keeps_def by (metis snd_conv)

lemma keepsI: "(\<And>w r w'. P w \<Longrightarrow> m w = (r, w') \<Longrightarrow> P w') \<Longrightarrow> keeps P m"
  unfolding keeps_def by (metis prod.collapse)

lemma keeps_resume [keeps_rules]: "keeps P m \<Longrightarrow> (\<And>x. keeps P (k x)) \<Longrightarrow> keeps P (resume m k)"
  by (auto simp: keeps_def resume_def split: prod.splits res.splits)

lemma keeps_map_err [keeps_rules]: "keeps P m \<Longrightarrow> keeps P (io_map_err g m)"
  by (auto simp: keeps_def io_map_err_def split: prod.splits)

lemma keeps_err [keeps_rules]: "keeps P (io_err e)"
  by (simp add: keeps_def)

lemma keeps_try [keeps_rules]: "keeps P m \<Longrightarrow> keeps P (io_try m)"
  unfolding io_try_def by (intro keeps_rules)

lemma keeps_catch [keeps_rules]: "keeps P m \<Longrightarrow> keeps P (catch_unwind m)"
  by (auto simp: keeps_def catch_unwind_def split: prod.splits res.splits)

lemma keeps_sum [keeps_rules]:
  "(\<And>e. keeps P (f e)) \<Longrightarrow> (\<And>a. keeps P (g a)) \<Longrightarrow> keeps P (case x of Inl e \<Rightarrow> f e | Inr a \<Rightarrow> g a)"
  by (cases x) simp_all

lemma keeps_with_view [keeps_rules]:
  "keeps (\<lambda>s. P (snd s)) m \<Longrightarrow> keeps P (with_view oc base len chunk m)"
  unfolding keeps_def with_view_def by (auto split: res.splits prod.splits) (metis snd_conv)

lemma keeps_on_world [keeps_rules]: "keeps P m \<Longrightarrow> keeps (\<lambda>s. P (snd s)) (on_world m)"
  by (auto simp: on_world_def intro!: keepsI dest: keepsD split: prod.splits)

lemma keeps_on_view [keeps_rules]: "keeps (\<lambda>s. P (snd s)) (on_view m)"
  by (auto simp: keeps_def on_view_def split: prod.splits)

locale stable_driver =
  fixes d :: "'w driver" and P :: "'w \<Rightarrow> bool"
  assumes keeps_read: "keeps P (dr_read d off n)"
    and keeps_hit: "P w \<Longrightarrow> P (dr_hit d w)"
    and keeps_cancelled: "P w \<Longrightarrow> P (snd (dr_cancelled d w))"
begin

lemma keeps_check [keeps_rules]: "keeps P (check_cancel d)" "keeps P (load_cancel d)"
  using keeps_cancelled
  by (auto simp: check_cancel_def load_cancel_def intro!: keepsI split: prod.splits) (metis snd_conv)+

lemma keeps_blocks [keeps_rules]: "keeps P (read_blocks oc d bs index n)"
  unfolding read_blocks_def Let_def by (intro keeps_rules keeps_read)

lemma keeps_mbr [keeps_rules]: "keeps P (read_mbr oc d mbr)"
proof -
  have "keeps P (extended_rounds k oc d lba ebr out)" for k lba ebr out
    by (induction k arbitrary: ebr out) (auto simp: Let_def intro!: keeps_rules)
  then have "keeps P (mbr_entry oc d e out)" for e out
    unfolding mbr_entry_def Let_def read_extended_chain_def by (intro keeps_rules)
  then show ?thesis unfolding read_mbr_def by (intro keeps_rules)
qed

lemma keeps_table [keeps_rules]: "keeps P (read_table oc d hdr)"
proof -
  have out: "keeps P (\<lambda>w. if c then (f w, w) else (g w, w))" for c and f g :: "'w \<Rightarrow> (io_error, 'b) res"
    by (simp add: keeps_def)
  have one: "keeps P (\<lambda>w. (f w, w))" for f :: "'w \<Rightarrow> (io_error, 'b) res" by (simp add: keeps_def)
  show ?thesis unfolding read_table_def read_gpt_def Let_def by (intro keeps_rules out one)
qed

lemma keeps_detect:
  assumes tick: "\<And>w. P w \<Longrightarrow> P (tick w)"
  shows "keeps P (detect_with_progress oc d tick)"
proof -
  have fs: "keeps P (detect_fs oc d p)" for p
    unfolding detect_fs_def identify_linux_fs_def Let_def by (intro keeps_rules)
  have after: "keeps P (\<lambda>w. m (tick w))" if "keeps P m" for m :: "('w, io_error, 'b) io"
    using that tick by (simp add: keeps_def)
  have "keeps P (detect_all oc d tick ps)" for ps
  proof (induction ps)
    case (Cons p ps)
    show ?case unfolding detect_all.simps by (intro keeps_rules fs after Cons)
  next
    case Nil
    show ?case unfolding detect_all.simps by (intro keeps_rules)
  qed
  then show ?thesis unfolding detect_with_progress_def by (intro keeps_rules)
qed

abbreviation V :: "vdisk \<times> 'w \<Rightarrow> bool" where
  "V \<equiv> \<lambda>s. P (snd s)"

lemma keeps_fetch: "keeps V (fetch_chunk oc d i)"
proof -
  have ld: "keeps P (load_chunk oc d v i)" for v
  proof (rule keepsI)
    fix w r w'
    assume "P w" "load_chunk oc d v i w = (r, w')"
    then show "P w'"
      using keepsD [OF keeps_map_err [OF keeps_read]]
      by (auto simp: load_chunk_def split: res.splits if_splits)
  qed
  show ?thesis using keeps_hit
    by (auto simp: fetch_chunk_def intro!: keepsI dest: keepsD [OF ld] split: option.splits prod.splits res.splits)
qed

lemma keeps_read_cached_loop: "V st \<Longrightarrow> V (snd (read_cached_loop oc d pos tot tr buf st))"
proof (induction "tot - tr" arbitrary: tr buf st rule: less_induct)
  case less
  let ?cur = "pos + tr" and ?c = "vd_chunk_size (fst st)"
  obtain r st1 where ft: "fetch_chunk oc d (?cur div ?c) st = (r, st1)" by (metis prod.exhaust)
  have st1: "V st1" using keepsD [OF keeps_fetch less(2) ft] .
  show ?case
  proof (cases "tr < tot \<and> ?c \<noteq> 0")
    case True
    show ?thesis
    proof (cases r)
      case (Ok dat)
      then show ?thesis
        using True ft st1 less(1) [OF _ st1, of "tr + min (tot - tr) (length dat - ?cur mod ?c)"]
        by (subst read_cached_loop.simps) (auto simp: Let_def)
    qed (use True ft st1 in \<open>subst read_cached_loop.simps; simp add: Let_def\<close>)+
  qed (use less(2) in \<open>subst read_cached_loop.simps; auto simp: Let_def\<close>)
qed

lemma keeps_read_with_cache: "keeps V (read_with_cache oc d pos buf)"
  using keeps_read_cached_loop by (auto simp: keeps_def read_with_cache_def)

lemma keeps_vdisk_read: "keeps V (vdisk_read oc d buf)"
proof -
  have "V (snd (vdisk_read oc d buf st))" if "V st" for st
  proof -
    obtain r v' w' where "read_with_cache oc d (vd_position (fst st)) buf st = (r, (v', w'))" by (metis prod.exhaust)
    moreover from this have "P w'" using keepsD [OF keeps_read_with_cache that] by fastforce
    ultimately show ?thesis by (cases r) (auto simp: vdisk_read_def io_bind_def split: res.splits)
  qed
  then show ?thesis by (simp add: keeps_def)
qed

lemma keeps_prog [keeps_rules]: "keeps V (run_prog oc d p)"
proof (induction p)
  case (Return r)
  show ?case unfolding run_prog.simps by (intro keeps_rules)
next
  case (ReadAt pos buf k)
  then show ?case by (auto intro!: keeps_resume keeps_read_with_cache)
next
  case (ReadNext buf k)
  then show ?case by (auto intro!: keeps_resume keeps_vdisk_read)
next
  case (SeekTo s k)
  then show ?case by (auto intro!: keeps_resume keeps_on_view)
qed

lemma keeps_linux: "keeps P (linux_analyze oc d x parts chunk opts)"
proof -
  have "keeps P (dpkg_lines d apps ls s)" for apps ls s
    by (induction ls arbitrary: s) (auto intro!: keeps_rules)
  then have dpkg: "keeps P (parse_dpkg_status d t opts)" for t
    unfolding parse_dpkg_status_def Let_def by (intro keeps_rules)
  have any: "keeps V (any_path oc d x sb ps)" for sb ps
    by (induction ps) (auto intro!: keeps_rules)
  have "keeps V (first_tools oc d x sb ts)" for sb ts
    by (induction ts) (auto intro!: keeps_rules any)
  then have "keeps V (analyze_file_system oc d x sb opts)" for sb
    unfolding analyze_file_system_def read_os_info_def read_packages_def read_text_file_def
      detect_guest_tools_linux_files_def Let_def
    by (intro keeps_rules dpkg)
  then have "keeps P (try_candidate oc d x chunk opts p)" for p
    unfolding try_candidate_def by (intro keeps_rules)
  then have "keeps P (try_candidates oc d x chunk opts ps)" for ps
    by (induction ps) (auto intro!: keeps_rules)
  then show ?thesis unfolding linux_analyze_def by (intro keeps_rules)
qed

lemma keeps_hives [keeps_rules]: "keeps P (analyze_hives d h hs opts)"
proof -
  have "keeps P (extract_programs_from_subkeys d h ks out)" for ks out
  proof (induction ks arbitrary: out)
    case (Cons k ks)
    then show ?case by (cases k) (auto intro!: keeps_rules)
  qed (auto intro: keeps_rules)
  then have "keeps P (programs_below d h root ps out)" for root ps out
    by (induction ps arbitrary: out) (auto intro!: keeps_rules)
  then show ?thesis
    unfolding analyze_hives_def try_analyze_software_def search_programs_in_registry_def
    by (intro keeps_rules)
qed

lemma keeps_windows: "keeps P (windows_analyze oc d x h parts chunk opts)"
proof -
  have nav: "keeps V (navigate_directory oc d x nt cur ss)" for nt cur ss
    by (induction ss arbitrary: cur) (auto intro!: keeps_rules)
  have ops: "keeps V (mount_ntfs oc d x)" "keeps V (remount_ntfs oc d x)" "keeps V (read_file_prefix oc d x nt f n k)"
      "keeps V (file_exists oc d x nt f n)" "keeps V (read_hives oc d x nt f b)" for nt f n k b
    unfolding ntfs_ops by (intro keeps_rules)+
  have "keeps V (scan_entries oc d it st)" for it st
  proof (induction it arbitrary: st)
    case (IterItem i it)
    then show ?case unfolding scan_entries.simps by (intro keeps_rules)
  qed (auto intro!: keeps_rules keeps_vdisk_read)
  then have folders: "keeps V (fallback_folders oc d x nt root fs out)" for nt root fs out
    by (induction fs arbitrary: out) (auto simp: scan_folders_as_programs_def intro!: keeps_rules nav)
  have os: "keeps V (fallback_os oc d x nt root)" for nt root
    unfolding fallback_os_def detect_os_from_binaries_def by (intro keeps_rules nav ops)
  have "keeps P (find_system_partition oc d x chunk ps)" for ps
    by (induction ps) (auto simp: is_system_partition_def intro!: keeps_rules nav ops)
  then show ?thesis
    unfolding windows_analyze_def analyze_system_partition_def extract_ntfs_hives_def apply_fs_fallback_def
    by (intro keeps_rules nav ops os folders)
qed

end

text \<open>Reading, cache hits and loads of the flag leave the engine alone.\<close>

interpretation quiet: stable_driver "engine_driver oc" "\<lambda>w. Q (snd w)" for oc Q
  by unfold_locales (auto simp: engine_driver_def keeps_def split: prod.splits)

lemma get_inspector_quiet: "keeps (\<lambda>w. Q (snd w)) (get_inspector oc (engine_driver oc) x nt h os parts chunk opts)"
  unfolding get_inspector_def
  by (cases os) (auto simp: unknown_analyze_def intro: quiet.keeps_linux quiet.keeps_windows keeps_rules)

section \<open>Events\<close>

text \<open>The percentages of the events a computation sends: \<open>ps @ qs\<close> when it succeeds, otherwise the
  first ones of \<open>ps\<close>.\<close>

definition percentages :: "bool \<Rightarrow> nat list \<Rightarrow> nat list" where
  "percentages cb ps = (if cb then ps else [])"

definition sends :: "('w \<Rightarrow> progress_event list) \<Rightarrow> bool \<Rightarrow> nat list \<Rightarrow> nat list \<Rightarrow> ('w, 'e, 'a) io \<Rightarrow> bool" where
  "sends ev cb ps qs m \<longleftrightarrow> (\<forall>w r w'. m w = (r, w') \<longrightarrow> (\<exists>evs. ev w' = ev w @ evs \<and>
     (if is_ok r then map ev_percentage evs = percentages cb (ps @ qs)
      else \<exists>k. map ev_percentage evs = percentages cb (take k ps))))"

named_theorems sends_rules "the events of a computation"

lemma sendsI:
  "(\<And>w r w'. m w = (r, w') \<Longrightarrow> \<exists>evs. ev w' = ev w @ evs \<and>
     (if is_ok r then map ev_percentage evs = percentages cb (ps @ qs)
      else \<exists>k. map ev_percentage evs = percentages cb (take k ps))) \<Longrightarrow> sends ev cb ps qs m"
  by (simp add: sends_def)

lemma sends_quiet: "(\<And>E. keeps (\<lambda>w. ev w = E) m) \<Longrightarrow> sends ev cb [] [] m"
  by (rule sendsI) (auto simp: percentages_def dest: keepsD)

lemma take_prefix: "take k ps = take (min k (length ps)) (ps @ qs)"
  by (simp add: min_def)

lemma sends_bind:
  assumes "sends ev cb ps [] m" "\<And>a. sends ev cb qs rs (f a)"
  shows "sends ev cb (ps @ qs) rs (io_bind m f)"
proof (rule sendsI)
  fix w r w'
  assume run: "io_bind m f w = (r, w')"
  obtain r1 w1 where m: "m w = (r1, w1)" by fastforce
  obtain e1 where e1: "ev w1 = ev w @ e1"
      "if is_ok r1 then map ev_percentage e1 = percentages cb ps else \<exists>k. map ev_percentage e1 = percentages cb (take k ps)"
    using assms(1) m unfolding sends_def by fastforce
  show "\<exists>evs. ev w' = ev w @ evs \<and> (if is_ok r then map ev_percentage evs = percentages cb ((ps @ qs) @ rs)
      else \<exists>k. map ev_percentage evs = percentages cb (take k (ps @ qs)))"
  proof (cases r1)
    case (Ok a)
    then have "f a w1 = (r, w')" using run m by simp
    then obtain e2 where e2: "ev w' = ev w1 @ e2"
        "if is_ok r then map ev_percentage e2 = percentages cb (qs @ rs) else \<exists>k. map ev_percentage e2 = percentages cb (take k qs)"
      using assms(2) [of a] unfolding sends_def by fastforce
    have p1: "map ev_percentage e1 = percentages cb ps" using e1 Ok by (simp add: is_ok_def)
    show ?thesis
    proof (cases "is_ok r")
      case True
      then show ?thesis using e1(1) e2 p1 by (intro exI [of _ "e1 @ e2"]) (simp add: percentages_def)
    next
      case False
      then obtain k where "map ev_percentage e2 = percentages cb (take k qs)" using e2 by auto
      then have "map ev_percentage (e1 @ e2) = percentages cb (take (length ps + k) (ps @ qs))"
        using p1 by (simp add: percentages_def)
      then have "\<exists>k. map ev_percentage (e1 @ e2) = percentages cb (take k (ps @ qs))" by (rule exI)
      then show ?thesis using e1(1) e2(1) False by (intro exI [of _ "e1 @ e2"]) (simp del: take_append)
    qed
  next
    case (Err x)
    then obtain k where "map ev_percentage e1 = percentages cb (take k ps)" using e1 by (auto simp: is_ok_def)
    then have "map ev_percentage e1 = percentages cb (take (min k (length ps)) (ps @ qs))"
      by (simp only: take_prefix [of k ps qs])
    then have "\<exists>k. map ev_percentage e1 = percentages cb (take k (ps @ qs))" by (rule exI)
    then show ?thesis using run m Err e1(1) by (intro exI [of _ e1]) (auto simp: is_ok_def simp del: take_append)
  next
    case Panic
    then obtain k where "map ev_percentage e1 = percentages cb (take k ps)" using e1 by (auto simp: is_ok_def)
    then have "map ev_percentage e1 = percentages cb (take (min k (length ps)) (ps @ qs))"
      by (simp only: take_prefix [of k ps qs])
    then have "\<exists>k. map ev_percentage e1 = percentages cb (take k (ps @ qs))" by (rule exI)
    then show ?thesis using run m Panic e1(1) by (intro exI [of _ e1]) (auto simp: is_ok_def simp del: take_append)
  qed
qed

lemma sends_quiet_bind:
  "sends ev cb [] [] m \<Longrightarrow> (\<And>a. sends ev cb qs rs (f a)) \<Longrightarrow> sends ev cb qs rs (io_bind m f)"
  using sends_bind [of ev cb "[]" m qs rs f] by simp

lemma sends_mark_bind:
  "sends ev cb [p] [] m \<Longrightarrow> (\<And>a. sends ev cb qs rs (f a)) \<Longrightarrow> sends ev cb (p # qs) rs (io_bind m f)"
  using sends_bind [of ev cb "[p]" m qs rs f] by simp

lemma sends_lift [sends_rules]: "sends ev cb [] [] (io_lift r)" "sends ev cb [] [] (io_ret a)"
  by (auto simp: sends_def percentages_def)

lemma eg_events_progress [simp]:
  "eg_events (in_stage n e) = eg_events e" "eg_events (e\<lparr>eg_progress := p\<rparr>) = eg_events e"
  by (simp_all add: in_stage_def)

lemma sends_mark:
  "(\<And>e. eg_events (g e) = eg_events e) \<Longrightarrow> sends eg_events cb [p] [] (modify (\<lambda>e. mark cb p st dt (g e)))"
  "(\<And>e. eg_events (g e) = eg_events e) \<Longrightarrow> sends (\<lambda>w. eg_events (snd w)) cb [p] [] (on_engine (\<lambda>e. mark cb p st dt (g e)))"
  by (auto simp: sends_def modify_def on_engine_def mark_def emit_def percentages_def is_ok_def split: prod.splits)

lemma keeps_flag [keeps_rules]:
  "keeps (\<lambda>e. eg_events e = E) engine_is_cancelled" "keeps (\<lambda>w. Q (snd w)) reader_is_cancelled"
  by (auto simp: engine_is_cancelled_def reader_is_cancelled_def intro!: keepsI split: prod.splits)

lemma sends_stop [sends_rules]:
  "sends eg_events cb [] [] (stop_if engine_is_cancelled)"
  "sends (\<lambda>w. eg_events (snd w)) cb [] [] (stop_if reader_is_cancelled)"
  unfolding stop_if_def by (intro sends_quiet keeps_rules)+

lemma sends_detect [sends_rules]: "sends (\<lambda>w. eg_events (snd w)) cb [] [] (detect_stage oc)"
  unfolding detect_stage_def
  by (intro sends_quiet keeps_rules quiet.keeps_detect [where Q = "\<lambda>e. eg_events e = _"])
    (auto simp: partition_done_def)

text \<open>An inspector that sends nothing.\<close>

definition silent :: "inspector \<Rightarrow> bool" where
  "silent an \<longleftrightarrow> (\<forall>os parts chunk opts E. keeps (\<lambda>w. eg_events (snd w) = E) (an os parts chunk opts))"

lemma get_inspector_silent: "silent (get_inspector oc (engine_driver oc) x nt h)"
  unfolding silent_def using get_inspector_quiet [where Q = "\<lambda>e. eg_events e = _"] by blast

lemma sends_guest: "silent an \<Longrightarrow> sends (\<lambda>w. eg_events (snd w)) cb [] [] (guest_stage an opts chunk dd)"
  unfolding guest_stage_def silent_def by (intro sends_quiet keeps_rules) auto

lemma sends_report: "sends (\<lambda>w. eg_events (snd w)) cb [] [90, 100] (report_stage ie cb img dd a)"
  by (auto simp: sends_def report_stage_def on_engine_def modify_def io_bind_def mark_def emit_def percentages_def
      is_ok_def Let_def in_stage_def split: prod.splits)

lemma sends_reader:
  assumes "silent an"
  shows "sends (\<lambda>w. eg_events (snd w)) cb [25, 45, 55] [90, 100] (inspect_reader oc ie an opts cb img chunk mode)"
  unfolding inspect_reader_def
  by (intro sends_quiet_bind [OF sends_stop(2)] sends_mark_bind [OF sends_mark(2)] sends_quiet_bind [OF sends_detect]
      sends_quiet_bind [OF sends_guest [OF assms]] sends_report) simp_all

lemma sends_identify:
  "sends eg_events cb ([5, 15] @ (if op_force_nbd opts then [15] else [])) [] (identify_stage oc ie opts cb p)"
proof -
  have forced: "sends eg_events cb (if op_force_nbd opts then [15] else []) []
      (modify (\<lambda>e. if op_force_nbd opts then emit cb 15 st dt e else e))" for st dt
    by (auto simp: sends_def modify_def emit_def percentages_def is_ok_def)
  have last: "sends eg_events cb ((if op_force_nbd opts then [15] else []) @ []) []
      (io_bind (modify (\<lambda>e. if op_force_nbd opts then emit cb 15 st dt e else e)) (\<lambda>_. io_ret img))" for st dt img
    by (intro sends_bind forced sends_rules)
  show ?thesis unfolding identify_stage_def append_Cons append_Nil
    by (intro sends_quiet_bind [OF sends_lift(1)] sends_quiet_bind [OF sends_stop(1)] sends_mark_bind [OF sends_mark(1)]
        last [simplified]) simp_all
qed

definition schedule :: "options \<Rightarrow> nat list" where
  "schedule opts = [5, 15] @ (if op_force_nbd opts then [15] else []) @ [25, 45, 55, 90, 100]"

lemma sends_run:
  assumes "silent an"
  shows "sends eg_events cb ([5, 15] @ (if op_force_nbd opts then [15] else []) @ [25, 45, 55]) [90, 100]
    (run_inspection oc ie an opts cb p)"
proof -
  have "sends eg_events cb [25, 45, 55] [90, 100] (\<lambda>e.
     (case open_with_options_diagnostic oc (ie_host ie) (ie_resolved ie) (ie_nbd ie) img
         (opts\<lparr>op_cancel_token := eg_token e\<rparr>) of
        (Ok rd, tok) \<Rightarrow>
          (case inspect_reader oc ie an opts cb img (chunk_size_of opts rd) (dk_access_mode rd) (rd, e) of
             (r, (rd', e')) \<Rightarrow> (r, e'\<lparr>eg_token := dk_cancel rd'\<rparr>))
      | (Err x, tok) \<Rightarrow> (Err x, e\<lparr>eg_token := tok\<rparr>)
      | (Panic, tok) \<Rightarrow> (Panic, e\<lparr>eg_token := tok\<rparr>)))" (is "sends _ _ _ _ (?open img)") for img
  proof (rule sendsI)
    fix e r e'
    assume run: "?open img e = (r, e')"
    obtain r1 tok where op: "open_with_options_diagnostic oc (ie_host ie) (ie_resolved ie) (ie_nbd ie) img
        (opts\<lparr>op_cancel_token := eg_token e\<rparr>) = (r1, tok)" by fastforce
    show "\<exists>evs. eg_events e' = eg_events e @ evs \<and> (if is_ok r then map ev_percentage evs = percentages cb ([25, 45, 55] @ [90, 100])
        else \<exists>k. map ev_percentage evs = percentages cb (take k [25, 45, 55]))"
    proof (cases r1)
      case (Ok rd)
      obtain rd1 e1 where "inspect_reader oc ie an opts cb img (chunk_size_of opts rd) (dk_access_mode rd) (rd, e) = (r, (rd1, e1))"
          "e' = e1\<lparr>eg_token := dk_cancel rd1\<rparr>"
        using run op Ok by (auto split: prod.splits)
      then show ?thesis using sends_reader [OF assms] unfolding sends_def by fastforce
    qed (use run op in \<open>auto simp: is_ok_def percentages_def intro: exI [of _ "[]"] exI [of _ 0]\<close>)
  qed
  from sends_bind [OF sends_identify this] show ?thesis unfolding run_inspection_def by simp
qed

end
