(* ===== verification/Inspection.thy ===== *)
theory Inspection
  imports Engine
begin

text \<open>
  The laws of a whole inspection: what an inspection reports about an image is a function of the
  disk's bytes, which errors it can end with, when it stops on cancellation, and which events it sends.
\<close>

section \<open>The report as a function of the bytes\<close>

text \<open>The specification: detection and guest analysis by the same code over the plain bytes.\<close>

definition guest_of_bytes where
  "guest_of_bytes oc x nt h sz disk opts dd =
     (if should_analyze_system opts \<or> should_analyze_apps opts
      then get_inspector oc (pure_driver sz disk) x nt h (dd_operating_system dd) (dd_partitions dd) 512 opts
      else io_ret default_analysis)"

definition report_of_bytes where
  "report_of_bytes oc x nt h sz disk opts img = fst (
     io_bind (io_map_err Io (detect_with_progress oc (pure_driver sz disk) (\<lambda>u. u))) (\<lambda>dd.
     io_bind (guest_of_bytes oc x nt h sz disk opts dd) (\<lambda>a.
       io_ret \<lparr>rp_image = img, rp_scheme = dd_scheme dd, rp_partitions = dd_partitions dd,
         rp_operating_system = dd_operating_system dd, rp_guest_info = ar_guest_info a,
         rp_installed_programs = ar_programs a, rp_warnings = ar_warnings a, rp_stats = default_stats\<rparr>)) ())"

definition without_stats :: "(vm_error, report) res \<Rightarrow> (vm_error, report) res" where
  "without_stats r = and_then r (\<lambda>rep. Ok (rep\<lparr>rp_stats := default_stats\<rparr>))"

lemma io_bind_assoc: "io_bind (io_bind m f) g = io_bind m (\<lambda>a. io_bind (f a) g)"
  by (auto simp: io_bind_def fun_eq_iff split: prod.splits res.splits)

lemma agrees_bind_if:
  assumes "agrees P m m'" "\<And>a. fst (m' ()) = Ok a \<Longrightarrow> agrees P (f a) (f' a)"
  shows "agrees P (io_bind m f) (io_bind m' f')"
  unfolding agrees_def
proof (intro allI impI)
  fix w
  assume "P w"
  then obtain w1 where w1: "m w = (fst (m' ()), w1)" "P w1" using assms(1) by (auto simp: agrees_def)
  obtain r where r: "m' () = (r, ())" by (metis prod.exhaust unit.exhaust)
  show "\<exists>w'. io_bind m f w = (fst (io_bind m' f' ()), w') \<and> P w'"
  proof (cases r)
    case (Ok a)
    then have "io_bind m f w = f a w1" "io_bind m' f' () = f' a ()"
      using w1(1) r by (simp_all add: io_bind_def)
    then show ?thesis using agreesD [OF assms(2) w1(2), of a] Ok r by simp
  qed (use w1 r in \<open>auto simp: io_bind_def\<close>)
qed

lemma agrees_after:
  "agrees P m (io_ret a) \<Longrightarrow> agrees P (f a) m' \<Longrightarrow> agrees P (io_bind m f) m'"
  using agrees_bind_if [of P m "io_ret a" f "\<lambda>_. m'"] by (simp add: io_bind_def)

lemma similar_agrees: "similar (twin_worlds P) m m' \<Longrightarrow> agrees P m m'"
  unfolding similar_def agrees_def twin_worlds_def by (metis fst_conv)

text \<open>An engine whose reader shows the disk and that nobody cancels.\<close>

definition serving :: "nat \<Rightarrow> (nat \<Rightarrow> byte) \<Rightarrow> disk_reader \<times> engine \<Rightarrow> bool" where
  "serving sz disk w \<longleftrightarrow> reader_live sz disk (fst w) \<and> \<not> pr_cancelled (eg_progress (snd w))"

lemma driver_engine_read:
  "dr_read (engine_driver oc) off n w = (r, w') \<longleftrightarrow>
    dr_read (reader_driver oc) off n (fst w) = (r, fst w') \<and> snd w' = snd w"
  by (cases w; cases w') (auto simp: engine_driver_def split: prod.splits)

interpretation served: reliable_driver "engine_driver oc" "serving sz disk" sz disk "2 ^ 64" for oc sz disk
proof unfold_locales
  show "(2 :: nat) ^ 32 \<le> 2 ^ 64" by simp
next
  fix w
  assume w: "serving sz disk w"
  then have live: "reader_live sz disk (fst w)" by (simp add: serving_def)
  show "dr_size (engine_driver oc) w = sz" using live.size_law [OF live] by (simp add: engine_driver_def)
  show "sz \<le> 2 ^ 63" using live.size_small [OF live] .
  show "serving sz disk (dr_hit (engine_driver oc) w)"
    using w live.hit_law [OF live, of oc] by (cases w) (simp add: serving_def engine_driver_def)
  show "serving sz disk (snd (dr_cancelled (engine_driver oc) w))"
    using w live.cancel_law [OF live, of oc] by (cases w) (auto simp: serving_def engine_driver_def split: prod.splits)
  show "\<not> fst (dr_cancelled (engine_driver oc) w)"
    using w live.not_cancelled [OF live, of oc] by (cases w) (auto simp: serving_def engine_driver_def split: prod.splits)
next
  fix w p
  assume "serving sz disk w" "sz \<le> p"
  then show "disk p = 0" using live.disk_end by (auto simp: serving_def)
next
  fix w w' and r :: "(vm_error, bytes) res" and n off :: nat
  assume w: "serving sz disk w" and "n < 2 ^ 64" "dr_read (engine_driver oc) off n w = (r, w')"
  then show "serving sz disk w' \<and> r \<noteq> Panic \<and> (\<forall>bs. r = Ok bs \<longrightarrow> bs = window disk off n)"
    using live.read_law [of sz disk "fst w" n oc off r "fst w'"] by (simp add: driver_engine_read serving_def)
next
  fix w and n off :: nat
  assume w: "serving sz disk w" and "n < 2 ^ 64"
  then obtain bs rd' where "dr_read (reader_driver oc) off n (fst w) = (Ok bs, rd')"
    using live.read_total [of sz disk "fst w" n oc off] by (auto simp: serving_def)
  then have "dr_read (engine_driver oc) off n w = (Ok bs, (rd', snd w))" by (simp add: driver_engine_read)
  then show "\<exists>bs w'. dr_read (engine_driver oc) off n w = (Ok bs, w')" by blast
qed

lemma progress_keeps_flag [simp]:
  "pr_cancelled (set_stage_id n p) = pr_cancelled p" "pr_cancelled (set_percentage n p) = pr_cancelled p"
  "pr_cancelled (set_total_bytes n p) = pr_cancelled p" "pr_cancelled (increment_completed_tasks p) = pr_cancelled p"
  by (simp_all add: progress_ops increment_completed_tasks_def bump_completed_def store_percentage_def)

lemma engine_keeps_flag [simp]:
  "pr_cancelled (eg_progress (mark cb n st dt e)) = pr_cancelled (eg_progress e)"
  "pr_cancelled (eg_progress (in_stage n e)) = pr_cancelled (eg_progress e)"
  "pr_cancelled (eg_progress (emit cb n st dt e)) = pr_cancelled (eg_progress e)"
  "eg_token (mark cb n st dt e) = eg_token e" "eg_token (in_stage n e) = eg_token e"
  "eg_token (emit cb n st dt e) = eg_token e"
  by (simp_all add: mark_def in_stage_def emit_def)

lemma not_flagged [simp]: "\<not> pr_cancelled p \<Longrightarrow> flag_set p None = (False, None)"
  by (simp add: flag_set_def)

lemma served_flag: "serving sz disk w \<Longrightarrow> reader_is_cancelled w = (Ok False, w)"
  by (cases w) (auto simp: serving_def reader_live_def reader_is_cancelled_def)

lemma served_checks:
  "agrees (serving sz disk) (stop_if reader_is_cancelled) (io_ret ())"
  "agrees (serving sz disk) reader_is_cancelled (io_ret False)"
  by (fastforce simp: agrees_def stop_if_def io_bind_def served_flag)+

lemma served_mark:
  "(\<And>e. pr_cancelled (eg_progress (f e)) = pr_cancelled (eg_progress e)) \<Longrightarrow>
    agrees (serving sz disk) (on_engine f) (io_ret ())"
  by (auto simp: agrees_def on_engine_def modify_def serving_def)

lemma agrees_resume:
  assumes "agrees P m m'" "\<And>x. agrees P (k x) (k' x)"
  shows "agrees P (resume m k) (resume m' k')"
  unfolding agrees_def
proof (intro allI impI)
  fix w
  assume "P w"
  then obtain w1 where w1: "m w = (fst (m' ()), w1)" "P w1" using assms(1) by (auto simp: agrees_def)
  obtain r where r: "m' () = (r, ())" by (metis prod.exhaust unit.exhaust)
  show "\<exists>w'. resume m k w = (fst (resume m' k' ()), w') \<and> P w'"
    using w1 r agreesD [OF assms(2) w1(2)] by (cases r) (simp_all add: resume_def)
qed

lemma served_detect:
  "agrees (serving sz disk) (detect_stage oc)
    (io_map_err Io (detect_with_progress oc (pure_driver sz disk) (\<lambda>u. u)))"
proof -
  have tick: "serving sz disk (partition_done w)" if "serving sz disk w" for w
    using that by (cases w) (simp add: serving_def partition_done_def)
  have det: "agrees (serving sz disk) (detect_with_progress oc (engine_driver oc) partition_done)
      (detect_with_progress oc (pure_driver sz disk) (\<lambda>u. u))"
    by (rule served.detect_agrees [OF _ tick]) simp_all
  show ?thesis unfolding detect_stage_def io_map_err_resume
    by (intro agrees_resume [OF det])
      (auto simp: agrees_ret agrees_err intro!: agrees_after [OF served_checks(2)] split: sum.splits)
qed

lemma get_inspector_no_err: "no_err (get_inspector oc d x nt h os parts chunk opts)"
  by (cases os) (auto simp: get_inspector_def unknown_analyze_def
      intro: linux_analyze_no_err windows_analyze_no_err no_err_rules)

lemma served_inspector:
  assumes "\<forall>p \<in> set parts. pt_start p + pt_size p \<le> 2 ^ 64" "chunk \<le> 2 ^ 31"
  shows "agrees (serving sz disk) (get_inspector oc (engine_driver oc) x nt h os parts chunk opts)
    (get_inspector oc (pure_driver sz disk) x nt h os parts 512 opts)"
proof -
  have "similar (twin_worlds (serving sz disk)) (windows_analyze oc (engine_driver oc) nt h parts chunk opts)
      (windows_analyze oc (pure_driver sz disk) nt h parts 512 opts)"
    using assms by (intro served.windows_analyze_similar) auto
  moreover have "similar (twin_worlds (serving sz disk)) (linux_analyze oc (engine_driver oc) x parts chunk opts)
      (linux_analyze oc (pure_driver sz disk) x parts 512 opts)"
    using assms by (intro served.linux_analyze_similar) auto
  ultimately show ?thesis
    by (cases os) (auto simp: get_inspector_def unknown_analyze_def agrees_ret intro: similar_agrees)
qed

lemma guest_stage_simple:
  assumes "no_err (an (dd_operating_system dd) (dd_partitions dd) chunk opts)"
  shows "guest_stage an opts chunk dd = (if should_analyze_system opts \<or> should_analyze_apps opts
    then an (dd_operating_system dd) (dd_partitions dd) chunk opts else io_ret default_analysis)"
proof -
  let ?m = "an (dd_operating_system dd) (dd_partitions dd) chunk opts"
  have "resume ?m (\<lambda>r. case r of Inr a \<Rightarrow> io_ret a | Inl e \<Rightarrow> g e) w = ?m w" for g w
  proof -
    obtain r w' where "?m w = (r, w')" by (metis prod.exhaust)
    then show ?thesis using assms by (cases w; cases w'; cases r) (auto simp: resume_def no_err_def)
  qed
  then show ?thesis unfolding guest_stage_def by (simp add: fun_eq_iff)
qed

lemma served_report:
  "agrees (serving sz disk) (io_bind (report_stage ie cb img dd a) (\<lambda>rep. io_ret (rep\<lparr>rp_stats := default_stats\<rparr>)))
    (io_ret \<lparr>rp_image = img, rp_scheme = dd_scheme dd, rp_partitions = dd_partitions dd,
      rp_operating_system = dd_operating_system dd, rp_guest_info = ar_guest_info a,
      rp_installed_programs = ar_programs a, rp_warnings = ar_warnings a, rp_stats = default_stats\<rparr>)"
  by (auto simp: agrees_def report_stage_def on_engine_def modify_def io_bind_def Let_def make_report_def serving_def
      split: prod.splits)

lemma served_inspection:
  assumes parts: "\<forall>dd. fst (detect_with_progress oc (pure_driver sz disk) (\<lambda>u. u) ()) = Ok dd \<longrightarrow>
      (\<forall>p \<in> set (dd_partitions dd). pt_start p + pt_size p \<le> 2 ^ 64)"
    and chunk: "chunk \<le> 2 ^ 31" and w: "serving sz disk w"
  obtains r w' where
    "inspect_reader oc ie (get_inspector oc (engine_driver oc) x nt h) opts cb img chunk mode w = (r, w')"
    "without_stats r = report_of_bytes oc x nt h sz disk opts img"
proof -
  let ?ins = "inspect_reader oc ie (get_inspector oc (engine_driver oc) x nt h) opts cb img chunk mode"
  let ?strip = "\<lambda>rep :: report. io_ret (rep\<lparr>rp_stats := default_stats\<rparr>)"
  have guest: "agrees (serving sz disk) (guest_stage (get_inspector oc (engine_driver oc) x nt h) opts chunk dd)
      (guest_of_bytes oc x nt h sz disk opts dd)"
    if "fst (io_map_err Io (detect_with_progress oc (pure_driver sz disk) (\<lambda>u. u)) ()) = Ok dd" for dd
  proof -
    have "\<forall>p \<in> set (dd_partitions dd). pt_start p + pt_size p \<le> 2 ^ 64"
      using parts that by (auto simp: io_map_err_def split: prod.splits res.splits)
        (cases "fst (detect_with_progress oc (pure_driver sz disk) (\<lambda>u. u) ())"; simp)
    then show ?thesis
      unfolding guest_stage_simple [OF get_inspector_no_err] guest_of_bytes_def
      by (intro agrees_if agrees_ret served_inspector chunk)
  qed
  have "agrees (serving sz disk) (io_bind ?ins ?strip)
      (io_bind (io_map_err Io (detect_with_progress oc (pure_driver sz disk) (\<lambda>u. u))) (\<lambda>dd.
       io_bind (guest_of_bytes oc x nt h sz disk opts dd) (\<lambda>a.
       io_ret \<lparr>rp_image = img, rp_scheme = dd_scheme dd, rp_partitions = dd_partitions dd,
         rp_operating_system = dd_operating_system dd, rp_guest_info = ar_guest_info a,
         rp_installed_programs = ar_programs a, rp_warnings = ar_warnings a, rp_stats = default_stats\<rparr>)))"
    unfolding inspect_reader_def io_bind_assoc
    by (intro agrees_after [OF served_checks(1)] agrees_after [OF served_mark] agrees_bind_if [OF served_detect]
        agrees_bind [OF guest] served_report) simp_all
  from agreesD [OF this w] obtain w' where
    run: "io_bind ?ins ?strip w = (report_of_bytes oc x nt h sz disk opts img, w')"
    unfolding report_of_bytes_def by blast
  obtain r w1 where r: "?ins w = (r, w1)" by (metis prod.exhaust)
  have "without_stats r = report_of_bytes oc x nt h sz disk opts img"
    using run r by (cases r) (auto simp: without_stats_def io_bind_def dest: sym)
  with r show thesis by (rule that)
qed

lemma identify_uncancelled:
  assumes "host_metadata (ie_host ie) p = Ok md" "identify_image oc (ie_host ie) p = Ok img"
    and "eg_token e = None" "\<not> pr_cancelled (eg_progress e)"
  obtains e1 where "identify_stage oc ie opts cb p e = (Ok img, e1)" "eg_token e1 = None"
    "\<not> pr_cancelled (eg_progress e1)"
  using assms
  by (auto simp: identify_stage_def io_bind_def stop_if_def engine_is_cancelled_def modify_def flag_set_def)

lemma run_with_reader:
  assumes "identify_stage oc ie opts cb p e = (Ok img, e1)"
    and "open_with_options_diagnostic oc (ie_host ie) (ie_resolved ie) (ie_nbd ie) img
      (opts\<lparr>op_cancel_token := eg_token e1\<rparr>) = (Ok rd, tok)"
    and "inspect_reader oc ie an opts cb img (chunk_size_of opts rd) (dk_access_mode rd) (rd, e1) = (r, (rd', e2))"
  shows "run_inspection oc ie an opts cb p e = (r, e2\<lparr>eg_token := dk_cancel rd'\<rparr>)"
  using assms by (simp add: run_inspection_def io_bind_def)

text \<open>A raw image on a healthy host: the reader shows the bytes of the file.\<close>

lemma raw_reader_live:
  assumes "open_read_file h (im_path img) = Ok f" "healthy f" "length (f_data f) \<le> 2 ^ 63"
    and "im_format img = ''raw''" "im_virtual_size img = length (f_data f)"
    and "\<not> op_force_nbd o'" "op_cancel_token o' = None"
  obtains rd where "open_with_options_diagnostic oc h resolved env img o' = (Ok rd, None)"
    "reader_live (length (f_data f)) (byte_fun (f_data f)) rd" "dk_backend rd = RawFile f"
proof -
  let ?rd = "make_reader img (RawFile f) (''direct-read (raw)'') (im_virtual_size img) None"
  have "to_ascii_lowercase ''raw'' = ''raw''" by code_simp
  then have "open_native oc h img = Ok (Native (RawFile f, ''raw''))"
    using assms(1,4) by (simp add: open_native_def open_main_image_file_def)
  then have "open_with_options_diagnostic oc h resolved env img o' = (Ok ?rd, None)"
    using assms(6,7) by (simp add: open_with_options_diagnostic_def)
  moreover have "reader_live (length (f_data f)) (byte_fun (f_data f)) ?rd"
    using assms(2,3,5) by (auto simp: reader_live_def reader_inv_def make_reader_def reader_byte_def byte_fun_def
        fun_eq_iff split: prod.splits)
  moreover have "dk_backend ?rd = RawFile f" by (simp add: make_reader_def split: prod.splits)
  ultimately show thesis by (rule that)
qed

section \<open>Errors\<close>

text \<open>The errors an inspection can end with; those of the helper only when it is allowed.\<close>

fun inspection_error :: "bool \<Rightarrow> vm_error \<Rightarrow> bool" where
  "inspection_error force (Io e) = True"
| "inspection_error force (ImageNotFound m) = True"
| "inspection_error force Cancelled = True"
| "inspection_error force (MissingDiskComponent a b c k e) = True"
| "inspection_error force (UnsupportedFormat m) = True"
| "inspection_error force (Parse m) = True"
| "inspection_error force (QemuNotFound m) = force"
| "inspection_error force (Nbd m) = force"
| "inspection_error force _ = False"

definition errs :: "('e \<Rightarrow> bool) \<Rightarrow> ('e, 'a) res \<Rightarrow> bool" where
  "errs P r \<longleftrightarrow> (\<forall>e. r = Err e \<longrightarrow> P e)"

definition io_errs :: "('e \<Rightarrow> bool) \<Rightarrow> ('w, 'e, 'a) io \<Rightarrow> bool" where
  "io_errs P m \<longleftrightarrow> (\<forall>w. errs P (fst (m w)))"

named_theorems errs_rules "the errors of a computation"

lemma errs_basic [errs_rules]: "errs P (Ok a)" "errs P Panic" "P e \<Longrightarrow> errs P (Err e)"
  by (simp_all add: errs_def)

lemma errs_bind [errs_rules]: "errs P r \<Longrightarrow> (\<And>a. errs P (f a)) \<Longrightarrow> errs P (and_then r f)"
  by (cases r) (simp_all add: errs_def)

lemma errs_map_err [errs_rules]: "(\<And>e. P (g e)) \<Longrightarrow> errs P (map_err g r)"
  by (cases r) (simp_all add: errs_def)

lemma errs_arith [errs_rules]: "errs P (mul64 oc a b)" "errs P (add64 oc a b)"
  by (simp_all add: errs_def mul64_def add64_def)

lemma errs_if [errs_rules]: "errs P r \<Longrightarrow> errs P r' \<Longrightarrow> errs P (if c then r else r')"
  by simp

lemma errs_option [errs_rules]:
  "errs P r \<Longrightarrow> (\<And>a. errs P (f a)) \<Longrightarrow> errs P (case x of None \<Rightarrow> r | Some a \<Rightarrow> f a)"
  by (cases x) simp_all

lemma errs_open [errs_rules]:
  "(\<And>a. errs P (f a)) \<Longrightarrow> (\<And>m. errs P (g m)) \<Longrightarrow> errs P (case x of Native a \<Rightarrow> f a | NeedsNbd m \<Rightarrow> g m)"
  by (cases x) simp_all

lemma errs_prod [errs_rules]: "(\<And>a b. errs P (f a b)) \<Longrightarrow> errs P (case x of (a, b) \<Rightarrow> f a b)"
  by (cases x) simp

lemma component_error [simp]: "inspection_error force (from_disk_component_io a b c k m e)"
  by (simp add: from_disk_component_io_def)

lemma errs_component [errs_rules]:
  "errs (inspection_error force) (open_component_file h p dp n k)"
  "errs (inspection_error force) (ensure_component_exists h dp n rp k)"
  "errs (inspection_error force) (open_main_image_file h p)"
  by (auto simp: open_component_file_def ensure_component_exists_def open_main_image_file_def intro: errs_rules)

lemma errs_descriptor_components [errs_rules]:
  "errs (inspection_error force) (validate_descriptor_components h p d)"
proof -
  have "errs (inspection_error force) (validate_extents h p es)" for es
    by (induction es) (auto intro!: errs_rules)
  then show ?thesis
    unfolding validate_descriptor_components_def validate_parent_reference_def validate_extent_paths_def
    by (intro errs_rules)
qed

lemma errs_validate [errs_rules]: "errs (inspection_error force) (validate_vmdk_components oc h p)"
proof -
  have "errs (inspection_error force) (validate_vmdk_components_inner oc h p visited depth ctx)" for p visited depth ctx
  proof (induction "MAX_VMDK_PARENT_DEPTH + 1 - depth" arbitrary: p visited depth ctx rule: less_induct)
    case less
    have deeper: "errs (inspection_error force) (validate_vmdk_components_inner oc h q vs (depth + 1) c)"
      if "\<not> MAX_VMDK_PARENT_DEPTH < depth" for q vs c
      using that by (intro less) simp
    show ?case
      by (subst validate_vmdk_components_inner.simps)
        (auto simp: Let_def open_for_validation_def intro!: errs_rules deeper [simplified])
  qed
  then show ?thesis unfolding validate_vmdk_components_def .
qed

lemma errs_open_native: "errs (inspection_error force) (open_native oc h info)"
proof -
  have data: "errs (inspection_error force) (open_extent_data oc h p e)" for p e
    unfolding open_extent_data_def open_sparse_def by (intro errs_rules) simp_all
  have "errs (inspection_error force) (open_extents oc h p start es)" for p start es
    by (induction es arbitrary: start) (auto intro!: errs_rules data)
  then have "errs (inspection_error force) (open_descriptor_image oc h p)" for p
    unfolding open_descriptor_image_def Let_def by (intro errs_rules) simp_all
  then show ?thesis unfolding open_native_def open_vmdk_native_def Let_def by (intro errs_rules) simp_all
qed

lemma open_errors:
  "errs (inspection_error (op_force_nbd o')) (fst (open_with_options_diagnostic oc h resolved env info o'))"
proof (cases "op_force_nbd o'")
  case True
  have outcome: "errs P (fst (case r of Err e \<Rightarrow> (Err e, t) | Panic \<Rightarrow> (Panic, t) | Ok q \<Rightarrow> f q))"
    if "errs P r" "\<And>q. errs P (fst (f q))" for P and r :: "('e, 'q) res" and t :: token and f :: "'q \<Rightarrow> ('e, 'b) res \<times> token"
    using that by (cases r) (simp_all add: errs_def)
  have split: "errs P (fst (case x of (r, t) \<Rightarrow> (g r t, t)))" if "\<And>r t. errs P (g r t)"
    for P and x :: "('x, 'q) res \<times> token" and g :: "_ \<Rightarrow> _ \<Rightarrow> ('e, 'b) res"
    using that by (cases x) simp
  show ?thesis unfolding open_with_options_diagnostic_def if_P [OF True] using True
    by (intro outcome split errs_rules) (simp_all add: nbd_error_to_vm_def)
next
  case False
  have "errs (inspection_error False) (and_then (open_native oc h info) (\<lambda>r. case r of
      Native (b, mode) \<Rightarrow> Ok (make_reader info b (''direct-read ('' @ mode @ '')'') (im_virtual_size info) (op_cancel_token o'))
    | NeedsNbd reason \<Rightarrow> Err (UnsupportedFormat (unsupported_message info reason))))"
    by (intro errs_rules errs_open_native) simp
  then show ?thesis using False unfolding open_with_options_diagnostic_def by (simp only: if_False fst_conv)
qed

lemma io_errs_bind: "io_errs P m \<Longrightarrow> (\<And>a. io_errs P (f a)) \<Longrightarrow> io_errs P (io_bind m f)"
  unfolding io_errs_def errs_def by (auto simp: io_bind_def split: prod.splits res.splits) (metis fst_conv)+

lemma io_errs_lift: "errs P r \<Longrightarrow> io_errs P (io_lift r)" "io_errs P (io_ret a)" "io_errs P (modify f)"
    "io_errs P (on_engine g)"
  by (simp_all add: io_errs_def errs_def modify_def on_engine_def)

lemma io_errs_stop: "io_errs (inspection_error force) (stop_if engine_is_cancelled)"
    "io_errs (inspection_error force) (stop_if reader_is_cancelled)"
  by (auto simp: io_errs_def errs_def stop_if_def io_bind_def engine_is_cancelled_def reader_is_cancelled_def
      split: prod.splits)

lemma io_errs_resume: "(\<And>x. io_errs P (k x)) \<Longrightarrow> io_errs P (resume m k)"
  unfolding io_errs_def errs_def by (auto simp: resume_def split: prod.splits res.splits)

lemma io_errs_stages:
  "io_errs (inspection_error force) (detect_stage oc)"
  "io_errs (inspection_error force) (guest_stage an opts chunk dd)"
  "io_errs (inspection_error force) (report_stage ie cb img dd a)"
proof -
  have "io_errs (inspection_error force) (io_bind reader_is_cancelled (\<lambda>c. io_err (if c then Cancelled else Io e)))" for e
    by (auto simp: io_errs_def errs_def io_bind_def reader_is_cancelled_def split: prod.splits)
  moreover have "io_errs (inspection_error force) (io_err (Io e))" for e by (simp add: io_errs_def errs_def)
  ultimately show "io_errs (inspection_error force) (detect_stage oc)"
    unfolding detect_stage_def by (intro io_errs_resume) (auto simp: io_errs_lift split: sum.splits)
  show "io_errs (inspection_error force) (guest_stage an opts chunk dd)"
    unfolding guest_stage_def by (cases "should_analyze_system opts \<or> should_analyze_apps opts")
      (auto simp: io_errs_lift intro!: io_errs_resume split: sum.splits)
  show "io_errs (inspection_error force) (report_stage ie cb img dd a)"
    unfolding report_stage_def by (intro io_errs_bind io_errs_lift) (simp add: io_errs_def errs_def Let_def split: prod.splits)
qed

lemma inspect_reader_errors: "io_errs (inspection_error force) (inspect_reader oc ie an opts cb img chunk mode)"
  unfolding inspect_reader_def by (intro io_errs_bind io_errs_stop io_errs_lift io_errs_stages)

lemma identify_errors: "io_errs (inspection_error force) (identify_stage oc ie opts cb p)"
  unfolding identify_stage_def
  by (intro io_errs_bind io_errs_stop io_errs_lift errs_map_err) (simp_all add: to_image_error_def)

lemma run_errors: "io_errs (inspection_error (op_force_nbd opts)) (run_inspection oc ie an opts cb p)"
proof -
  let ?P = "inspection_error (op_force_nbd opts)"
  have "errs ?P (fst (case open_with_options_diagnostic oc (ie_host ie) (ie_resolved ie) (ie_nbd ie) img
        (opts\<lparr>op_cancel_token := eg_token e\<rparr>) of
      (Ok rd, tok) \<Rightarrow>
        (case inspect_reader oc ie an opts cb img (chunk_size_of opts rd) (dk_access_mode rd) (rd, e) of
           (r, (rd', e')) \<Rightarrow> (r, e'\<lparr>eg_token := dk_cancel rd'\<rparr>))
    | (Err x, tok) \<Rightarrow> (Err x, e\<lparr>eg_token := tok\<rparr>)
    | (Panic, tok) \<Rightarrow> (Panic, e\<lparr>eg_token := tok\<rparr>)))" for img e
  proof -
    obtain r1 tok where op: "open_with_options_diagnostic oc (ie_host ie) (ie_resolved ie) (ie_nbd ie) img
        (opts\<lparr>op_cancel_token := eg_token e\<rparr>) = (r1, tok)" by fastforce
    have "errs ?P r1" using open_errors [of "opts\<lparr>op_cancel_token := eg_token e\<rparr>" oc "ie_host ie" "ie_resolved ie" "ie_nbd ie" img] op
      by simp
    moreover have "errs ?P (fst (inspect_reader oc ie an opts cb img chunk mode w))" for chunk mode w
      using inspect_reader_errors unfolding io_errs_def by blast
    ultimately show ?thesis using op by (cases r1) (simp_all add: case_prod_unfold errs_def)
  qed
  then show ?thesis unfolding run_inspection_def by (intro io_errs_bind identify_errors) (simp add: io_errs_def)
qed

section \<open>An inspection with an open reader\<close>

lemma inspect_with_reader:
  assumes "host_metadata (ie_host ie) p = Ok md" and "identify_image oc (ie_host ie) p = Ok img"
    and "eg_token e = None" and "\<not> pr_cancelled (eg_progress e)"
    and "open_with_options_diagnostic oc (ie_host ie) (ie_resolved ie) (ie_nbd ie) img
      (opts\<lparr>op_cancel_token := None\<rparr>) = (Ok rd, tok)"
    and "reader_live sz disk rd"
    and "\<forall>dd. fst (detect_with_progress oc (pure_driver sz disk) (\<lambda>u. u) ()) = Ok dd \<longrightarrow>
      (\<forall>q \<in> set (dd_partitions dd). pt_start q + pt_size q \<le> 2 ^ 64)"
    and "chunk_size_of opts rd \<le> 2 ^ 31"
  shows "\<exists>r e'. engine_inspect oc ie x nt h opts cb p e = (r, e') \<and>
    without_stats r = report_of_bytes oc x nt h sz disk opts img"
proof -
  obtain e1 where id: "identify_stage oc ie opts cb p e = (Ok img, e1)" "eg_token e1 = None"
      "\<not> pr_cancelled (eg_progress e1)"
    by (rule identify_uncancelled [OF assms(1-4)])
  have "serving sz disk (rd, e1)" using assms(6) id(3) by (simp add: serving_def)
  from served_inspection [OF assms(7,8) this] obtain r w' where
    "inspect_reader oc ie (get_inspector oc (engine_driver oc) x nt h) opts cb img (chunk_size_of opts rd)
      (dk_access_mode rd) (rd, e1) = (r, w')" "without_stats r = report_of_bytes oc x nt h sz disk opts img" .
  then show ?thesis using run_with_reader [OF id(1)] assms(5) id(2)
    by (metis engine_inspect_def prod.exhaust)
qed

section \<open>A small image\<close>

text \<open>A file of four zero bytes without an extension.\<close>

definition small_host :: host where
  "small_host = \<lparr>h_open = (\<lambda>p. Inr (fresh_file (replicate 4 0))),
     h_meta = (\<lambda>p. Inr \<lparr>md_is_file = True, md_is_dir = False, md_len = 4\<rparr>), h_canon = Inr\<rparr>"

definition small_env :: inspect_env where
  "small_env = \<lparr>ie_host = small_host, ie_resolved = Err (IoError NotFound ''no helper''), ie_nbd = sample_env,
     ie_clock = (\<lambda>_. 0)\<rparr>"

definition small_image :: image_info where
  "small_image = \<lparr>im_path = ''disk'', im_format = ''raw'', im_virtual_size = 4, im_actual_size = 4, im_hypervisor = HvUnknown\<rparr>"

definition small_report :: report where
  "small_report = \<lparr>rp_image = small_image, rp_scheme = NoScheme,
     rp_partitions = [\<lparr>pt_index = 0, pt_start = 0, pt_size = 4, pt_kind = ''Volume without a partition table'',
       pt_file_system = FsUnknown, pt_label = None\<rparr>],
     rp_operating_system = OsUnknown, rp_guest_info = default_guest_info\<lparr>os_name := ''Unknown operating system''\<rparr>,
     rp_installed_programs = [], rp_warnings = [], rp_stats = default_stats\<rparr>"

lemma small_identified: "host_metadata (ie_host small_env) ''disk'' = Ok \<lparr>md_is_file = True, md_is_dir = False, md_len = 4\<rparr>"
    "identify_image True (ie_host small_env) ''disk'' = Ok small_image"
  by code_simp+

lemma small_disk: "byte_fun (replicate 4 0) = (\<lambda>_. 0)"
  by (auto simp: byte_fun_def fun_eq_iff)

lemma small_reader:
  obtains rd where "open_with_options_diagnostic True (ie_host small_env) (ie_resolved small_env) (ie_nbd small_env) small_image
      (default_options\<lparr>op_cancel_token := None\<rparr>) = (Ok rd, None)" "reader_live 4 (\<lambda>_. 0) rd" "chunk_size_of default_options rd \<le> 2 ^ 31"
proof -
  let ?f = "fresh_file (replicate 4 0)"
  have f: "f_data ?f = replicate 4 0" by (simp add: fresh_file_def)
  have "open_read_file (ie_host small_env) (im_path small_image) = Ok ?f"
    by (simp add: open_read_file_def small_env_def small_host_def)
  from raw_reader_live [OF this, where o' = "default_options\<lparr>op_cancel_token := None\<rparr>" and thesis = thesis and oc = True
      and resolved = "ie_resolved small_env" and env = "ie_nbd small_env"]
  show thesis using that
    by (auto simp: f small_disk small_image_def default_options_def chunk_size_of_def recommended_chunk_size_def)
qed

lemma small_of_bytes: "report_of_bytes True x nt h 4 (\<lambda>_. 0) default_options small_image = Ok small_report"
  by (simp add: report_of_bytes_def guest_of_bytes_def zero_detect [simplified] get_inspector_def unknown_analyze_def io_bind_def
      io_map_err_def default_options_def should_analyze_system_def small_report_def)

lemma small_fresh: "eg_token (new_engine default_options) = None" "\<not> pr_cancelled (eg_progress (new_engine default_options))"
  by code_simp+

lemma small_parts: "\<forall>dd. fst (detect_with_progress True (pure_driver 4 (\<lambda>_. 0)) (\<lambda>u. u) ()) = Ok dd \<longrightarrow>
    (\<forall>q \<in> set (dd_partitions dd). pt_start q + pt_size q \<le> 2 ^ 64)"
  by (auto simp: zero_detect [simplified])

lemma small_inspected:
  obtains r e' where "engine_inspect True small_env sample_ext4 sample_ntfs panicking_hive default_options True ''disk''
      (new_engine default_options) = (r, e')" "without_stats r = Ok small_report"
proof -
  obtain rd where rd: "open_with_options_diagnostic True (ie_host small_env) (ie_resolved small_env) (ie_nbd small_env)
      small_image (default_options\<lparr>op_cancel_token := None\<rparr>) = (Ok rd, None)" "reader_live 4 (\<lambda>_. 0) rd"
      "chunk_size_of default_options rd \<le> 2 ^ 31"
    by (rule small_reader)
  show thesis
    using inspect_with_reader [OF small_identified small_fresh rd(1,2) small_parts rd(3), of sample_ext4 sample_ntfs panicking_hive True]
      that by (auto simp: small_of_bytes)
qed

section \<open>Properties\<close>

text \<open>C1. The report of an inspection is a function of the bytes of the disk.  Whatever the format, the
  backend, the caches and the chunk size, when the image opens as a reader that shows the disk and
  nobody cancels, the outcome -- scheme, partitions, file systems, guest family, guest information,
  programs and warnings, or the error -- is the one that the same detection and guest analysis give
  over the plain bytes; only the statistics differ.\<close>

theorem inspection_depends_on_bytes:
  assumes "host_metadata (ie_host ie) p = Ok md" and "identify_image oc (ie_host ie) p = Ok img"
    and "eg_token e = None" and "\<not> pr_cancelled (eg_progress e)"
    and "open_with_options_diagnostic oc (ie_host ie) (ie_resolved ie) (ie_nbd ie) img
      (opts\<lparr>op_cancel_token := None\<rparr>) = (Ok rd, tok)"
    and "reader_live sz disk rd"
    and "\<forall>dd. fst (detect_with_progress oc (pure_driver sz disk) (\<lambda>u. u) ()) = Ok dd \<longrightarrow>
      (\<forall>q \<in> set (dd_partitions dd). pt_start q + pt_size q \<le> 2 ^ 64)"
    and "chunk_size_of opts rd \<le> 2 ^ 31"
  shows "\<exists>r e'. engine_inspect oc ie x nt h opts cb p e = (r, e') \<and>
    without_stats r = report_of_bytes oc x nt h sz disk opts img"
  by (rule inspect_with_reader [OF assms])

theorem inspection_depends_on_bytes_witness:
  "\<exists>r e'. engine_inspect True small_env sample_ext4 sample_ntfs panicking_hive default_options True ''disk''
      (new_engine default_options) = (r, e') \<and> without_stats r = Ok small_report"
proof -
  obtain rd where rd: "open_with_options_diagnostic True (ie_host small_env) (ie_resolved small_env) (ie_nbd small_env)
      small_image (default_options\<lparr>op_cancel_token := None\<rparr>) = (Ok rd, None)" "reader_live 4 (\<lambda>_. 0) rd"
      "chunk_size_of default_options rd \<le> 2 ^ 31"
    by (rule small_reader)
  show ?thesis
    using inspection_depends_on_bytes [OF small_identified small_fresh rd(1,2) small_parts rd(3),
        of sample_ext4 sample_ntfs panicking_hive True]
    by (simp add: small_of_bytes)
qed



text \<open>C21. The events of an inspection carry percentages that follow the documented schedule (5, 15, 25,
  45, 55, 90, 100, with a second 15 for the warning about the helper) and never go back; all of them
  are sent exactly when the inspection delivers a report, a failed one stops before 90, and without a
  callback there is none.\<close>

theorem inspection_events:
  assumes "engine_inspect oc ie x nt h opts cb p e = (r, e')"
  shows "\<exists>evs. eg_events e' = eg_events e @ evs \<and> sorted (map ev_percentage evs) \<and>
    (if is_ok r then map ev_percentage evs = percentages cb (schedule opts)
     else (\<exists>k. map ev_percentage evs = percentages cb (take k (schedule opts))) \<and> (\<forall>ev \<in> set evs. ev_percentage ev \<le> 55))"
proof -
  let ?ps = "[5, 15] @ (if op_force_nbd opts then [15] else []) @ [25, 45, 55 :: nat]"
  have sch: "schedule opts = ?ps @ [90, 100]" by (simp add: schedule_def)
  have small: "\<forall>n \<in> set (percentages cb (take k ?ps)). n \<le> 55" "sorted (percentages cb (take k ?ps))" for k
    using set_take_subset [of k ?ps] sorted_wrt_take [of "(\<le>)" ?ps k]
    by (auto simp: percentages_def simp del: take_append split: if_splits)
  obtain evs where evs: "eg_events e' = eg_events e @ evs"
      "if is_ok r then map ev_percentage evs = percentages cb (?ps @ [90, 100])
       else \<exists>k. map ev_percentage evs = percentages cb (take k ?ps)"
    using sends_run [OF get_inspector_silent, of cb opts oc ie oc x nt h p] assms
    unfolding sends_def engine_inspect_def by blast
  show ?thesis
  proof (cases "is_ok r")
    case True
    then show ?thesis using evs sch by (auto simp: percentages_def)
  next
    case False
    then obtain k where k: "map ev_percentage evs = percentages cb (take k ?ps)" using evs(2) by auto
    have "take k ?ps = take (min k (length ?ps)) (schedule opts)" unfolding sch by (rule take_prefix)
    then have "\<exists>k. map ev_percentage evs = percentages cb (take k (schedule opts))" using k by metis
    moreover have "\<forall>ev \<in> set evs. ev_percentage ev \<le> 55" using small(1) [of k] unfolding k [symmetric] by simp
    ultimately show ?thesis using evs(1) k small(2) [of k] False by auto
  qed
qed

theorem inspection_events_witness:
  "\<exists>r e' evs. engine_inspect True small_env sample_ext4 sample_ntfs panicking_hive default_options True ''disk''
      (new_engine default_options) = (r, e') \<and> is_ok r \<and> eg_events e' = evs \<and>
      map ev_percentage evs = [5, 15, 25, 45, 55, 90, 100]"
proof -
  obtain r e' where r: "engine_inspect True small_env sample_ext4 sample_ntfs panicking_hive default_options True ''disk''
      (new_engine default_options) = (r, e')" "without_stats r = Ok small_report"
    by (rule small_inspected)
  then have ok: "is_ok r" by (cases r) (simp_all add: without_stats_def is_ok_def)
  have "eg_events (new_engine default_options) = []" "percentages True (schedule default_options) = [5, 15, 25, 45, 55, 90, 100]"
    by code_simp+
  then show ?thesis using inspection_events [OF r(1)] r(1) ok by auto
qed

text \<open>C25. A cancelled engine starts nothing: when the flag is set, an inspection of an existing file ends
  with the cancellation error before anything is opened, sends no event and leaves the progress alone;
  and a flag set while the image is opened stops the inspection before the first read.\<close>

theorem cancelled_inspection_stops:
  assumes "host_metadata (ie_host ie) p = Ok md" and "fst (flag_set (eg_progress e) (eg_token e))"
    and "fst (flag_set (eg_progress e1) (dk_cancel rd))"
  shows "(\<exists>t. engine_inspect oc ie x nt h opts cb p e = (Err Cancelled, e\<lparr>eg_token := t\<rparr>)) \<and>
    (\<exists>t. inspect_reader oc ie an opts cb img chunk mode (rd, e1) = (Err Cancelled, (rd\<lparr>dk_cancel := t\<rparr>, e1)))"
  using assms
  by (auto simp: engine_inspect_def run_inspection_def identify_stage_def inspect_reader_def io_bind_def stop_if_def
      engine_is_cancelled_def reader_is_cancelled_def split: prod.splits)

theorem cancelled_inspection_stops_witness:
  "\<exists>t. engine_inspect True small_env sample_ext4 sample_ntfs panicking_hive default_options True ''disk''
      (engine_cancel (new_engine default_options)) = (Err Cancelled, (engine_cancel (new_engine default_options))\<lparr>eg_token := t\<rparr>)"
proof -
  let ?e = "engine_cancel (new_engine default_options)"
  have "fst (flag_set (eg_progress ?e) (eg_token ?e))" by code_simp
  moreover from this have "fst (flag_set (eg_progress ?e) (dk_cancel (sample_reader\<lparr>dk_cancel := eg_token ?e\<rparr>)))" by simp
  ultimately show ?thesis using cancelled_inspection_stops [OF small_identified(1)] by blast
qed

end
