(* ===== verification/Operation.thy ===== *)
theory Operation
  imports Models
begin

text \<open>
  \<open>src/operation.rs\<close>: the process-wide slot that discovery and inspection batches share.
  The slot is the atomic flag \<open>ACTIVE_OPERATION\<close>; a guard is a thread that owns it.
  \<open>guarded\<close> is the shape of every operation that holds the guard over its body, and
  \<open>slot_step\<close> the interleaving of the threads of a process, one atomic access at a time.
\<close>

section \<open>The slot\<close>

definition busy_error :: vm_error where
  "busy_error = Other ''another VM discovery or inspection batch is already running''"

text \<open>\<open>compare_exchange(false, true)\<close>: one atomic step.\<close>

definition acquire_active_operation :: "(bool, vm_error, unit) io" where
  "acquire_active_operation active = (if active then (Err busy_error, active) else (Ok (), True))"

text \<open>\<open>Drop for ActiveOperationGuard\<close>.\<close>

definition drop_guard :: "bool \<Rightarrow> bool" where
  "drop_guard active = False"

text \<open>An operation that starts with \<open>let _guard = acquire_active_operation()?\<close>: the guard is
  dropped on every way out of the body, an error and a panic included.  A body that does not
  return is \<open>None\<close>.\<close>

definition guarded :: "(vm_error \<Rightarrow> 'r) \<Rightarrow> 'r option \<Rightarrow> bool \<Rightarrow> ('r \<times> bool) option" where
  "guarded fail body active = (case acquire_active_operation active of
       (Err e, a) \<Rightarrow> Some (fail e, a)
     | (_, a) \<Rightarrow> map_option (\<lambda>r. (r, drop_guard a)) body)"

section \<open>Threads\<close>

record 't slot =
  sl_active :: bool
  sl_guards :: "'t set"
  sl_rejected :: "'t set"

definition fresh_slot :: "'t slot" where
  "fresh_slot = \<lparr>sl_active = False, sl_guards = {}, sl_rejected = {}\<rparr>"

inductive slot_step :: "'t slot \<Rightarrow> 't slot \<Rightarrow> bool" where
  enter: "acquire_active_operation (sl_active s) = (Ok (), a) \<Longrightarrow> t \<notin> sl_guards s \<Longrightarrow>
    slot_step s (s\<lparr>sl_active := a, sl_guards := insert t (sl_guards s)\<rparr>)"
| reject: "acquire_active_operation (sl_active s) = (Err e, a) \<Longrightarrow>
    slot_step s (s\<lparr>sl_active := a, sl_rejected := insert t (sl_rejected s)\<rparr>)"
| leave: "t \<in> sl_guards s \<Longrightarrow>
    slot_step s (s\<lparr>sl_active := drop_guard (sl_active s), sl_guards := sl_guards s - {t}\<rparr>)"

inductive_cases slot_stepE: "slot_step s s'"

definition slot_inv :: "'t slot \<Rightarrow> bool" where
  "slot_inv s \<longleftrightarrow> (if sl_active s then \<exists>t. sl_guards s = {t} else sl_guards s = {})"

lemma acquire_cases:
  "acquire_active_operation a = (Ok (), b) \<longleftrightarrow> \<not> a \<and> b"
  "acquire_active_operation a = (Err e, b) \<longleftrightarrow> a \<and> b \<and> e = busy_error"
  by (auto simp: acquire_active_operation_def)

lemma slot_step_inv: "slot_step s s' \<Longrightarrow> slot_inv s \<Longrightarrow> slot_inv s'"
  by (erule slot_stepE) (auto simp: slot_inv_def acquire_cases drop_guard_def split: if_splits)

lemma slot_reachable_inv: "slot_step\<^sup>*\<^sup>* fresh_slot s \<Longrightarrow> slot_inv s"
proof (induction rule: rtranclp_induct)
  case base
  show ?case by (simp add: slot_inv_def fresh_slot_def)
qed (rule slot_step_inv)

lemma guarded_free [simp]: "guarded fail body False = map_option (\<lambda>r. (r, False)) body"
  by (simp add: guarded_def acquire_active_operation_def drop_guard_def)

lemma guarded_busy [simp]: "guarded fail body True = Some (fail busy_error, True)"
  by (simp add: guarded_def acquire_active_operation_def)

section \<open>Properties\<close>

text \<open>C34. However the threads interleave, at most one of them holds the guard, and the flag is set
  exactly while one does; so a thread is turned away only while another operation is running.\<close>

theorem operations_exclusive:
  assumes "slot_step\<^sup>*\<^sup>* fresh_slot s"
  shows "(sl_active s \<longleftrightarrow> sl_guards s \<noteq> {}) \<and> (\<forall>t u. t \<in> sl_guards s \<longrightarrow> u \<in> sl_guards s \<longrightarrow> t = u)"
  using slot_reachable_inv [OF assms] by (auto simp: slot_inv_def split: if_splits)

theorem operations_exclusive_witness:
  "let s = \<lparr>sl_active = True, sl_guards = {1 :: nat}, sl_rejected = {2}\<rparr> in
    slot_step\<^sup>*\<^sup>* fresh_slot s \<and> (sl_active s \<longleftrightarrow> sl_guards s \<noteq> {})"
proof -
  let ?s1 = "\<lparr>sl_active = True, sl_guards = {1 :: nat}, sl_rejected = {}\<rparr>"
  let ?s2 = "\<lparr>sl_active = True, sl_guards = {1 :: nat}, sl_rejected = {2}\<rparr>"
  have "slot_step fresh_slot ?s1"
    using slot_step.enter [of fresh_slot True 1] by (simp add: fresh_slot_def acquire_cases del: One_nat_def)
  moreover have "slot_step ?s1 ?s2"
    using slot_step.reject [of ?s1 busy_error True 2] by (simp add: acquire_cases)
  ultimately have r: "slot_step\<^sup>*\<^sup>* fresh_slot ?s2" by simp
  with operations_exclusive [OF r] show ?thesis by (simp add: Let_def)
qed

end
