(* ===== verification/Discovery.thy ===== *)
theory Discovery
  imports Disk_Reader Operation "HOL-Library.List_Lexorder" "HOL-Library.Multiset"
begin

text \<open>
  \<open>src/vms/discovery.rs\<close>: the search for disk images below a directory, the quick check of
  an image's signature and the decision whether an image needs \<open>qemu-nbd\<close>.

  A directory is read through \<open>rd\<close>, which stands for \<open>fs::read_dir\<close>: an error, or the
  entries in the order the host yields them, each of which may itself be an error.  The search is
  the queue of the source; since a host could nest directories without end it is a partial function
  whose value is \<open>None\<close> when it does not return.  \<open>tree_dirs\<close> is the specification: the
  directories of the tree, depth first.
\<close>

section \<open>Which names are images\<close>

text \<open>\<open>OsStr::to_str\<close>.\<close>

definition to_str :: "string \<Rightarrow> string option" where
  "to_str s = (if utf8_valid_codes (map code s) then Some s else None)"

definition SUPPORTED_EXTENSIONS :: "string list" where
  "SUPPORTED_EXTENSIONS = [''vmdk'', ''qcow2'', ''vdi'', ''vhd'', ''vhdx'', ''raw'', ''img'']"

text \<open>The loop over the two separators of a split extent.\<close>

definition split_extent_mark :: "string \<Rightarrow> string \<Rightarrow> bool" where
  "split_extent_mark stem sep = (case rfind stem sep of
       None \<Rightarrow> False
     | Some pos \<Rightarrow> 0 < length (takeWhile is_ascii_digit (drop (pos + length sep) stem)))"

definition is_secondary_extent :: "path \<Rightarrow> bool" where
  "is_secondary_extent p = (case Option.bind (file_name p) to_str of
       None \<Rightarrow> False
     | Some n \<Rightarrow> (let name = to_ascii_lowercase n in
         if ends_with name ''.vmdk'' then (case Option.bind (file_stem p) to_str of
             None \<Rightarrow> False
           | Some s \<Rightarrow> (let stem = to_ascii_lowercase s in
               list_ex (ends_with stem) [''-flat'', ''_flat'', ''-delta'', ''_delta'', ''-sesparse'', ''_sesparse'']
               \<or> list_ex (split_extent_mark stem) [''-s'', ''_s'']))
         else if ends_with name ''.vhd'' \<or> ends_with name ''.vhdx'' then (case Option.bind (file_stem p) to_str of
             None \<Rightarrow> False
           | Some s \<Rightarrow> list_ex (ends_with (to_ascii_lowercase s)) [''-sys'', ''_sys'', ''-delta'', ''_delta''])
         else False))"

definition is_vm_image_candidate :: "path \<Rightarrow> bool" where
  "is_vm_image_candidate p = (case Option.bind (extension p) to_str of
       None \<Rightarrow> False
     | Some e \<Rightarrow> to_ascii_lowercase e \<in> set SUPPORTED_EXTENSIONS \<and> \<not> is_secondary_extent p)"

definition is_vm_image :: "host \<Rightarrow> path \<Rightarrow> bool" where
  "is_vm_image h p =
     (if path_is_dir h p \<or> \<not> is_vm_image_candidate p then False
      else (case host_metadata h p of
          Ok m \<Rightarrow> \<not> (\<not> md_is_file m \<or> md_len m = 0)
        | _ \<Rightarrow> True))"

section \<open>The search\<close>

record discovery_options =
  do_recursive :: bool
  do_excluded_directories :: "path list"
  do_emit_warnings :: bool
  do_max_depth :: "nat option"

definition default_discovery_options :: discovery_options where
  "default_discovery_options = \<lparr>do_recursive = False, do_excluded_directories = [],
     do_emit_warnings = True, do_max_depth = None\<rparr>"

record discovery_report =
  dp_images :: "path list"
  dp_warnings :: "string list"
  dp_inaccessible :: "path list"

definition default_discovery_report :: discovery_report where
  "default_discovery_report = \<lparr>dp_images = [], dp_warnings = [], dp_inaccessible = []\<rparr>"

datatype file_type = FtFile | FtDir | FtOther

record dir_entry =
  en_name :: string
  en_type :: "io_error + file_type"
  en_meta :: "io_error + metadata"

type_synonym dir_reader = "path \<Rightarrow> io_error + (io_error + dir_entry) list"

text \<open>The report under construction and what was written to stderr.\<close>

type_synonym walk = "discovery_report \<times> string list"

definition validate_discovery_root :: "host \<Rightarrow> path \<Rightarrow> (vm_error, unit) res" where
  "validate_discovery_root h dir = (case host_metadata h dir of
       Err e \<Rightarrow> if kind_of e = NotFound then Err (ImageNotFound (''Directory not found: '' @ dir)) else Err (Io e)
     | Panic \<Rightarrow> Panic
     | Ok m \<Rightarrow> if \<not> md_is_dir m then Err (Other (''The supplied path is not a directory: '' @ dir)) else Ok ())"

definition warn :: "discovery_options \<Rightarrow> string \<Rightarrow> walk \<Rightarrow> walk" where
  "warn opts msg w = (case w of (rep, err) \<Rightarrow>
     (rep\<lparr>dp_warnings := dp_warnings rep @ [msg]\<rparr>,
      if do_emit_warnings opts then err @ [''Warning: '' @ msg] else err))"

definition skip_entry :: "path \<Rightarrow> io_error \<Rightarrow> string" where
  "skip_entry p e = ''skipping entry '' @ quoted p @ '' during VM discovery: '' @ io_text e"

definition push_image :: "path \<Rightarrow> walk \<Rightarrow> walk" where
  "push_image p w = (case w of (rep, err) \<Rightarrow> (rep\<lparr>dp_images := dp_images rep @ [p]\<rparr>, err))"

definition excluded_dir :: "discovery_options \<Rightarrow> path \<Rightarrow> bool" where
  "excluded_dir opts p = list_ex (\<lambda>x. same_path x p \<or> file_name x = file_name p) (do_excluded_directories opts)"

definition below_limit :: "discovery_options \<Rightarrow> nat \<Rightarrow> bool" where
  "below_limit opts depth = (case do_max_depth opts of None \<Rightarrow> True | Some limit \<Rightarrow> depth < limit)"

text \<open>The body of the loop over the entries of a directory.\<close>

definition visit_entry ::
    "discovery_options \<Rightarrow> path \<Rightarrow> nat \<Rightarrow> io_error + dir_entry \<Rightarrow> (path \<times> nat) list \<times> walk \<Rightarrow> (path \<times> nat) list \<times> walk" where
  "visit_entry opts dir depth entry st = (case st of (queue, w) \<Rightarrow> (case entry of
       Inl e \<Rightarrow> (queue, warn opts (''skipping an unreadable entry in directory '' @ quoted dir
         @ '' during VM discovery: '' @ io_text e) w)
     | Inr en \<Rightarrow> (let p = join_path dir (en_name en) in case en_type en of
         Inl e \<Rightarrow> (queue, warn opts (skip_entry p e) w)
       | Inr ft \<Rightarrow>
           if ft = FtDir \<and> do_recursive opts
           then if \<not> excluded_dir opts p \<and> below_limit opts depth then (queue @ [(p, depth + 1)], w) else (queue, w)
           else if ft = FtFile \<and> is_vm_image_candidate p then (case en_meta en of
               Inr m \<Rightarrow> if md_is_file m \<and> 0 < md_len m then (queue, push_image p w) else (queue, w)
             | Inl e \<Rightarrow> (queue, warn opts (skip_entry p e) w))
           else (queue, w))))"

definition skip_directory :: "discovery_options \<Rightarrow> path \<Rightarrow> io_error \<Rightarrow> walk \<Rightarrow> walk" where
  "skip_directory opts dir e w =
     (case warn opts (''skipping directory '' @ quoted dir @ '' during VM discovery: '' @ io_text e) w of
        (rep, err) \<Rightarrow> (rep\<lparr>dp_inaccessible := dp_inaccessible rep @ [dir]\<rparr>, err))"

partial_function (option) walk_queue ::
    "dir_reader \<Rightarrow> discovery_options \<Rightarrow> path \<Rightarrow> (path \<times> nat) list \<Rightarrow> walk \<Rightarrow> ((vm_error, unit) res \<times> walk) option" where
  "walk_queue rd opts root queue w = (case queue of
       [] \<Rightarrow> Some (Ok (), w)
     | (dir, depth) # rest \<Rightarrow> (case rd dir of
         Inl e \<Rightarrow> if same_path dir root then Some (Err (Io e), w)
           else walk_queue rd opts root rest (skip_directory opts dir e w)
       | Inr entries \<Rightarrow> (case fold (visit_entry opts dir depth) entries (rest, w) of
           (queue', w') \<Rightarrow> walk_queue rd opts root queue' w')))"

text \<open>The order of \<open>PathBuf\<close>: component by component, the root before the special
  components before the names, and names by their bytes.\<close>

definition component_key :: "string \<Rightarrow> nat list" where
  "component_key c = (if c = ''.'' then [2] else if c = ''..'' then [3] else 4 # map code c)"

definition path_key :: "path \<Rightarrow> nat list list" where
  "path_key p = (if is_absolute p then [[1]] else []) @ map component_key (components p)"

definition sort_paths :: "path list \<Rightarrow> path list" where
  "sort_paths = sort_key path_key"

definition sort_report :: "discovery_report \<Rightarrow> discovery_report" where
  "sort_report rep = rep\<lparr>dp_images := sort_paths (dp_images rep), dp_inaccessible := sort_paths (dp_inaccessible rep)\<rparr>"

text \<open>The body of \<open>list_vms_with_options\<close> once the guard is held.\<close>

definition discover ::
    "host \<Rightarrow> dir_reader \<Rightarrow> path \<Rightarrow> discovery_options \<Rightarrow> ((vm_error, discovery_report) res \<times> string list) option" where
  "discover h rd dir opts = (case validate_discovery_root h dir of
       Err e \<Rightarrow> Some (Err e, [])
     | Panic \<Rightarrow> Some (Panic, [])
     | Ok _ \<Rightarrow> map_option (\<lambda>(r, (rep, err)). (and_then r (\<lambda>_. Ok (sort_report rep)), err))
         (walk_queue rd opts dir [(dir, 0)] (default_discovery_report, [])))"

definition list_vms_with_options ::
    "host \<Rightarrow> dir_reader \<Rightarrow> path \<Rightarrow> discovery_options \<Rightarrow> bool \<Rightarrow>
      (((vm_error, discovery_report) res \<times> string list) \<times> bool) option" where
  "list_vms_with_options h rd dir opts = guarded (\<lambda>e. (Err e, [])) (discover h rd dir opts)"

definition list_vms :: "host \<Rightarrow> dir_reader \<Rightarrow> path \<Rightarrow> bool \<Rightarrow> bool \<Rightarrow> ((vm_error, path list) res \<times> bool) option" where
  "list_vms h rd dir recursive active =
     map_option (\<lambda>((r, err), a). (and_then r (\<lambda>rep. Ok (dp_images rep)), a))
       (list_vms_with_options h rd dir (default_discovery_options\<lparr>do_recursive := recursive\<rparr>) active)"

definition count_vms :: "host \<Rightarrow> dir_reader \<Rightarrow> path \<Rightarrow> bool \<Rightarrow> bool \<Rightarrow> ((vm_error, nat) res \<times> bool) option" where
  "count_vms h rd dir recursive active =
     map_option (\<lambda>(r, a). (and_then r (\<lambda>l. Ok (length l)), a)) (list_vms h rd dir recursive active)"

definition has_vms :: "host \<Rightarrow> dir_reader \<Rightarrow> path \<Rightarrow> bool \<Rightarrow> bool \<Rightarrow> ((vm_error, bool) res \<times> bool) option" where
  "has_vms h rd dir recursive active =
     map_option (\<lambda>(r, a). (and_then r (\<lambda>l. Ok (l \<noteq> [])), a)) (list_vms h rd dir recursive active)"

section \<open>The signature check\<close>

definition image_extension :: "path \<Rightarrow> string" where
  "image_extension p = (case Option.bind (extension p) to_str of None \<Rightarrow> [] | Some e \<Rightarrow> to_ascii_lowercase e)"

definition MAGIC_QCOW2 :: bytes where
  "MAGIC_QCOW2 = [0x51, 0x46, 0x49, 0xFB]"

definition MAGIC_VHDX :: bytes where
  "MAGIC_VHDX = ascii_bytes ''vhdxfile''"

definition MAGIC_VHD_CONECTIX :: bytes where
  "MAGIC_VHD_CONECTIX = ascii_bytes ''conectix''"

definition MAGIC_VDI_SIGNATURE :: bytes where
  "MAGIC_VDI_SIGNATURE = [0x7F, 0x10, 0xDA, 0xBE]"

definition MAGIC_VDI_PREFIX_SUN :: bytes where
  "MAGIC_VDI_PREFIX_SUN = ascii_bytes ''<<< Sun VirtualBox Disk Image >>>''"

definition MAGIC_VDI_PREFIX_ORACLE :: bytes where
  "MAGIC_VDI_PREFIX_ORACLE = ascii_bytes ''<<< Oracle VM VirtualBox Disk Image >>>''"

definition has_vdi_signature :: "bytes \<Rightarrow> bool" where
  "has_vdi_signature hdr = (0x44 \<le> length hdr \<and> subrange hdr 0x40 0x44 = MAGIC_VDI_SIGNATURE)"

definition is_vmdk_text :: "bytes \<Rightarrow> bool" where
  "is_vmdk_text hdr = (let trimmed_text = trim_start (utf8_lossy hdr) in
     starts_with trimmed_text ''# Disk DescriptorFile'' \<or> starts_with trimmed_text ''# VMDK Header''
     \<or> starts_with trimmed_text ''# VMDK'' \<or> contains trimmed_text ''# Disk DescriptorFile'')"

text \<open>The check of a fixed VHD's footer.\<close>

definition vhd_footer_matches :: "nat \<Rightarrow> handle \<Rightarrow> (vm_error, bool) res" where
  "vhd_footer_matches sz f = fst (io_map_err Io (io_bind (seek_start (sz - 512)) (\<lambda>_.
     io_bind (read_exact 512) (\<lambda>footer. io_ret (starts_with footer MAGIC_VHD_CONECTIX)))) f)"

definition signature_matches :: "string \<Rightarrow> nat \<Rightarrow> bytes \<Rightarrow> handle \<Rightarrow> (vm_error, bool) res" where
  "signature_matches ext sz hdr f =
     (if ext = ''qcow2'' then Ok (4 \<le> length hdr \<and> starts_with hdr MAGIC_QCOW2)
      else if ext = ''vmdk'' then
        Ok ((4 \<le> length hdr \<and> starts_with hdr MAGIC_KDMV) \<or> is_vmdk_text hdr)
      else if ext = ''vdi'' then
        Ok ((starts_with hdr (ascii_bytes ''<<< '')
              \<and> ((starts_with hdr MAGIC_VDI_PREFIX_SUN \<or> starts_with hdr MAGIC_VDI_PREFIX_ORACLE)
                 \<or> has_vdi_signature hdr))
            \<or> has_vdi_signature hdr)
      else if ext = ''vhdx'' then Ok (8 \<le> length hdr \<and> starts_with hdr MAGIC_VHDX)
      else if ext = ''vhd'' then
        (if 8 \<le> length hdr \<and> (starts_with hdr MAGIC_VHD_CONECTIX \<or> starts_with hdr (ascii_bytes ''cxsparse''))
         then Ok True
         else if 512 \<le> sz then vhd_footer_matches sz f else Ok False)
      else if ext = ''raw'' \<or> ext = ''img'' then
        (if sz < 512 then Ok False
         else if 512 \<le> length hdr \<and> hdr ! 510 = 0x55 \<and> hdr ! 511 = 0xAA then Ok True
         else if 520 \<le> length hdr \<and> subrange hdr 512 520 = ascii_bytes ''EFI PART'' then Ok True
         else Ok True)
      else Ok (starts_with hdr MAGIC_QCOW2 \<or> starts_with hdr MAGIC_KDMV \<or> starts_with hdr MAGIC_VHDX
             \<or> starts_with hdr MAGIC_VHD_CONECTIX \<or> has_vdi_signature hdr))"

definition verify_image_integrity :: "host \<Rightarrow> path \<Rightarrow> (vm_error, bool) res" where
  "verify_image_integrity h p =
     (if \<not> path_exists h p then Err (ImageNotFound (''Image not found: '' @ p))
      else and_then (map_err Io (open_read_file h p)) (\<lambda>f.
           and_then (map_err Io (host_metadata h p)) (\<lambda>m.
             if md_len m = 0 then Ok False
             else (case read_exact (min (md_len m) 4096) f of
                 (Ok hdr, f') \<Rightarrow> signature_matches (image_extension p) (md_len m) hdr f'
               | (Err e, _) \<Rightarrow> Err (Io e)
               | (Panic, _) \<Rightarrow> Panic))))"

section \<open>The choice between the native engine and qemu-nbd\<close>

text \<open>The embedded descriptor of a sparse extent, \<open>None\<close> where it cannot be read.\<close>

definition probe_descriptor :: "bool \<Rightarrow> sparse_header \<Rightarrow> handle \<Rightarrow> (vm_error, bytes option) res" where
  "probe_descriptor oc cab f =
     and_then (mul64 oc (sh_descriptor_sectors cab) SECTOR) (\<lambda>n.
     and_then (mul64 oc (sh_descriptor_offset cab) SECTOR) (\<lambda>off.
       (case io_bind (seek_start off) (\<lambda>_. read_exact (min n (64 * 1024))) f of
          (Ok text, _) \<Rightarrow> Ok (Some text)
        | (Err _, _) \<Rightarrow> Ok None
        | (Panic, _) \<Rightarrow> Panic)))"

definition sparse_requires_nbd :: "bool \<Rightarrow> sparse_header \<Rightarrow> handle \<Rightarrow> (vm_error, bool) res" where
  "sparse_requires_nbd oc cab f =
     (if unsupported_reason cab \<noteq> None then Ok True
      else if sh_descriptor_offset cab \<noteq> 0 \<and> sh_descriptor_sectors cab \<noteq> 0
      then and_then (probe_descriptor oc cab f) (\<lambda>text. (case text of
             None \<Rightarrow> Ok False
           | Some bs \<Rightarrow> (let d = parse_descriptor (utf8_lossy bs)
               in if has_parent d \<or> 1 < length (ds_extents d) then Ok True else Ok False)))
      else Ok False)"

definition text_requires_nbd :: "descriptor \<Rightarrow> bool" where
  "text_requires_nbd d =
     (if has_parent d \<or> ds_extents d = [] then True
      else if 1 < length (ds_extents d) \<or> contains (to_ascii_lowercase (ds_create_type d)) ''twogbmaxextent''
      then True
      else if length (ds_extents d) = 1
        \<and> (let kind = to_ascii_uppercase (ed_kind (ds_extents d ! 0)) in kind = ''FLAT'' \<or> kind = ''ZERO'')
      then False else True)"

definition vmdk_requires_nbd :: "bool \<Rightarrow> host \<Rightarrow> path \<Rightarrow> (vm_error, bool) res" where
  "vmdk_requires_nbd oc h p =
     and_then (map_err Io (open_read_file h p)) (\<lambda>f.
       (case file_read 512 f of
          (Err e, _) \<Rightarrow> Err (Io e)
        | (Panic, _) \<Rightarrow> Panic
        | (Ok hdr, f') \<Rightarrow>
            if is_sparse_header hdr then (case read_sparse_header hdr of
                Ok cab \<Rightarrow> sparse_requires_nbd oc cab f'
              | Err _ \<Rightarrow> Ok True
              | Panic \<Rightarrow> Panic)
            else if is_text_descriptor hdr
            then and_then (map_err Io (read_to_string h p)) (\<lambda>text. Ok (text_requires_nbd (parse_descriptor text)))
            else Ok True))"

definition requires_nbd :: "bool \<Rightarrow> host \<Rightarrow> path \<Rightarrow> (vm_error, bool) res" where
  "requires_nbd oc h p =
     (if \<not> path_exists h p then Err (ImageNotFound (''Image not found: '' @ p))
      else (let ext = image_extension p in
        if ext \<in> {''raw'', ''img''} then Ok False
        else if ext \<in> {''qcow2'', ''vdi'', ''vhd'', ''vhdx''} then Ok True
        else if ext = ''vmdk'' then vmdk_requires_nbd oc h p
        else Ok True))"

section \<open>The tree below a directory\<close>

text \<open>The directories a visit adds to the queue, and the images and errors it records.\<close>

definition entry_subdir :: "discovery_options \<Rightarrow> path \<Rightarrow> nat \<Rightarrow> io_error + dir_entry \<Rightarrow> path list" where
  "entry_subdir opts dir depth entry = (case entry of Inr en \<Rightarrow> (let p = join_path dir (en_name en) in
       if en_type en = Inr FtDir \<and> do_recursive opts \<and> \<not> excluded_dir opts p \<and> below_limit opts depth
       then [p] else []) | Inl _ \<Rightarrow> [])"

definition entry_image :: "path \<Rightarrow> io_error + dir_entry \<Rightarrow> path list" where
  "entry_image dir entry = (case entry of Inr en \<Rightarrow> (let p = join_path dir (en_name en) in
       (case en_meta en of
          Inr m \<Rightarrow> if en_type en = Inr FtFile \<and> is_vm_image_candidate p \<and> md_is_file m \<and> 0 < md_len m
            then [p] else []
        | Inl _ \<Rightarrow> [])) | Inl _ \<Rightarrow> [])"

definition subdirs :: "dir_reader \<Rightarrow> discovery_options \<Rightarrow> path \<Rightarrow> nat \<Rightarrow> path list" where
  "subdirs rd opts dir depth = (case rd dir of Inl _ \<Rightarrow> [] | Inr es \<Rightarrow> concat (map (entry_subdir opts dir depth) es))"

definition dir_images :: "dir_reader \<Rightarrow> path \<Rightarrow> path list" where
  "dir_images rd dir = (case rd dir of Inl _ \<Rightarrow> [] | Inr es \<Rightarrow> concat (map (entry_image dir) es))"

definition dir_readable :: "dir_reader \<Rightarrow> path \<Rightarrow> bool" where
  "dir_readable rd dir = (case rd dir of Inl _ \<Rightarrow> False | Inr _ \<Rightarrow> True)"

text \<open>The directories of a tree of height at most \<open>n\<close>, and that a tree is no higher.\<close>

fun tree_dirs :: "dir_reader \<Rightarrow> discovery_options \<Rightarrow> nat \<Rightarrow> nat \<Rightarrow> path \<Rightarrow> path list" where
  "tree_dirs rd opts 0 depth dir = [dir]"
| "tree_dirs rd opts (Suc n) depth dir =
     dir # concat (map (tree_dirs rd opts n (Suc depth)) (subdirs rd opts dir depth))"

fun height_le :: "dir_reader \<Rightarrow> discovery_options \<Rightarrow> nat \<Rightarrow> nat \<Rightarrow> path \<Rightarrow> bool" where
  "height_le rd opts 0 depth dir = (subdirs rd opts dir depth = [])"
| "height_le rd opts (Suc n) depth dir = list_all (height_le rd opts n (Suc depth)) (subdirs rd opts dir depth)"

text \<open>What \<open>read_dir\<close> promises of the names it yields.\<close>

definition valid_name :: "string \<Rightarrow> bool" where
  "valid_name n = (n \<noteq> [] \<and> CHR ''/'' \<notin> set n \<and> n \<noteq> ''.'' \<and> n \<noteq> ''..'')"

definition names_ok :: "dir_reader \<Rightarrow> bool" where
  "names_ok rd \<longleftrightarrow> (\<forall>dir es en. rd dir = Inr es \<longrightarrow> Inr en \<in> set es \<longrightarrow> valid_name (en_name en))"

section \<open>Names below a directory\<close>

lemma split_on_no_sep: "c \<notin> set s \<Longrightarrow> split_on c s = [s]"
  by (induction s) auto

lemma split_on_nonempty: "split_on c s \<noteq> []"
  by (induction s) (auto split: list.splits)

lemma split_on_append: "split_on c (s @ c # r) = split_on c s @ split_on c r"
proof (induction s)
  case (Cons x s)
  then show ?case using split_on_nonempty [of c s] by (auto split: list.splits)
qed simp

lemma components_append_slash:
  assumes "valid_name n"
  shows "components (d @ ''/'' @ n) = components d @ [n]"
proof -
  have n: "split_on (CHR ''/'') n = [n]" using assms by (auto simp: valid_name_def intro: split_on_no_sep)
  have "split_on (CHR ''/'') (d @ ''/'' @ n) = split_on (CHR ''/'') d @ [n]"
    using split_on_append [of "CHR ''/''" d n] n by simp
  then show ?thesis using assms split_on_nonempty [of "CHR ''/''" d]
    by (auto simp: components_def valid_name_def split: list.splits)
qed

lemma components_name:
  assumes "valid_name n"
  shows "components n = [n]"
proof -
  have "split_on (CHR ''/'') n = [n]" using assms by (auto simp: valid_name_def intro: split_on_no_sep)
  then show ?thesis using assms by (simp add: components_def valid_name_def)
qed

lemma components_trailing_slash: "components (d @ ''/'') = components d"
  using split_on_append [of "CHR ''/''" d "[]"] split_on_nonempty [of "CHR ''/''" d]
  by (auto simp: components_def split: list.splits)

lemma components_join:
  assumes "valid_name n"
  shows "components (join_path d n) = components d @ [n]"
proof -
  have rel: "\<not> is_absolute n"
    using assms by (cases n) (auto simp: valid_name_def is_absolute_def starts_with_def)
  consider "d = []" | d' where "d = d' @ ''/''" | "d \<noteq> []" "last d \<noteq> CHR ''/''"
    by (metis append_butlast_last_id)
  then show ?thesis
  proof cases
    case 1
    then show ?thesis using rel assms components_name by (simp add: join_path_def components_def)
  next
    case 2
    then show ?thesis using rel components_append_slash [OF assms, of d'] components_trailing_slash [of d']
      by (simp add: join_path_def)
  next
    case 3
    then show ?thesis using rel components_append_slash [OF assms, of d] by (simp add: join_path_def)
  qed
qed

text \<open>The files of a directory keep their name.\<close>

lemma file_name_join: "valid_name n \<Longrightarrow> file_name (join_path d n) = Some n"
  by (simp add: file_name_def components_join valid_name_def)

section \<open>The search visits the tree\<close>

definition walk_images :: "walk \<Rightarrow> path list" where
  "walk_images w = dp_images (fst w)"

definition walk_closed :: "walk \<Rightarrow> path list" where
  "walk_closed w = dp_inaccessible (fst w)"

definition log_ok :: "discovery_options \<Rightarrow> walk \<Rightarrow> bool" where
  "log_ok opts w = (snd w = (if do_emit_warnings opts then map (\<lambda>m. ''Warning: '' @ m) (dp_warnings (fst w)) else []))"

lemma warn_simps [simp]:
  "walk_images (warn opts m w) = walk_images w" "walk_closed (warn opts m w) = walk_closed w"
  "log_ok opts w \<Longrightarrow> log_ok opts (warn opts m w)"
  by (auto simp: warn_def walk_images_def walk_closed_def log_ok_def split: prod.splits)

lemma push_image_simps [simp]:
  "walk_images (push_image p w) = walk_images w @ [p]" "walk_closed (push_image p w) = walk_closed w"
  "log_ok opts w \<Longrightarrow> log_ok opts (push_image p w)"
  by (auto simp: push_image_def walk_images_def walk_closed_def log_ok_def split: prod.splits)

lemma skip_directory_simps [simp]:
  "walk_images (skip_directory opts d e w) = walk_images w"
  "walk_closed (skip_directory opts d e w) = walk_closed w @ [d]"
  "log_ok opts w \<Longrightarrow> log_ok opts (skip_directory opts d e w)"
  by (auto simp: skip_directory_def warn_def walk_images_def walk_closed_def log_ok_def split: prod.splits)

lemma visit_entry_effect:
  assumes "visit_entry opts dir depth e (q, w) = (q', w')"
  shows "q' = q @ map (\<lambda>d. (d, Suc depth)) (entry_subdir opts dir depth e)
    \<and> walk_images w' = walk_images w @ entry_image dir e \<and> walk_closed w' = walk_closed w
    \<and> (log_ok opts w \<longrightarrow> log_ok opts w')"
proof (cases e)
  case (Inl x)
  then show ?thesis using assms by (auto simp: visit_entry_def entry_subdir_def entry_image_def)
next
  case (Inr en)
  show ?thesis
  proof (cases "en_type en")
    case (Inl x)
    then show ?thesis using assms Inr
      by (auto simp: visit_entry_def entry_subdir_def entry_image_def Let_def split: sum.splits)
  next
    case t: (Inr ft)
    then show ?thesis using assms Inr
      by (cases ft) (auto simp: visit_entry_def entry_subdir_def entry_image_def Let_def split: sum.splits if_splits)
  qed
qed

lemma visit_entries_effect:
  assumes "fold (visit_entry opts dir depth) es (q, w) = (q', w')"
  shows "q' = q @ map (\<lambda>d. (d, Suc depth)) (concat (map (entry_subdir opts dir depth) es))
    \<and> walk_images w' = walk_images w @ concat (map (entry_image dir) es) \<and> walk_closed w' = walk_closed w
    \<and> (log_ok opts w \<longrightarrow> log_ok opts w')"
  using assms
proof (induction es arbitrary: q w)
  case (Cons e es)
  obtain q1 w1 where v: "visit_entry opts dir depth e (q, w) = (q1, w1)" by (cases "visit_entry opts dir depth e (q, w)")
  then have "fold (visit_entry opts dir depth) es (q1, w1) = (q', w')" using Cons.prems by simp
  from Cons.IH [OF this] visit_entry_effect [OF v] show ?case by auto
qed simp

text \<open>The directories of the trees of a queue, one height each.\<close>

definition forest :: "dir_reader \<Rightarrow> discovery_options \<Rightarrow> nat list \<Rightarrow> (path \<times> nat) list \<Rightarrow> path list" where
  "forest rd opts ns q = concat (map2 (\<lambda>n (d, k). tree_dirs rd opts n k d) ns q)"

definition queued_ok :: "dir_reader \<Rightarrow> path \<Rightarrow> path \<Rightarrow> bool" where
  "queued_ok rd root d \<longleftrightarrow> length (components root) \<le> length (components d)
     \<and> (dir_readable rd d \<or> length (components root) < length (components d))"

lemma forest_Cons: "forest rd opts (n # ns) ((d, k) # q) = tree_dirs rd opts n k d @ forest rd opts ns q"
  by (simp add: forest_def)

lemma forest_children:
  assumes "length ns = length q"
  shows "forest rd opts (ns @ replicate (length ds) n) (q @ map (\<lambda>d. (d, k)) ds) =
    forest rd opts ns q @ concat (map (tree_dirs rd opts n k) ds)"
proof -
  have "concat (map2 (\<lambda>n (d, k). tree_dirs rd opts n k d) (replicate (length ds) n) (map (\<lambda>d. (d, k)) ds)) =
      concat (map (tree_dirs rd opts n k) ds)"
    by (induction ds) auto
  then show ?thesis using assms by (simp add: forest_def)
qed

lemma subdir_is_join:
  assumes "names_ok rd" "d' \<in> set (subdirs rd opts d k)"
  obtains n where "valid_name n" "d' = join_path d n"
proof -
  obtain es e where "rd d = Inr es" "e \<in> set es" "d' \<in> set (entry_subdir opts d k e)"
    using assms(2) by (cases "rd d") (auto simp: subdirs_def)
  then show ?thesis using that assms(1)
    by (auto simp: entry_subdir_def names_ok_def Let_def split: sum.splits if_splits)
qed

lemma queued_ok_subdir:
  assumes "names_ok rd" "queued_ok rd root d" "d' \<in> set (subdirs rd opts d k)"
  shows "queued_ok rd root d'"
proof -
  obtain n where "valid_name n" "d' = join_path d n" using subdir_is_join [OF assms(1,3)] .
  then show ?thesis using assms(2) by (simp add: queued_ok_def components_join)
qed

lemma queued_ok_not_root: "queued_ok rd root d \<Longrightarrow> \<not> dir_readable rd d \<Longrightarrow> \<not> same_path d root"
  by (auto simp: queued_ok_def same_path_def)

text \<open>One round of the loop: the queue and the report it goes on with.\<close>

lemma walk_round:
  assumes "queued_ok rd root d"
  obtains w1 where "walk_queue rd opts root ((d, k) # q) w =
      walk_queue rd opts root (q @ map (\<lambda>d. (d, Suc k)) (subdirs rd opts d k)) w1"
    "walk_images w1 = walk_images w @ dir_images rd d"
    "walk_closed w1 = walk_closed w @ filter (\<lambda>d. \<not> dir_readable rd d) [d]"
    "log_ok opts w \<Longrightarrow> log_ok opts w1"
proof (cases "rd d")
  case (Inl e)
  then have "\<not> same_path d root" using queued_ok_not_root [OF assms] by (simp add: dir_readable_def)
  then have "walk_queue rd opts root ((d, k) # q) w = walk_queue rd opts root q (skip_directory opts d e w)"
    using Inl by (subst walk_queue.simps) simp
  then show ?thesis using Inl by (intro that [of "skip_directory opts d e w"]) (auto simp: subdirs_def dir_images_def dir_readable_def)
next
  case (Inr es)
  obtain q1 w1 where f: "fold (visit_entry opts d k) es (q, w) = (q1, w1)"
    by (cases "fold (visit_entry opts d k) es (q, w)")
  then have "walk_queue rd opts root ((d, k) # q) w = walk_queue rd opts root q1 w1"
    using Inr by (subst walk_queue.simps) simp
  then show ?thesis using Inr visit_entries_effect [OF f]
    by (intro that [of w1]) (auto simp: subdirs_def dir_images_def dir_readable_def)
qed

lemma walk_forest:
  assumes "names_ok rd"
  shows "list_all2 (\<lambda>n (d, k). height_le rd opts n k d) ns q \<Longrightarrow> \<forall>(d, k) \<in> set q. queued_ok rd root d \<Longrightarrow>
    log_ok opts w \<Longrightarrow> \<exists>w'. walk_queue rd opts root q w = Some (Ok (), w') \<and> log_ok opts w' \<and>
      mset (walk_images w') = mset (walk_images w @ concat (map (dir_images rd) (forest rd opts ns q))) \<and>
      mset (walk_closed w') = mset (walk_closed w @ filter (\<lambda>d. \<not> dir_readable rd d) (forest rd opts ns q))"
proof (induction "length (forest rd opts ns q)" arbitrary: ns q w rule: less_induct)
  case less
  show ?case
  proof (cases q)
    case Nil
    then have "walk_queue rd opts root q w = Some (Ok (), w)" by (subst walk_queue.simps) simp
    then show ?thesis using less.prems(3) Nil by (simp add: forest_def)
  next
    case (Cons dk rest)
    obtain d k where dk: "dk = (d, k)" by (cases dk)
    obtain n ns' where ns: "ns = n # ns'" and h: "height_le rd opts n k d"
        and hs: "list_all2 (\<lambda>n (d, k). height_le rd opts n k d) ns' rest"
      using less.prems(1) Cons dk by (cases ns) auto
    have qd: "queued_ok rd root d" using less.prems(2) Cons dk by simp
    let ?ds = "subdirs rd opts d k"
    let ?q = "rest @ map (\<lambda>d. (d, Suc k)) ?ds" and ?ns = "ns' @ replicate (length ?ds) (n - 1)"
    obtain w1 where w1: "walk_queue rd opts root q w = walk_queue rd opts root ?q w1"
        "walk_images w1 = walk_images w @ dir_images rd d"
        "walk_closed w1 = walk_closed w @ filter (\<lambda>d. \<not> dir_readable rd d) [d]" "log_ok opts w1"
      using walk_round [OF qd, of opts k rest w] less.prems(3) Cons dk by metis
    have len: "length ns' = length rest" using hs by (rule list_all2_lengthD)
    have fo: "forest rd opts ?ns ?q = forest rd opts ns' rest @ concat (map (tree_dirs rd opts (n - 1) (Suc k)) ?ds)"
      by (rule forest_children [OF len])
    have tree: "tree_dirs rd opts n k d = d # concat (map (tree_dirs rd opts (n - 1) (Suc k)) ?ds)"
      using h by (cases n) auto
    have "list_all2 (\<lambda>n (d, k). height_le rd opts n k d) (replicate (length ?ds) (n - 1)) (map (\<lambda>d. (d, Suc k)) ?ds)"
      using h by (cases n) (auto simp: list_all2_conv_all_nth list_all_length)
    then have a: "list_all2 (\<lambda>n (d, k). height_le rd opts n k d) ?ns ?q" using hs by (intro list_all2_appendI)
    have b: "\<forall>(d, k) \<in> set ?q. queued_ok rd root d"
      using less.prems(2) Cons queued_ok_subdir [OF assms qd] by auto
    have "length (forest rd opts ?ns ?q) < length (forest rd opts ns q)"
      unfolding fo Cons dk ns forest_Cons tree by simp
    from less.hyps [OF this a b w1(4)] obtain w' where
      w': "walk_queue rd opts root ?q w1 = Some (Ok (), w')" "log_ok opts w'"
        "mset (walk_images w') = mset (walk_images w1 @ concat (map (dir_images rd) (forest rd opts ?ns ?q)))"
        "mset (walk_closed w') = mset (walk_closed w1 @ filter (\<lambda>d. \<not> dir_readable rd d) (forest rd opts ?ns ?q))" by blast
    have "forest rd opts ns q = d # concat (map (tree_dirs rd opts (n - 1) (Suc k)) ?ds) @ forest rd opts ns' rest"
      unfolding Cons dk ns forest_Cons tree by simp
    with w'(3,4) w1(2,3) fo have
        "mset (walk_images w') = mset (walk_images w @ concat (map (dir_images rd) (forest rd opts ns q)))"
        "mset (walk_closed w') = mset (walk_closed w @ filter (\<lambda>d. \<not> dir_readable rd d) (forest rd opts ns q))"
      by (simp_all add: ac_simps)
    with w'(1,2) w1(1) show ?thesis by metis
  qed
qed

lemma subdirs_not_recursive: "\<not> do_recursive opts \<Longrightarrow> subdirs rd opts d k = []"
  by (auto simp: subdirs_def entry_subdir_def Let_def concat_eq_Nil_conv split: sum.splits)

lemma subdirs_at_limit: "do_max_depth opts = Some l \<Longrightarrow> l \<le> k \<Longrightarrow> subdirs rd opts d k = []"
  by (auto simp: subdirs_def entry_subdir_def below_limit_def Let_def concat_eq_Nil_conv split: sum.splits)

lemma height_limit: "do_max_depth opts = Some l \<Longrightarrow> l \<le> n + k \<Longrightarrow> height_le rd opts n k d"
  by (induction n arbitrary: k d) (auto simp: subdirs_at_limit list_all_iff)

lemma walk_root:
  assumes "names_ok rd" "height_le rd opts n 0 root" "dir_readable rd root"
  shows "\<exists>w'. walk_queue rd opts root [(root, 0)] (default_discovery_report, []) = Some (Ok (), w') \<and> log_ok opts w' \<and>
      mset (walk_images w') = mset (concat (map (dir_images rd) (tree_dirs rd opts n 0 root))) \<and>
      mset (walk_closed w') = mset (filter (\<lambda>d. \<not> dir_readable rd d) (tree_dirs rd opts n 0 root))"
  using walk_forest [OF assms(1), of opts "[n]" "[(root, 0)]" root "(default_discovery_report, [])"] assms(2,3)
  by (simp add: queued_ok_def forest_def walk_images_def walk_closed_def log_ok_def default_discovery_report_def)

lemma mset_sort_paths [simp]: "mset (sort_paths xs) = mset xs"
  by (simp add: sort_paths_def)

lemma sorted_sort_paths [simp]: "sorted (map path_key (sort_paths xs))"
  by (simp add: sort_paths_def)

lemma discover_tree:
  assumes "names_ok rd" "height_le rd opts n 0 root" "dir_readable rd root" "validate_discovery_root h root = Ok ()"
  shows "\<exists>rep. discover h rd root opts = Some (Ok rep,
        if do_emit_warnings opts then map (\<lambda>m. ''Warning: '' @ m) (dp_warnings rep) else []) \<and>
      mset (dp_images rep) = mset (concat (map (dir_images rd) (tree_dirs rd opts n 0 root))) \<and>
      sorted (map path_key (dp_images rep)) \<and>
      mset (dp_inaccessible rep) = mset (filter (\<lambda>d. \<not> dir_readable rd d) (tree_dirs rd opts n 0 root)) \<and>
      sorted (map path_key (dp_inaccessible rep))"
proof -
  obtain rep err where w: "walk_queue rd opts root [(root, 0)] (default_discovery_report, []) = Some (Ok (), (rep, err))"
      "log_ok opts (rep, err)"
      "mset (walk_images (rep, err)) = mset (concat (map (dir_images rd) (tree_dirs rd opts n 0 root)))"
      "mset (walk_closed (rep, err)) = mset (filter (\<lambda>d. \<not> dir_readable rd d) (tree_dirs rd opts n 0 root))"
    using walk_root [OF assms(1-3)] by (metis surj_pair)
  then show ?thesis using assms(4)
    by (intro exI [of _ "sort_report rep"])
      (auto simp: discover_def sort_report_def log_ok_def walk_images_def walk_closed_def simp del: mset_concat)
qed

lemma discover_returns:
  assumes "names_ok rd" "height_le rd opts n 0 root"
  shows "discover h rd root opts \<noteq> None"
proof (cases "dir_readable rd root")
  case True
  then show ?thesis using walk_root [OF assms True] by (auto simp: discover_def split: res.splits)
next
  case False
  then obtain e where "rd root = Inl e" by (auto simp: dir_readable_def split: sum.splits)
  then have "walk_queue rd opts root [(root, 0)] (default_discovery_report, []) = Some (Err (Io e), (default_discovery_report, []))"
    by (subst walk_queue.simps) (simp add: same_path_def)
  then show ?thesis by (auto simp: discover_def split: res.splits)
qed

section \<open>Extent kinds of a parsed descriptor\<close>

lemma ascii_upper_idem [simp]: "ascii_upper (ascii_upper c) = ascii_upper c"
  by (auto simp: ascii_upper_def)

lemma to_ascii_uppercase_idem [simp]: "to_ascii_uppercase (to_ascii_uppercase s) = to_ascii_uppercase s"
  by (simp add: to_ascii_uppercase_def)

definition upper_kinds :: "descriptor \<Rightarrow> bool" where
  "upper_kinds d = list_all (\<lambda>e. to_ascii_uppercase (ed_kind e) = ed_kind e) (ds_extents d)"

lemma parse_line_kinds: "upper_kinds d \<Longrightarrow> upper_kinds (parse_descriptor_line l d)"
  by (auto simp: upper_kinds_def parse_descriptor_line_def parse_extent_line_def parse_key_line_def Let_def
      split: option.splits prod.splits if_splits)

lemma parse_lines_kinds: "upper_kinds d \<Longrightarrow> upper_kinds (fold parse_descriptor_line ls d)"
  by (induction ls arbitrary: d) (simp_all add: parse_line_kinds)

lemma parse_descriptor_kinds:
  "e \<in> set (ds_extents (parse_descriptor txt)) \<Longrightarrow> to_ascii_uppercase (ed_kind e) = ed_kind e"
  using parse_lines_kinds [of default_descriptor "lines txt"]
  by (simp add: parse_descriptor_def upper_kinds_def default_descriptor_def list_all_iff)

text \<open>Which extents \<open>open_extent_data\<close> sends to \<open>qemu-nbd\<close>.\<close>

lemma open_flat_or_zero:
  assumes "ed_kind e \<in> {''FLAT'', ''ZERO''}" "open_extent_data oc h p e = Ok (NeedsNbd m)"
  shows "ed_file e = None \<and> m = ''FLAT extent without a file''"
  using assms by (auto simp: open_extent_data_def res_simps split: option.splits)

lemma open_one_extent:
  assumes "open_extents oc h p start [e] = Ok (NeedsNbd m)"
  shows "open_extent_data oc h p e = Ok (NeedsNbd m)"
proof -
  obtain r where r: "open_extent_data oc h p e = Ok r"
    using assms unfolding open_extents.simps and_then_eq_Ok by blast
  then show ?thesis using assms by (cases r) (auto simp: and_then_eq_Ok)
qed

section \<open>Split extents\<close>

lemma rfind_char: "c \<notin> set r \<Longrightarrow> rfind (s @ c # r) [c] = Some (length s)"
proof (induction s)
  case Nil
  have "c \<notin> set r \<Longrightarrow> rfind r [c] = None" for r
    by (induction r) (auto simp: starts_with_def)
  then show ?case using Nil by (simp add: starts_with_def)
qed simp

lemma rfind_mark: "x \<notin> set r \<Longrightarrow> x \<noteq> y \<Longrightarrow> rfind (s @ x # y # r) [x, y] = Some (length s)"
proof (induction s)
  case Nil
  have "x \<notin> set r \<Longrightarrow> rfind r [x, y] = None" for r
    by (induction r) (auto simp: starts_with_def)
  then show ?case using Nil by (simp add: starts_with_def)
qed simp

lemma utf8_valid_ascii: "\<forall>b \<in> set s. b < 0x80 \<Longrightarrow> utf8_valid_codes s"
proof (induction s)
  case (Cons b s)
  then show ?case by (subst utf8_valid_codes.simps) (simp add: utf8_step_ascii)
qed (simp add: utf8_valid_codes.simps)

lemma lower_append: "to_ascii_lowercase (a @ b) = to_ascii_lowercase a @ to_ascii_lowercase b"
  by (simp add: to_ascii_lowercase_def)

lemma lower_digits: "list_all is_ascii_digit ds \<Longrightarrow> to_ascii_lowercase ds = ds"
  by (induction ds) (auto simp: to_ascii_lowercase_def ascii_lower_def is_ascii_digit_def)

lemma split_mark_digits:
  assumes "ds \<noteq> []" "list_all is_ascii_digit ds"
  shows "split_extent_mark (b @ ''-s'' @ ds) ''-s''"
proof -
  have "CHR ''-'' \<notin> set ds" using assms(2) by (auto simp: list_all_iff is_ascii_digit_def)
  then have "rfind (b @ ''-s'' @ ds) ''-s'' = Some (length b)" using rfind_mark [of "CHR ''-''" ds "CHR ''s''" b] by simp
  moreover have "takeWhile is_ascii_digit ds \<noteq> []" using assms by (cases ds) simp_all
  ultimately show ?thesis using assms(1) by (simp add: split_extent_mark_def)
qed

lemma stem_of_vmdk:
  assumes "valid_name (b @ ''.vmdk'')" "b \<noteq> []"
  shows "file_stem (join_path d (b @ ''.vmdk'')) = Some b"
proof -
  have "rfind (b @ ''.vmdk'') ''.'' = Some (length b)" using rfind_char [of "CHR ''.''" "''vmdk''" b] by simp
  then show ?thesis using assms by (cases "length b") (simp_all add: file_stem_def file_name_join rsplit_dot_def)
qed

section \<open>Sample hosts\<close>

text \<open>A directory with one image, one split extent, a subdirectory that holds another image and one
  that cannot be read.\<close>

definition sample_file :: "string \<Rightarrow> nat \<Rightarrow> io_error + dir_entry" where
  "sample_file n k = Inr \<lparr>en_name = n, en_type = Inr FtFile,
     en_meta = Inr \<lparr>md_is_file = True, md_is_dir = False, md_len = k\<rparr>\<rparr>"

definition sample_dir :: "string \<Rightarrow> io_error + dir_entry" where
  "sample_dir n = Inr \<lparr>en_name = n, en_type = Inr FtDir,
     en_meta = Inr \<lparr>md_is_file = False, md_is_dir = True, md_len = 0\<rparr>\<rparr>"

definition sample_tree :: dir_reader where
  "sample_tree p =
     (if p = ''/v'' then Inr [sample_file ''z.raw'' 9, sample_dir ''sub'', sample_dir ''x'', sample_file ''d-s001.vmdk'' 9]
      else if p = ''/v/sub'' then Inr [sample_file ''a.vmdk'' 5, sample_file ''empty.img'' 0]
      else Inl (IoError PermissionDenied ''denied''))"

definition sample_dirs_host :: host where
  "sample_dirs_host = \<lparr>h_open = (\<lambda>p. Inl (IoError NotFound ''none'')),
     h_meta = (\<lambda>p. Inr \<lparr>md_is_file = False, md_is_dir = True, md_len = 0\<rparr>), h_canon = (\<lambda>p. Inr p)\<rparr>"

definition deep_options :: discovery_options where
  "deep_options = default_discovery_options\<lparr>do_recursive := True\<rparr>"

lemma sample_names_ok: "names_ok sample_tree"
  by (auto simp: names_ok_def sample_tree_def sample_file_def sample_dir_def valid_name_def split: if_splits)

lemma sample_height: "height_le sample_tree deep_options 1 0 ''/v''"
  by code_simp

lemma sample_images:
  "concat (map (dir_images sample_tree) (tree_dirs sample_tree deep_options 1 0 ''/v'')) = [''/v/z.raw'', ''/v/sub/a.vmdk'']"
  by code_simp

text \<open>A host whose every file is a text descriptor.\<close>

definition text_host :: "string \<Rightarrow> host" where
  "text_host body = \<lparr>h_open = (\<lambda>p. Inr (fresh_file (ascii_bytes body))),
     h_meta = (\<lambda>p. Inr \<lparr>md_is_file = True, md_is_dir = False, md_len = length body\<rparr>), h_canon = (\<lambda>p. Inr p)\<rparr>"

lemma text_host_file: "open_read_file (text_host b) p = Ok (fresh_file (ascii_bytes b))"
  by (simp add: open_read_file_def text_host_def)

lemma text_host_head: "\<exists>f. file_read n (fresh_file d) = (Ok (take n d), f)"
  by (simp add: file_read_def fresh_file_def)

lemma text_host_read:
  assumes "list_all (\<lambda>c. code c < 0x80) b"
  shows "read_to_string (text_host b) p = Ok b"
proof -
  obtain f' where "read_to_end (fresh_file (ascii_bytes b)) = (Ok (ascii_bytes b), f')"
    using read_to_end_healthy [of "fresh_file (ascii_bytes b)"] by (auto simp: fresh_file_def healthy_def)
  moreover have "unat (of_nat (code c) :: byte) = code c" if "c \<in> set b" for c
    using assms that by (auto simp: list_all_iff unat_of_nat)
  then have "map unat (ascii_bytes b) = map code b" "str_of_bytes (ascii_bytes b) = b"
    by (simp_all add: ascii_bytes_def str_of_bytes_def map_idI)
  moreover have "utf8_valid_codes (map code b)" using assms by (auto simp: list_all_iff intro!: utf8_valid_ascii)
  ultimately show ?thesis by (simp add: read_to_string_def text_host_file)
qed

definition two_zero_extents :: string where
  "two_zero_extents = ''# Disk DescriptorFile'' @ [newline] @ ''RW 1 ZERO'' @ [newline] @ ''RW 2 ZERO'' @ [newline]"

abbreviation zero_extent :: "nat \<Rightarrow> extent_descriptor" where
  "zero_extent n \<equiv> \<lparr>ed_access = ''RW'', ed_sectors = n, ed_kind = ''ZERO'', ed_file = None, ed_offset_sectors = 0\<rparr>"

lemma two_zero_parse:
  "parse_descriptor two_zero_extents = default_descriptor\<lparr>ds_extents := [zero_extent 1, zero_extent 2]\<rparr>"
  by code_simp

lemma two_zero_kind:
  "is_sparse_header (take 512 (ascii_bytes two_zero_extents)) = False"
  "is_text_descriptor (take 512 (ascii_bytes two_zero_extents)) = True"
  by code_simp+

lemma two_zero_read: "read_to_string (text_host two_zero_extents) p = Ok two_zero_extents"
  by (rule text_host_read) (simp add: two_zero_extents_def newline_def)

lemma two_zero_probe: "requires_nbd oc (text_host two_zero_extents) ''/a.vmdk'' = Ok True"
proof -
  obtain f where f: "file_read 512 (fresh_file (ascii_bytes two_zero_extents)) = (Ok (take 512 (ascii_bytes two_zero_extents)), f)"
    using text_host_head by blast
  have "image_extension ''/a.vmdk'' = ''vmdk''" by code_simp
  moreover have "path_exists (text_host two_zero_extents) ''/a.vmdk''"
    by (simp add: path_exists_def host_metadata_def text_host_def is_ok_def)
  moreover have "text_requires_nbd (parse_descriptor two_zero_extents)"
    unfolding two_zero_parse by (simp add: text_requires_nbd_def)
  ultimately show ?thesis
    by (simp add: requires_nbd_def vmdk_requires_nbd_def text_host_file f two_zero_kind two_zero_read Let_def)
qed

lemma two_zero_valid: "validate_vmdk_components oc (text_host two_zero_extents) p = Ok ()"
proof -
  obtain f where f: "file_read 512 (fresh_file (ascii_bytes two_zero_extents)) = (Ok (take 512 (ascii_bytes two_zero_extents)), f)"
    using text_host_head by blast
  show ?thesis unfolding validate_vmdk_components_def
    by (subst validate_vmdk_components_inner.simps)
      (simp add: open_for_validation_def open_main_image_file_def text_host_file f file_descriptor_def two_zero_kind
        two_zero_read two_zero_parse validate_descriptor_components_def validate_parent_reference_def parent_name_def
        validate_extent_paths_def default_descriptor_def Let_def)
qed

lemma two_zero_opens:
  "open_vmdk_native oc (text_host two_zero_extents) p =
    Ok (Native (Extents [\<lparr>oe_start = 0, oe_length = 512, oe_data = ZeroData\<rparr>,
      \<lparr>oe_start = 512, oe_length = 1024, oe_data = ZeroData\<rparr>], ''vmdk '' @ dec_str 2 @ '' extents''))"
proof -
  obtain f where f: "file_read 512 (fresh_file (ascii_bytes two_zero_extents)) = (Ok (take 512 (ascii_bytes two_zero_extents)), f)"
    using text_host_head by blast
  have "open_extents oc h p 0 [zero_extent 1, zero_extent 2] = Ok (Native
      [\<lparr>oe_start = 0, oe_length = 512, oe_data = ZeroData\<rparr>, \<lparr>oe_start = 512, oe_length = 1024, oe_data = ZeroData\<rparr>])" for h
    by (simp add: open_extent_data_def)
  then show ?thesis
    by (simp add: open_vmdk_native_def two_zero_valid open_main_image_file_def text_host_file f two_zero_kind
        open_descriptor_image_def two_zero_read two_zero_parse default_descriptor_def has_parent_def numeral_2_eq_2
        del: open_extents.simps)
qed

section \<open>Properties\<close>

text \<open>C9. Discovery below a readable directory whose tree has finite height returns and lists exactly
  the images of the directories of that tree, each once and in path order, together with the
  directories that could not be opened; the slot is free again, and stderr has the warnings of the
  report or nothing.\<close>

theorem discovery_lists_the_tree:
  assumes "names_ok rd" and "height_le rd opts n 0 root" and "dir_readable rd root"
    and "validate_discovery_root h root = Ok ()"
  shows "\<exists>rep err. list_vms_with_options h rd root opts False = Some ((Ok rep, err), False) \<and>
      mset (dp_images rep) = mset (concat (map (dir_images rd) (tree_dirs rd opts n 0 root))) \<and>
      sorted (map path_key (dp_images rep)) \<and>
      mset (dp_inaccessible rep) = mset (filter (\<lambda>d. \<not> dir_readable rd d) (tree_dirs rd opts n 0 root)) \<and>
      err = (if do_emit_warnings opts then map (\<lambda>m. ''Warning: '' @ m) (dp_warnings rep) else [])"
  using discover_tree [OF assms] by (auto simp: list_vms_with_options_def simp del: mset_concat)

theorem discovery_lists_the_tree_witness:
  "\<exists>rep err. list_vms_with_options sample_dirs_host sample_tree ''/v'' deep_options False = Some ((Ok rep, err), False) \<and>
    mset (dp_images rep) = mset [''/v/z.raw'', ''/v/sub/a.vmdk'']"
proof -
  have "dir_readable sample_tree ''/v''" by code_simp
  moreover have "validate_discovery_root sample_dirs_host ''/v'' = Ok ()" by code_simp
  ultimately show ?thesis
    using discovery_lists_the_tree [OF sample_names_ok sample_height] unfolding sample_images by blast
qed

text \<open>With a depth limit, or without recursion, discovery returns on every host, whatever its
  directories hold and however deep they nest, and whoever holds the slot.\<close>

theorem discovery_returns:
  assumes "names_ok rd" and "\<not> do_recursive opts \<or> do_max_depth opts \<noteq> None"
  shows "\<exists>r. list_vms_with_options h rd root opts active = Some r"
proof -
  have "\<exists>n. height_le rd opts n 0 root"
    using assms(2) height_limit [of opts _ _ 0 rd root] subdirs_not_recursive [of opts rd root 0]
    by (metis add.right_neutral height_le.simps(1) not_None_eq order_refl)
  then have "discover h rd root opts \<noteq> None" using discover_returns [OF assms(1)] by blast
  then show ?thesis by (cases active) (auto simp: list_vms_with_options_def)
qed

theorem discovery_returns_witness:
  "\<exists>r. list_vms_with_options sample_dirs_host sample_tree ''/v'' (deep_options\<lparr>do_max_depth := Some 0\<rparr>) False = Some r"
  by (rule discovery_returns [OF sample_names_ok]) simp

text \<open>A numbered split extent is never offered as an image of its own, in whatever directory it
  lies and whatever the case of its base name.\<close>

theorem split_extents_hidden:
  assumes "valid_name base" and "list_all (\<lambda>c. code c < 0x80) base" and "ds \<noteq> []" and "list_all is_ascii_digit ds"
  shows "\<not> is_vm_image_candidate (join_path d (base @ ''-s'' @ ds @ ''.vmdk''))"
proof -
  let ?stem = "base @ ''-s'' @ ds"
  have nosl: "CHR ''/'' \<notin> set ds" using assms(4) by (auto simp: list_all_iff is_ascii_digit_def)
  then have v: "valid_name (?stem @ ''.vmdk'')" using assms(1) by (auto simp: valid_name_def)
  have asc: "\<forall>c \<in> set (?stem @ ''.vmdk''). code c < 0x80"
    using assms(2,4) by (auto simp: list_all_iff is_ascii_digit_def)
  have u: "utf8_valid_codes (map code (?stem @ ''.vmdk''))" "utf8_valid_codes (map code ?stem)"
    using asc by (auto intro!: utf8_valid_ascii)
  have "split_extent_mark (to_ascii_lowercase ?stem) ''-s''"
    unfolding lower_append lower_digits [OF assms(4)]
    using split_mark_digits [OF assms(3,4), of "to_ascii_lowercase base"]
    by (simp add: to_ascii_lowercase_def ascii_lower_def)
  moreover have "ends_with (to_ascii_lowercase (?stem @ ''.vmdk'')) ''.vmdk''"
  proof -
    have "to_ascii_lowercase ''.vmdk'' = ''.vmdk''" by code_simp
    then show ?thesis unfolding lower_append [of ?stem "''.vmdk''"] by (simp only: ends_with_append)
  qed
  moreover have "Option.bind (file_stem (join_path d (?stem @ ''.vmdk''))) to_str = Some ?stem"
    using stem_of_vmdk [OF v] u(2) by (simp add: to_str_def)
  moreover have "Option.bind (file_name (join_path d (?stem @ ''.vmdk''))) to_str = Some (?stem @ ''.vmdk'')"
    using file_name_join [OF v] u(1) by (simp add: to_str_def)
  ultimately have "is_secondary_extent (join_path d (?stem @ ''.vmdk''))"
    unfolding is_secondary_extent_def by (simp only: option.case Let_def if_True list.pred_inject list_ex_iff) simp
  then show ?thesis by (simp add: is_vm_image_candidate_def split: option.splits)
qed

theorem split_extents_hidden_witness:
  "\<not> is_vm_image_candidate (join_path ''/v'' (''Disk'' @ ''-s'' @ ''001'' @ ''.vmdk''))"
  by (rule split_extents_hidden) (simp_all add: valid_name_def is_ascii_digit_def)

text \<open>What the pre-flight check calls native is opened natively: a text descriptor that
  \<open>requires_nbd\<close> accepts is handed to \<open>qemu-nbd\<close> by the reader only when its FLAT extent
  names no file.\<close>

theorem preflight_descriptor_native:
  assumes "read_to_string h p = Ok body" and "\<not> text_requires_nbd (parse_descriptor body)"
    and "open_descriptor_image oc h p = Ok (NeedsNbd m)"
  shows "m = ''FLAT extent without a file'' \<and> (\<exists>e. ds_extents (parse_descriptor body) = [e] \<and> ed_file e = None)"
proof -
  obtain e where e: "ds_extents (parse_descriptor body) = [e]"
      and k: "to_ascii_uppercase (ed_kind e) \<in> {''FLAT'', ''ZERO''}" and np: "\<not> has_parent (parse_descriptor body)"
    using assms(2) by (cases "ds_extents (parse_descriptor body)") (auto simp: text_requires_nbd_def Let_def split: if_splits)
  have "ed_kind e \<in> {''FLAT'', ''ZERO''}" using k parse_descriptor_kinds [of e body] e by simp
  moreover have "open_extents oc h p 0 [e] = Ok (NeedsNbd m)"
    using assms(1,3) e np
    by (cases "open_extents oc h p 0 [e]") (auto simp: open_descriptor_image_def Let_def split: open_result.splits)
  then have "open_extent_data oc h p e = Ok (NeedsNbd m)" by (rule open_one_extent)
  ultimately show ?thesis using open_flat_or_zero e by blast
qed

theorem preflight_descriptor_native_witness:
  "\<exists>e. ds_extents (parse_descriptor ''RW 8 FLAT'') = [e] \<and> ed_file e = None"
proof -
  have d: "parse_descriptor ''RW 8 FLAT'' = default_descriptor\<lparr>ds_extents := [\<lparr>ed_access = ''RW'', ed_sectors = 8,
      ed_kind = ''FLAT'', ed_file = None, ed_offset_sectors = 0\<rparr>]\<rparr>" by code_simp
  have r: "read_to_string (text_host ''RW 8 FLAT'') ''/a.vmdk'' = Ok ''RW 8 FLAT''" by (rule text_host_read) simp
  moreover have "\<not> text_requires_nbd (parse_descriptor ''RW 8 FLAT'')" by code_simp
  moreover have "open_descriptor_image True (text_host ''RW 8 FLAT'') ''/a.vmdk'' = Ok (NeedsNbd ''FLAT extent without a file'')"
    by (simp add: open_descriptor_image_def r d default_descriptor_def has_parent_def open_extent_data_def)
  ultimately show ?thesis using preflight_descriptor_native by blast
qed

text \<open>The converse fails: the pre-flight check asks for \<open>qemu-nbd\<close> for a descriptor with two
  extents, and the reader opens the same image natively.\<close>

theorem preflight_overestimates:
  "requires_nbd oc (text_host two_zero_extents) ''/a.vmdk'' = Ok True \<and>
    (case open_vmdk_native oc (text_host two_zero_extents) ''/a.vmdk'' of
       Ok (Native (Extents es, _)) \<Rightarrow> map oe_length es = [512, 1024] | _ \<Rightarrow> False)"
  using two_zero_probe two_zero_opens by simp

end
