(* ===== verification/Worker_Pool.thy ===== *)
theory Worker_Pool
  imports Options Operation "HOL-Library.Multiset"
begin

text \<open>
  The worker pools of \<open>src/engine/mod.rs\<close>: \<open>ConcurrentProcessor::process_in_parallel\<close>
  and \<open>InspectionEngine::inspect_batch\<close>.

  Both start at most 32 threads that run the same loop over a shared queue: look at the
  cancellation flag, pop a task, look at the flag again, run the task, record the outcome, bump the
  task counter.  \<open>pool_step\<close> interleaves these atomic accesses, one worker at a time, with a
  caller that may set the flag at any moment.  \<open>work x r\<close> says that running the task on
  \<open>x\<close> can return \<open>r\<close>; a panic ends the worker thread, and \<open>join\<close> discards it.
  \<open>settle\<close> is what the loop does with a returned value, which is where the two pools differ.
  \<open>pl_lost\<close> records the tasks that were popped and dropped; the program has no such list.
\<close>

section \<open>The worker loop\<close>

datatype 'o settled = Keep 'o | Quit "vm_error option"

datatype ('a, 'o) phase =
    Idle
  | Ready
  | Taken nat 'a
  | Running nat 'a
  | Finished nat 'a 'o
  | Pushed
  | Bumped nat
  | Stopped

record ('a, 'o) pool =
  pl_queue :: "(nat \<times> 'a) list"
  pl_workers :: "('a, 'o) phase list"
  pl_outcomes :: "(nat \<times> 'a \<times> 'o) list"
  pl_error :: "vm_error option"
  pl_cancel :: bool
  pl_progress :: progress
  pl_lost :: "(nat \<times> 'a) list"

definition num_workers :: "nat \<Rightarrow> nat \<Rightarrow> nat" where
  "num_workers max_workers all = min (min (max max_workers 1) all) 32"

definition start_pool :: "nat \<Rightarrow> 'a list \<Rightarrow> bool \<Rightarrow> progress \<Rightarrow> ('a, 'o) pool" where
  "start_pool k items c p = \<lparr>pl_queue = enumerate 0 items, pl_workers = replicate k Idle, pl_outcomes = [],
     pl_error = None, pl_cancel = c, pl_progress = p, pl_lost = []\<rparr>"

abbreviation goto :: "('a, 'o) pool \<Rightarrow> nat \<Rightarrow> ('a, 'o) phase \<Rightarrow> ('a, 'o) pool" where
  "goto s w ph \<equiv> s\<lparr>pl_workers := (pl_workers s)[w := ph]\<rparr>"

definition at_phase :: "('a, 'o) pool \<Rightarrow> nat \<Rightarrow> ('a, 'o) phase \<Rightarrow> bool" where
  "at_phase s w ph \<longleftrightarrow> w < length (pl_workers s) \<and> pl_workers s ! w = ph"

inductive pool_step ::
    "('a \<Rightarrow> (vm_error, 'v) res \<Rightarrow> bool) \<Rightarrow> ((vm_error, 'v) res \<Rightarrow> 'o settled) \<Rightarrow> ('a, 'o) pool \<Rightarrow> ('a, 'o) pool \<Rightarrow> bool"
  for work settle where
  stop_first: "at_phase s w Idle \<Longrightarrow> pl_cancel s \<Longrightarrow> pool_step work settle s (goto s w Stopped)"
| pass_first: "at_phase s w Idle \<Longrightarrow> \<not> pl_cancel s \<Longrightarrow> pool_step work settle s (goto s w Ready)"
| drained: "at_phase s w Ready \<Longrightarrow> pl_queue s = [] \<Longrightarrow> pool_step work settle s (goto s w Stopped)"
| pop: "at_phase s w Ready \<Longrightarrow> pl_queue s = (i, x) # q \<Longrightarrow>
    pool_step work settle s (goto (s\<lparr>pl_queue := q\<rparr>) w (Taken i x))"
| stop_second: "at_phase s w (Taken i x) \<Longrightarrow> pl_cancel s \<Longrightarrow>
    pool_step work settle s (goto (s\<lparr>pl_lost := (i, x) # pl_lost s\<rparr>) w Stopped)"
| pass_second: "at_phase s w (Taken i x) \<Longrightarrow> \<not> pl_cancel s \<Longrightarrow> pool_step work settle s (goto s w (Running i x))"
| run_keep: "at_phase s w (Running i x) \<Longrightarrow> work x r \<Longrightarrow> settle r = Keep v \<Longrightarrow>
    pool_step work settle s (goto s w (Finished i x v))"
| run_quit: "at_phase s w (Running i x) \<Longrightarrow> work x r \<Longrightarrow> settle r = Quit e \<Longrightarrow>
    pool_step work settle s (goto (s\<lparr>pl_lost := (i, x) # pl_lost s,
      pl_error := (if pl_error s = None then e else pl_error s)\<rparr>) w Stopped)"
| push: "at_phase s w (Finished i x v) \<Longrightarrow>
    pool_step work settle s (goto (s\<lparr>pl_outcomes := pl_outcomes s @ [(i, x, v)]\<rparr>) w Pushed)"
| bump: "at_phase s w Pushed \<Longrightarrow> bump_completed (pl_progress s) = (c, p) \<Longrightarrow>
    pool_step work settle s (goto (s\<lparr>pl_progress := p\<rparr>) w (Bumped c))"
| store: "at_phase s w (Bumped c) \<Longrightarrow>
    pool_step work settle s (goto (s\<lparr>pl_progress := store_percentage c (pl_progress s)\<rparr>) w Idle)"
| cancel: "\<not> pl_cancel s \<Longrightarrow> pool_step work settle s (s\<lparr>pl_cancel := True\<rparr>)"

inductive_cases pool_stepE: "pool_step work settle s s'"

abbreviation pool_reach where
  "pool_reach work settle \<equiv> (pool_step work settle)\<^sup>*\<^sup>*"

text \<open>Every handle joined.\<close>

definition all_stopped :: "('a, 'o) pool \<Rightarrow> bool" where
  "all_stopped s = list_all (\<lambda>ph. ph = Stopped) (pl_workers s)"

definition sorted_outcomes :: "('a, 'o) pool \<Rightarrow> (nat \<times> 'a \<times> 'o) list" where
  "sorted_outcomes s = sort_key fst (pl_outcomes s)"

section \<open>process\_in\_parallel\<close>

fun settle_parallel :: "(vm_error, 'v) res \<Rightarrow> 'v settled" where
  "settle_parallel (Ok v) = Keep v"
| "settle_parallel (Err e) = Quit (if e = Cancelled then None else Some e)"
| "settle_parallel Panic = Quit None"

text \<open>What is returned once the workers have been joined.\<close>

definition parallel_result :: "('a, 'v) pool \<Rightarrow> (vm_error, 'v list) res" where
  "parallel_result s = (if \<not> pl_cancel s \<and> pl_error s \<noteq> None then Err (the (pl_error s))
     else Ok (map (\<lambda>(i, x, v). v) (sorted_outcomes s)))"

text \<open>A run: \<open>k\<close> is the number of threads the operating system could start; threads that
  could not be started are left out without a word.\<close>

inductive process_in_parallel ::
    "('a \<Rightarrow> (vm_error, 'v) res \<Rightarrow> bool) \<Rightarrow> 'a list \<Rightarrow> bool \<Rightarrow> progress \<Rightarrow> nat \<Rightarrow> nat \<Rightarrow> (vm_error, 'v list) res \<Rightarrow> progress \<Rightarrow> bool \<Rightarrow> bool"
  for work items c p max_workers k where
  no_items: "items = [] \<Longrightarrow> process_in_parallel work items c p max_workers k (Ok []) p c"
| cancelled_early: "items \<noteq> [] \<Longrightarrow> c \<Longrightarrow> process_in_parallel work items c p max_workers k (Ok []) p c"
| joined: "items \<noteq> [] \<Longrightarrow> \<not> c \<Longrightarrow> k \<le> num_workers max_workers (length items) \<Longrightarrow>
    pool_reach work settle_parallel (start_pool k items c (set_total_tasks (length items) p)) s \<Longrightarrow> all_stopped s \<Longrightarrow>
    process_in_parallel work items c p max_workers k (parallel_result s) (pl_progress s) (pl_cancel s)"

section \<open>inspect\_batch\<close>

fun settle_batch :: "(vm_error, report) res \<Rightarrow> (vm_error + report) settled" where
  "settle_batch (Ok v) = Keep (Inr v)"
| "settle_batch (Err e) = Keep (Inl e)"
| "settle_batch Panic = Quit None"

definition batch_of :: "(nat \<times> path \<times> (vm_error + report)) list \<Rightarrow> batch_result" where
  "batch_of xs = \<lparr>br_reports = concat (map (\<lambda>(i, p, v). case v of Inr r \<Rightarrow> [r] | Inl _ \<Rightarrow> []) xs),
     br_errors = concat (map (\<lambda>(i, p, v). case v of Inl e \<Rightarrow> [ImageError p e] | Inr _ \<Rightarrow> []) xs)\<rparr>"

text \<open>\<open>spawn\<close> is \<open>None\<close> when every thread starts, and otherwise how many started before
  the operating system refused one, and its error.\<close>

inductive inspect_batch ::
    "(path \<Rightarrow> (vm_error, report) res \<Rightarrow> bool) \<Rightarrow> path list \<Rightarrow> nat \<Rightarrow> (nat \<times> io_error) option \<Rightarrow> bool \<Rightarrow> bool \<Rightarrow> progress
      \<Rightarrow> (vm_error, batch_result) res \<Rightarrow> progress \<Rightarrow> bool \<Rightarrow> bool \<Rightarrow> bool"
  for work paths max_workers spawn active c p where
  busy: "acquire_active_operation active = (Err e, a) \<Longrightarrow>
    inspect_batch work paths max_workers spawn active c p (Err e) p c a"
| no_paths: "acquire_active_operation active = (Ok (), a) \<Longrightarrow> paths = [] \<Longrightarrow>
    inspect_batch work paths max_workers spawn active c p (Ok (batch_of [])) (reset_for_batch 0 p) c (drop_guard a)"
| refused: "acquire_active_operation active = (Ok (), a) \<Longrightarrow> paths \<noteq> [] \<Longrightarrow>
    spawn = Some (k, e) \<Longrightarrow> k < num_workers max_workers (length paths) \<Longrightarrow>
    pool_reach work settle_batch (start_pool k paths c (reset_for_batch (length paths) p)) s \<Longrightarrow> all_stopped s \<Longrightarrow>
    inspect_batch work paths max_workers spawn active c p (Err (Io e)) (pl_progress s) (pl_cancel s) (drop_guard a)"
| joined: "acquire_active_operation active = (Ok (), a) \<Longrightarrow> paths \<noteq> [] \<Longrightarrow> spawn = None \<Longrightarrow>
    pool_reach work settle_batch
      (start_pool (num_workers max_workers (length paths)) paths c (reset_for_batch (length paths) p)) s \<Longrightarrow> all_stopped s \<Longrightarrow>
    inspect_batch work paths max_workers spawn active c p (Ok (batch_of (sorted_outcomes s))) (pl_progress s) (pl_cancel s) (drop_guard a)"

inductive_cases process_in_parallelE: "process_in_parallel work items c p mw k r p' c'"
inductive_cases inspect_batchE: "inspect_batch work paths mw spawn active c p r p' c' a'"

section \<open>Every task is in one place\<close>

lemma sum_list_swap:
  "w < length xs \<Longrightarrow> sum_list (map f (xs[w := y])) + f (xs ! w) = sum_list (map f xs) + (f y :: 'b :: comm_monoid_add)"
proof (induction xs arbitrary: w)
  case (Cons x xs)
  then show ?case by (cases w) (simp_all add: ac_simps)
qed simp

definition held :: "('a, 'o) phase \<Rightarrow> (nat \<times> 'a) list" where
  "held ph = (case ph of Taken i x \<Rightarrow> [(i, x)] | Running i x \<Rightarrow> [(i, x)] | Finished i x v \<Rightarrow> [(i, x)] | _ \<Rightarrow> [])"

definition tasks :: "('a, 'o) pool \<Rightarrow> (nat \<times> 'a) multiset" where
  "tasks s = mset (pl_queue s) + sum_list (map (\<lambda>ph. mset (held ph)) (pl_workers s))
     + mset (map (\<lambda>(i, x, v). (i, x)) (pl_outcomes s)) + mset (pl_lost s)"

lemma held_simps [simp]:
  "held Idle = []" "held Ready = []" "held (Taken i x) = [(i, x)]" "held (Running i x) = [(i, x)]"
  "held (Finished i x v) = [(i, x)]" "held Pushed = []" "held (Bumped c) = []" "held Stopped = []"
  by (simp_all add: held_def)

lemma tasks_goto:
  assumes "at_phase s w ph"
  shows "tasks (goto s w ph') + mset (held ph) = tasks s + mset (held ph')"
  using sum_list_swap [of w "pl_workers s" "\<lambda>ph. mset (held ph)" ph'] assms
  by (simp add: tasks_def at_phase_def ac_simps)

lemma tasks_same: "at_phase s w ph \<Longrightarrow> held ph = held ph' \<Longrightarrow> tasks (goto s w ph') = tasks s"
  using tasks_goto [of s w ph ph'] by simp

lemma tasks_step:
  assumes "pool_step work settle s s'"
  shows "tasks s' = tasks s"
  using assms
proof (cases rule: pool_step.cases)
  case (pop w i x q)
  then have "at_phase (s\<lparr>pl_queue := q\<rparr>) w Ready" by (simp add: at_phase_def)
  from tasks_goto [OF this, of "Taken i x"] show ?thesis using pop by (simp add: tasks_def)
next
  case (stop_second w i x)
  then have "at_phase (s\<lparr>pl_lost := (i, x) # pl_lost s\<rparr>) w (Taken i x)" by (simp add: at_phase_def)
  from tasks_goto [OF this, of Stopped] show ?thesis using stop_second by (simp add: tasks_def)
next
  case (run_quit w i x r e)
  let ?s = "s\<lparr>pl_lost := (i, x) # pl_lost s, pl_error := (if pl_error s = None then e else pl_error s)\<rparr>"
  from run_quit have "at_phase ?s w (Running i x)" by (simp add: at_phase_def)
  from tasks_goto [OF this, of Stopped] show ?thesis using run_quit by (simp add: tasks_def)
next
  case (push w i x v)
  then have "at_phase (s\<lparr>pl_outcomes := pl_outcomes s @ [(i, x, v)]\<rparr>) w (Finished i x v)" by (simp add: at_phase_def)
  from tasks_goto [OF this, of Pushed] show ?thesis using push by (simp add: tasks_def)
next
  case (bump w c p)
  then have "at_phase (s\<lparr>pl_progress := p\<rparr>) w Pushed" by (simp add: at_phase_def)
  from tasks_goto [OF this, of "Bumped c"] show ?thesis using bump by (simp add: tasks_def)
next
  case (store w c)
  then have "at_phase (s\<lparr>pl_progress := store_percentage c (pl_progress s)\<rparr>) w (Bumped c)" by (simp add: at_phase_def)
  from tasks_goto [OF this, of Idle] show ?thesis using store by (simp add: tasks_def)
next
  case cancel
  then show ?thesis by (simp add: tasks_def)
qed (auto intro: tasks_same)

lemma tasks_reach: "pool_reach work settle s s' \<Longrightarrow> tasks s' = tasks s"
  by (induction rule: rtranclp_induct) (simp_all add: tasks_step)

lemma tasks_start [simp]: "tasks (start_pool k items c p) = mset (enumerate 0 items)"
  by (induction k) (simp_all add: tasks_def start_pool_def)

section \<open>Counting\<close>

definition owed :: "('a, 'o) phase \<Rightarrow> nat" where
  "owed ph = (if ph = Pushed then 1 else 0)"

text \<open>The task counter lags behind the outcomes by the workers between the push and the bump.\<close>

definition counted :: "nat \<Rightarrow> ('a, 'o) pool \<Rightarrow> bool" where
  "counted n s \<longleftrightarrow> pr_completed_tasks (pl_progress s) + sum_list (map owed (pl_workers s)) = length (pl_outcomes s)
     \<and> pr_total_tasks (pl_progress s) = n"

lemma outcomes_bounded: "tasks s = mset (enumerate 0 items) \<Longrightarrow> length (pl_outcomes s) \<le> length items"
proof -
  assume "tasks s = mset (enumerate 0 items)"
  then have "size (tasks s) = length items" by simp
  then show ?thesis by (simp add: tasks_def)
qed

lemma owed_goto:
  "at_phase s w ph \<Longrightarrow>
    sum_list (map owed ((pl_workers s)[w := ph'])) + owed ph = sum_list (map owed (pl_workers s)) + owed ph'"
  using sum_list_swap [of w "pl_workers s" owed ph'] by (simp add: at_phase_def)

lemma counted_step:
  assumes "pool_step work settle s s'" "counted n s" "length (pl_outcomes s) < 2 ^ 64"
  shows "counted n s'"
  using assms(1)
proof (cases rule: pool_step.cases)
  case (bump w c p)
  have "Pushed \<in> set (pl_workers s)" using bump(2) nth_mem [of w "pl_workers s"] by (simp add: at_phase_def)
  then have "owed (Pushed :: ('a, 'c) phase) \<le> sum_list (map owed (pl_workers s))"
    by (intro member_le_sum_list) (simp_all add: image_eqI)
  then have "pr_completed_tasks (pl_progress s) + 1 < 2 ^ 64"
    using assms(2,3) by (simp add: counted_def owed_def)
  then show ?thesis using bump assms(2) owed_goto [OF bump(2), of "Bumped c"]
    by (auto simp: counted_def owed_def bump_completed_def)
next
  case (store w c)
  then show ?thesis using assms(2) owed_goto [OF store(2), of Idle]
    by (auto simp: counted_def owed_def store_percentage_def)
next
  case (push w i x v)
  then show ?thesis using assms(2) owed_goto [OF push(2), of Pushed] by (auto simp: counted_def owed_def)
qed (use assms(2) owed_goto [of s] in \<open>force simp: counted_def owed_def\<close>)+

section \<open>Termination\<close>

fun rank :: "('a, 'o) phase \<Rightarrow> nat" where
  "rank Stopped = 0"
| "rank Ready = 1"
| "rank Idle = 2"
| "rank (Bumped c) = 3"
| "rank Pushed = 4"
| "rank (Finished i x v) = 5"
| "rank (Running i x) = 6"
| "rank (Taken i x) = 7"

definition remaining :: "('a, 'o) pool \<Rightarrow> nat" where
  "remaining s = 8 * length (pl_queue s) + sum_list (map rank (pl_workers s)) + (if pl_cancel s then 0 else 1)"

lemma rank_goto:
  "at_phase s w ph \<Longrightarrow> sum_list (map rank ((pl_workers s)[w := ph'])) + rank ph = sum_list (map rank (pl_workers s)) + rank ph'"
  using sum_list_swap [of w "pl_workers s" rank ph'] by (simp add: at_phase_def)

lemma rank_drop:
  "at_phase s w ph \<Longrightarrow> rank ph' < rank ph \<Longrightarrow> sum_list (map rank ((pl_workers s)[w := ph'])) < sum_list (map rank (pl_workers s))"
  using rank_goto [of s w ph ph'] by simp

lemma remaining_decreases:
  assumes "pool_step work settle s s'"
  shows "remaining s' < remaining s"
  using assms
proof (cases rule: pool_step.cases)
  case (pop w i x q)
  then show ?thesis using rank_goto [of s w Ready "Taken i x"] by (simp add: remaining_def)
qed (auto simp: remaining_def intro: rank_drop)

lemma pool_step_wf: "wfP (\<lambda>s' s. pool_step work settle s s')"
  by (rule wfp_if_convertible_to_nat [of _ remaining]) (rule remaining_decreases)

text \<open>No state but a stopped one is stuck, and no worker needs the flag to go on.\<close>

lemma pool_progress:
  assumes "\<And>x. \<exists>r. work x r" and "\<not> all_stopped s"
  shows "\<exists>s'. pool_step work settle s s' \<and> pl_cancel s' = pl_cancel s"
proof -
  obtain ph where "ph \<in> set (pl_workers s)" "ph \<noteq> Stopped"
    using assms(2) by (auto simp: all_stopped_def list_all_iff)
  then obtain w where w: "at_phase s w ph" by (auto simp: at_phase_def in_set_conv_nth)
  have go: ?thesis if "pool_step work settle s s'" "pl_cancel s' = pl_cancel s" for s' using that by blast
  show ?thesis
  proof (cases ph)
    case Idle
    with w show ?thesis by (cases "pl_cancel s") (auto intro!: go pool_step.stop_first pool_step.pass_first)
  next
    case Ready
    with w show ?thesis by (cases "pl_queue s") (auto intro!: go pool_step.drained pool_step.pop)
  next
    case (Taken i x)
    with w show ?thesis by (cases "pl_cancel s") (auto intro!: go pool_step.stop_second pool_step.pass_second)
  next
    case (Running i x)
    obtain r where r: "work x r" using assms(1) by blast
    show ?thesis
    proof (cases "settle r")
      case (Keep v)
      with w r Running show ?thesis by (auto intro!: go pool_step.run_keep)
    next
      case (Quit e)
      with w r Running show ?thesis by (auto intro!: go pool_step.run_quit)
    qed
  next
    case (Bumped c)
    with w show ?thesis by (auto intro!: go pool_step.store)
  next
    case Pushed
    with w show ?thesis by (cases "bump_completed (pl_progress s)") (auto intro!: go pool_step.bump)
  next
    case (Finished i x v)
    with w show ?thesis by (auto intro!: go pool_step.push)
  qed (use \<open>ph \<noteq> Stopped\<close> in simp)
qed

lemma pool_finishes:
  assumes "\<And>x. \<exists>r. work x r"
  shows "\<exists>s'. pool_reach work settle s s' \<and> all_stopped s' \<and> pl_cancel s' = pl_cancel s"
proof (induction "remaining s" arbitrary: s rule: less_induct)
  case less
  show ?case
  proof (cases "all_stopped s")
    case False
    then obtain s1 where s1: "pool_step work settle s s1" "pl_cancel s1 = pl_cancel s"
      using pool_progress [of work s settle] assms by blast
    from less [OF remaining_decreases [OF s1(1)]] s1(2) obtain s2 where
      "pool_reach work settle s1 s2" "all_stopped s2" "pl_cancel s2 = pl_cancel s" by auto
    with converse_rtranclp_into_rtranclp [of "pool_step work settle", OF s1(1)] show ?thesis by blast
  qed auto
qed

section \<open>Outcomes\<close>

definition outcome_ok where
  "outcome_ok work settle x v \<longleftrightarrow> (\<exists>r. work x r \<and> settle r = Keep v)"

definition phase_ok where
  "phase_ok work settle ph \<longleftrightarrow> (case ph of Finished i x v \<Rightarrow> outcome_ok work settle x v | _ \<Rightarrow> True)"

definition outcomes_ok where
  "outcomes_ok work settle s \<longleftrightarrow> list_all (\<lambda>(i, x, v). outcome_ok work settle x v) (pl_outcomes s)
     \<and> list_all (phase_ok work settle) (pl_workers s)"

lemma list_all_update: "list_all P xs \<Longrightarrow> P y \<Longrightarrow> list_all P (xs[w := y])"
  using set_update_subset_insert [of xs w y] by (auto simp: list_all_iff)

lemma phase_ok_simps [simp]:
  "phase_ok work settle Idle" "phase_ok work settle Ready" "phase_ok work settle (Taken i x)"
  "phase_ok work settle (Running i x)" "phase_ok work settle Pushed" "phase_ok work settle (Bumped c)"
  "phase_ok work settle Stopped" "phase_ok work settle (Finished i x v) = outcome_ok work settle x v"
  by (simp_all add: phase_ok_def)

lemma outcomes_step:
  assumes "pool_step work settle s s'" "outcomes_ok work settle s"
  shows "outcomes_ok work settle s'"
  using assms(1)
proof (cases rule: pool_step.cases)
  case (run_keep w i x r v)
  then have "outcome_ok work settle x v" by (auto simp: outcome_ok_def)
  then show ?thesis using assms(2) run_keep(1) by (auto simp: outcomes_ok_def intro: list_all_update)
next
  case (push w i x v)
  then have "phase_ok work settle (Finished i x v)"
    using assms(2) by (auto simp: at_phase_def outcomes_ok_def list_all_length)
  then show ?thesis using assms(2) push(1) by (auto simp: outcomes_ok_def intro: list_all_update)
qed (use assms(2) in \<open>auto simp: outcomes_ok_def intro: list_all_update\<close>)

lemma set_goto: "ph \<in> set (pl_workers (goto s w ph')) \<Longrightarrow> ph = ph' \<or> ph \<in> set (pl_workers s)"
  using set_update_subset_insert [of "pl_workers s" w ph'] by auto

text \<open>As long as nobody cancels and every early end of a worker leaves an error, no task is lost and
  no worker stops before the queue is empty.\<close>

definition intact :: "('a, 'o) pool \<Rightarrow> bool" where
  "intact s \<longleftrightarrow> (\<not> pl_cancel s \<and> pl_error s = None \<longrightarrow> pl_lost s = [] \<and> (Stopped \<in> set (pl_workers s) \<longrightarrow> pl_queue s = []))"

lemma intact_step:
  assumes "pool_step work settle s s'" "intact s"
    and "\<And>w i x r. at_phase s w (Running i x) \<Longrightarrow> work x r \<Longrightarrow> settle r \<noteq> Quit None"
  shows "intact s'"
  using assms(1)
proof (cases rule: pool_step.cases)
  case (run_quit w i x r e)
  then show ?thesis using assms(3) by (cases e) (auto simp: intact_def)
qed (use assms(2) set_goto [of Stopped s] in \<open>fastforce simp: intact_def\<close>)+

section \<open>Runs\<close>

definition batch_progress :: "nat \<Rightarrow> progress \<Rightarrow> bool" where
  "batch_progress n p \<longleftrightarrow> pr_completed_tasks p = 0 \<and> pr_total_tasks p = n"

text \<open>The invariant of a run over \<open>items\<close> with \<open>k\<close> workers.\<close>

definition pool_inv where
  "pool_inv work settle k items s \<longleftrightarrow> tasks s = mset (enumerate 0 items) \<and> counted (length items) s
     \<and> outcomes_ok work settle s \<and> length (pl_workers s) = k"

lemma workers_step: "pool_step work settle s s' \<Longrightarrow> length (pl_workers s') = length (pl_workers s)"
  by (erule pool_stepE) simp_all

lemma pool_inv_step:
  assumes "pool_step work settle s s'" "pool_inv work settle k items s" "length items < 2 ^ 64"
  shows "pool_inv work settle k items s'"
  using assms(2,3) tasks_step [OF assms(1)] outcomes_step [OF assms(1)] workers_step [OF assms(1)]
    counted_step [OF assms(1), of "length items"] outcomes_bounded [of s items]
  by (simp add: pool_inv_def)

lemma pool_inv_start:
  assumes "batch_progress (length items) p"
  shows "pool_inv work settle k items (start_pool k items c p)"
proof -
  have "sum_list (map owed (replicate k Idle :: ('a, 'b) phase list)) = 0" by (induction k) (simp_all add: owed_def)
  then show ?thesis using assms
    by (simp add: pool_inv_def counted_def owed_def batch_progress_def outcomes_ok_def start_pool_def [of k items c p] list_all_iff
        tasks_start [unfolded start_pool_def])
qed

lemma pool_inv_reach:
  assumes "pool_reach work settle (start_pool k items c p) s" "batch_progress (length items) p" "length items < 2 ^ 64"
  shows "pool_inv work settle k items s"
  using assms(1)
  by (induction rule: rtranclp_induct) (auto intro: pool_inv_start pool_inv_step assms(2,3))

lemma running_item:
  assumes "pool_inv work settle k items s" "at_phase s w (Running i x)"
  shows "x \<in> set items"
proof -
  have "(i, x) \<in># tasks s" using tasks_goto [OF assms(2), of Stopped] by (metis add_cancel_right_right held_simps(4,8) mset.simps union_mset_add_mset_right union_single_eq_member)
  then show ?thesis using assms(1) by (auto simp: pool_inv_def in_set_enumerate_eq)
qed

lemma intact_reach:
  assumes "pool_reach work settle (start_pool k items c p) s" "batch_progress (length items) p" "length items < 2 ^ 64"
    and "\<And>x r. x \<in> set items \<Longrightarrow> work x r \<Longrightarrow> settle r \<noteq> Quit None"
  shows "intact s"
  using assms(1)
proof (induction rule: rtranclp_induct)
  case base
  show ?case by (simp add: intact_def start_pool_def)
next
  case (step s s')
  show ?case
    by (rule intact_step [OF step(2,3)]) (use assms(4) running_item [OF pool_inv_reach [OF step(1) assms(2,3)]] in blast)
qed

text \<open>What is left when every worker has stopped.\<close>

lemma stopped_sums:
  assumes "all_stopped s"
  shows "sum_list (map (\<lambda>ph. mset (held ph)) (pl_workers s)) = {#}" "sum_list (map owed (pl_workers s)) = 0"
proof -
  have "sum_list (map (\<lambda>ph. mset (held ph)) ws) = {#} \<and> sum_list (map owed ws) = 0" if "list_all (\<lambda>ph. ph = Stopped) ws"
    for ws :: "('a, 'b) phase list"
    using that by (induction ws) (simp_all add: owed_def)
  then show "sum_list (map (\<lambda>ph. mset (held ph)) (pl_workers s)) = {#}" "sum_list (map owed (pl_workers s)) = 0"
    using assms by (simp_all add: all_stopped_def)
qed

abbreviation strip :: "nat \<times> 'a \<times> 'o \<Rightarrow> nat \<times> 'a" where
  "strip \<equiv> \<lambda>(i, x, v). (i, x)"

definition results_of where
  "results_of work settle items os \<longleftrightarrow> sorted (map fst os) \<and> distinct (map fst os)
     \<and> (\<forall>(i, x, v) \<in> set os. i < length items \<and> x = items ! i \<and> outcome_ok work settle x v)"

lemma distinct_submset:
  assumes "mset xs \<subseteq># mset ys" "distinct ys"
  shows "distinct xs"
proof -
  obtain zs where "mset ys = mset (xs @ zs)" using assms(1) by (metis ex_mset mset_append subset_mset.le_iff_add)
  then show ?thesis using assms(2) mset_eq_imp_distinct_iff by fastforce
qed

lemma results_of_inv:
  assumes "pool_inv work settle k items s"
  shows "results_of work settle items (sorted_outcomes s)"
proof -
  have sub: "mset (map strip (pl_outcomes s)) \<subseteq># mset (enumerate 0 items)"
    using assms unfolding pool_inv_def tasks_def by (metis (no_types, lifting) mset_subset_eq_add_left union_assoc union_commute)
  then have "mset (map fst (map strip (pl_outcomes s))) \<subseteq># mset (map fst (enumerate 0 items))"
    by (metis image_mset_subseteq_mono mset_map)
  then have "mset (map fst (pl_outcomes s)) \<subseteq># mset [0..<length items]"
    by (simp add: comp_def case_prod_beta' image_mset.compositionality)
  then have d: "distinct (map fst (pl_outcomes s))"
    by (rule distinct_submset) simp
  have "\<forall>(i, x, v) \<in> set (pl_outcomes s). i < length items \<and> x = items ! i"
  proof (clarify)
    fix i x v assume "(i, x, v) \<in> set (pl_outcomes s)"
    then have "(i, x) \<in># mset (enumerate 0 items)" using mset_subset_eqD [OF sub, of "(i, x)"] by force
    then show "i < length items \<and> x = items ! i" by (auto simp: in_set_enumerate_eq)
  qed
  moreover have "distinct (map fst (sorted_outcomes s))"
    using d mset_eq_imp_distinct_iff [of "map fst (sorted_outcomes s)" "map fst (pl_outcomes s)"]
    by (simp add: sorted_outcomes_def)
  ultimately show ?thesis using assms
    by (auto simp: results_of_def sorted_outcomes_def pool_inv_def outcomes_ok_def list_all_iff)
qed

text \<open>A run that kept every task has the results of all of them, in the order of the input.\<close>

lemma results_complete:
  assumes "pool_inv work settle k items s" "intact s" "all_stopped s" "0 < k" "\<not> pl_cancel s" "pl_error s = None"
  shows "map strip (sorted_outcomes s) = enumerate 0 items"
proof -
  have "Stopped \<in> set (pl_workers s)" using assms(1,3,4) unfolding pool_inv_def all_stopped_def list_all_iff
    by (metis length_greater_0_conv list.set_sel(1))
  then have "pl_queue s = []" "pl_lost s = []" using assms(2,5,6) by (auto simp: intact_def)
  then have m: "mset (map strip (sorted_outcomes s)) = mset (enumerate 0 items)"
    using assms(1) stopped_sums(1) [OF assms(3)] by (simp add: pool_inv_def tasks_def sorted_outcomes_def)
  have f: "map fst (map strip xs) = map fst xs" for xs :: "(nat \<times> 'a \<times> 'c) list" by (induction xs) auto
  have srt: "sorted (map fst (map strip (sorted_outcomes s)))" "distinct (map fst (map strip (sorted_outcomes s)))"
    unfolding f using results_of_inv [OF assms(1)] by (auto simp: results_of_def)
  have st: "set (map strip (sorted_outcomes s)) = set (enumerate 0 items)" using m by (metis set_mset_mset)
  have "inj_on fst (set (enumerate 0 items))" by (auto simp: inj_on_def in_set_enumerate_eq)
  then show ?thesis
    by (intro map_sorted_distinct_set_unique [where f = fst]) (use srt st in simp_all)
qed

lemma complete_nth:
  assumes "results_of work settle items os" "map strip os = enumerate 0 items"
  shows "length os = length items" and "\<And>i. i < length items \<Longrightarrow> os ! i = (i, items ! i, snd (snd (os ! i)))"
    and "\<And>i. i < length items \<Longrightarrow> outcome_ok work settle (items ! i) (snd (snd (os ! i)))"
proof -
  show l: "length os = length items" using arg_cong [OF assms(2), of length] by simp
  show n: "os ! i = (i, items ! i, snd (snd (os ! i)))" if i: "i < length items" for i
  proof -
    have "strip (os ! i) = enumerate 0 items ! i" using assms(2) i l by (metis nth_map)
    then show ?thesis using i by (cases "os ! i") (simp add: nth_enumerate_eq)
  qed
  show "outcome_ok work settle (items ! i) (snd (snd (os ! i)))" if i: "i < length items" for i
  proof -
    have "os ! i \<in> set os" using i l by simp
    then have "(i, items ! i, snd (snd (os ! i))) \<in> set os" using n [OF i] by simp
    then show ?thesis using assms(1) by (auto simp: results_of_def)
  qed
qed

lemma num_workers_pos: "items \<noteq> [] \<Longrightarrow> 0 < num_workers mw (length items)"
  by (cases items) (simp_all add: num_workers_def)

lemma reset_batch_progress: "batch_progress n (reset_for_batch n p)"
  by (simp add: batch_progress_def reset_for_batch_def)

lemma batch_never_errors:
  assumes "pool_reach work settle_batch (start_pool k items c p) s"
  shows "pl_error s = None"
  using assms
proof (induction rule: rtranclp_induct)
  case base
  show ?case by (simp add: start_pool_def)
next
  case (step s s')
  have "settle_batch r = Quit e \<Longrightarrow> e = None" for r e by (cases r) auto
  with step(2,3) show ?case by (auto elim!: pool_stepE)
qed

fun outcome_result :: "vm_error + report \<Rightarrow> (vm_error, report) res" where
  "outcome_result (Inl e) = Err e"
| "outcome_result (Inr rep) = Ok rep"

lemma settle_batch_Keep: "settle_batch q = Keep v \<Longrightarrow> q = outcome_result v"
  by (cases q) auto

lemma batch_outcome_work: "outcome_ok work settle_batch x v \<Longrightarrow> work x (outcome_result v)"
  using settle_batch_Keep by (auto simp: outcome_ok_def)

lemma settle_parallel_Keep: "settle_parallel q = Keep v \<Longrightarrow> q = Ok v"
  by (cases q) auto

section \<open>Runs of one worker\<close>

text \<open>One image that is inspected.\<close>

lemma lone_run:
  assumes "work x r" "settle r = Keep v"
  shows "\<exists>s. pool_reach work settle (start_pool 1 [x] False p) s \<and> all_stopped s \<and> \<not> pl_cancel s \<and>
    pl_outcomes s = [(0, x, v)]"
proof -
  let ?s0 = "start_pool 1 [x] False p"
  let ?s1 = "goto ?s0 0 Ready"
  let ?s2 = "goto (?s1\<lparr>pl_queue := []\<rparr>) 0 (Taken 0 x)"
  let ?s3 = "goto ?s2 0 (Running 0 x)"
  let ?s4 = "goto ?s3 0 (Finished 0 x v)"
  let ?s5 = "goto (?s4\<lparr>pl_outcomes := pl_outcomes ?s4 @ [(0, x, v)]\<rparr>) 0 Pushed"
  obtain c p' where b: "bump_completed (pl_progress ?s5) = (c, p')" by (cases "bump_completed (pl_progress ?s5)")
  let ?s6 = "goto (?s5\<lparr>pl_progress := p'\<rparr>) 0 (Bumped c)"
  let ?s7 = "goto (?s6\<lparr>pl_progress := store_percentage c (pl_progress ?s6)\<rparr>) 0 Idle"
  let ?s8 = "goto ?s7 0 Ready"
  let ?s9 = "goto ?s8 0 Stopped"
  note here = at_phase_def start_pool_def
  have "pool_step work settle ?s0 ?s1" by (rule pool_step.pass_first) (simp_all add: here)
  moreover have "pool_step work settle ?s1 ?s2" by (rule pool_step.pop) (simp_all add: here)
  moreover have "pool_step work settle ?s2 ?s3" by (rule pool_step.pass_second) (simp_all add: here)
  moreover have "pool_step work settle ?s3 ?s4" by (rule pool_step.run_keep [where r = r]) (simp_all add: here assms)
  moreover have "pool_step work settle ?s4 ?s5" by (rule pool_step.push) (simp add: here)
  moreover have "pool_step work settle ?s5 ?s6" by (rule pool_step.bump [OF _ b]) (simp add: here)
  moreover have "pool_step work settle ?s6 ?s7" by (rule pool_step.store) (simp add: here)
  moreover have "pool_step work settle ?s7 ?s8" by (rule pool_step.pass_first) (simp_all add: here)
  moreover have "pool_step work settle ?s8 ?s9" by (rule pool_step.drained) (simp_all add: here)
  ultimately have "pool_reach work settle ?s0 ?s9" by (meson converse_rtranclp_into_rtranclp rtranclp.rtrancl_refl)
  moreover have "all_stopped ?s9" "\<not> pl_cancel ?s9" "pl_outcomes ?s9 = [(0, x, v)]"
    by (simp_all add: all_stopped_def start_pool_def)
  ultimately show ?thesis by blast
qed

text \<open>One image whose inspection panics.\<close>

abbreviation panics :: "path \<Rightarrow> (vm_error, report) res \<Rightarrow> bool" where
  "panics x r \<equiv> r = Panic"

lemma lone_panic_run:
  "\<exists>s. pool_reach panics settle_batch (start_pool 1 [x] False p) s \<and> all_stopped s \<and> \<not> pl_cancel s \<and>
    pl_outcomes s = [] \<and> pl_progress s = p"
proof -
  let ?s0 = "start_pool 1 [x] False p :: (path, vm_error + report) pool"
  let ?s1 = "goto ?s0 0 Ready"
  let ?s2 = "goto (?s1\<lparr>pl_queue := []\<rparr>) 0 (Taken 0 x)"
  let ?s3 = "goto ?s2 0 (Running 0 x)"
  let ?s4 = "goto (?s3\<lparr>pl_lost := (0, x) # pl_lost ?s3, pl_error := (if pl_error ?s3 = None then None else pl_error ?s3)\<rparr>) 0 Stopped"
  have "pool_step panics settle_batch ?s0 ?s1" by (rule pool_step.pass_first) (simp_all add: at_phase_def start_pool_def)
  moreover have "pool_step panics settle_batch ?s1 ?s2" by (rule pool_step.pop) (simp_all add: at_phase_def start_pool_def)
  moreover have "pool_step panics settle_batch ?s2 ?s3" by (rule pool_step.pass_second) (simp_all add: at_phase_def start_pool_def)
  moreover have "pool_step panics settle_batch ?s3 ?s4"
    by (rule pool_step.run_quit [where r = Panic]) (simp_all add: at_phase_def start_pool_def)
  ultimately have "pool_reach panics settle_batch ?s0 ?s4" by (meson converse_rtranclp_into_rtranclp rtranclp.rtrancl_refl)
  moreover have "all_stopped ?s4" "\<not> pl_cancel ?s4" "pl_outcomes ?s4 = []" "pl_progress ?s4 = p"
    by (simp_all add: all_stopped_def start_pool_def)
  ultimately show ?thesis by blast
qed

lemma sample_batch:
  "\<exists>b p'. inspect_batch (\<lambda>_ r. r = Err Cancelled) [''/a.raw''] 4 None False False new_progress (Ok b) p' False False"
proof -
  obtain s where s: "pool_reach (\<lambda>_ r. r = Err Cancelled) settle_batch
      (start_pool 1 [''/a.raw''] False (reset_for_batch 1 new_progress)) s" "all_stopped s" "\<not> pl_cancel s"
    using lone_run [of "\<lambda>_ r. r = Err Cancelled" "''/a.raw''" "Err Cancelled" settle_batch _ "reset_for_batch 1 new_progress"] by auto
  have "inspect_batch (\<lambda>_ r. r = Err Cancelled) [''/a.raw''] 4 None False False new_progress
      (Ok (batch_of (sorted_outcomes s))) (pl_progress s) (pl_cancel s) (drop_guard True)"
    by (rule inspect_batch.joined) (use s in \<open>simp_all add: acquire_cases num_workers_def\<close>)
  then show ?thesis using s(3) by (auto simp: drop_guard_def)
qed

text \<open>Where a stored error comes from.\<close>

definition error_ok where
  "error_ok work settle items s \<longleftrightarrow>
     (\<forall>e. pl_error s = Some e \<longrightarrow> (\<exists>x \<in> set items. \<exists>r. work x r \<and> settle r = Quit (Some e)))"

lemma error_step:
  assumes "pool_step work settle s s'" "pool_inv work settle k items s" "error_ok work settle items s"
  shows "error_ok work settle items s'"
  using assms(1)
proof (cases rule: pool_step.cases)
  case (run_quit w i x r e)
  then show ?thesis using assms(3) running_item [OF assms(2) run_quit(2)] by (auto simp: error_ok_def)
qed (use assms(3) in \<open>auto simp: error_ok_def\<close>)

lemma error_reach:
  assumes "pool_reach work settle (start_pool k items c p) s" "batch_progress (length items) p" "length items < 2 ^ 64"
  shows "error_ok work settle items s"
  using assms(1)
proof (induction rule: rtranclp_induct)
  case base
  show ?case by (simp add: error_ok_def start_pool_def)
next
  case (step s s')
  show ?case by (rule error_step [OF step(2) pool_inv_reach [OF step(1) assms(2,3)] step(3)])
qed

lemma batch_results:
  assumes "inspect_batch work paths mw None False c p r p' c' a'" and "\<not> c'" and "length paths < 2 ^ 64"
    and "\<forall>x \<in> set paths. \<not> work x Panic" and "paths \<noteq> []"
  obtains vs where "length vs = length paths" "r = Ok (batch_of (map (\<lambda>i. (i, paths ! i, vs ! i)) [0..<length paths]))"
    "\<And>i. i < length paths \<Longrightarrow> work (paths ! i) (outcome_result (vs ! i))"
    "pr_completed_tasks p' = length paths" "pr_total_tasks p' = length paths" "\<not> a'"
proof -
  obtain s where run: "pool_reach work settle_batch (start_pool (num_workers mw (length paths)) paths c (reset_for_batch (length paths) p)) s"
      and st: "all_stopped s" and r: "r = Ok (batch_of (sorted_outcomes s))" "p' = pl_progress s" "c' = pl_cancel s" "\<not> a'"
    using assms(1,5) by (cases rule: inspect_batch.cases) (auto simp: acquire_cases drop_guard_def)
  note inv = pool_inv_reach [OF run reset_batch_progress assms(3)]
  have "settle_batch q \<noteq> Quit None" if "x \<in> set paths" "work x q" for x q using that assms(4) by (cases q) auto
  then have "intact s" using intact_reach [OF run reset_batch_progress assms(3)] by blast
  then have full: "map strip (sorted_outcomes s) = enumerate 0 paths"
    using results_complete [OF inv _ st num_workers_pos [OF assms(5)]] assms(2) r(3) batch_never_errors [OF run] by simp
  note res = results_of_inv [OF inv]
  let ?vs = "map (\<lambda>x. snd (snd x)) (sorted_outcomes s)"
  note nth = complete_nth [OF res full]
  have "sorted_outcomes s = map (\<lambda>i. (i, paths ! i, ?vs ! i)) [0..<length paths]"
    by (rule nth_equalityI) (use nth in auto)
  moreover have "work (paths ! i) (outcome_result (?vs ! i))" if i: "i < length paths" for i
    using batch_outcome_work [OF nth(3) [OF i]] nth(1) i by simp
  moreover have "pr_completed_tasks p' = length paths" "pr_total_tasks p' = length paths"
    using inv stopped_sums(2) [OF st] nth(1) r(2) by (simp_all add: pool_inv_def counted_def sorted_outcomes_def)
  ultimately show thesis using r(1,4) nth(1) by (intro that [of ?vs]) simp_all
qed

section \<open>Properties\<close>

text \<open>C8. A batch that is not cancelled and whose inspections do not panic returns one outcome for every
  image, whatever the interleaving of its workers: reports and errors in the order of the input,
  each a possible outcome of its own image; the counter has reached the number of images, a snapshot
  shows 100 percent, and the slot is free again.\<close>

theorem batch_complete:
  assumes "inspect_batch work paths mw None False c p r p' c' a'" and "\<not> c'" and "length paths < 2 ^ 64"
    and "\<forall>x \<in> set paths. \<not> work x Panic" and "paths \<noteq> []"
  shows "(\<exists>vs. length vs = length paths \<and> r = Ok (batch_of (map (\<lambda>i. (i, paths ! i, vs ! i)) [0..<length paths])) \<and>
      (\<forall>i < length paths. work (paths ! i) (outcome_result (vs ! i)))) \<and>
    sn_completed_tasks (take_snapshot p') = length paths \<and> sn_percentage (take_snapshot p') = 100 \<and> \<not> a'"
  using assms(5) percentage_100_iff [of "length paths" "length paths"]
  by (rule_tac batch_results [OF assms]) (auto simp: take_snapshot_def)

theorem batch_complete_witness:
  "\<exists>r p'. inspect_batch (\<lambda>_ r. r = Err Cancelled) [''/a.raw''] 4 None False False new_progress r p' False False \<and>
    sn_percentage (take_snapshot p') = 100"
proof -
  obtain b p' where "inspect_batch (\<lambda>_ r. r = Err Cancelled) [''/a.raw''] 4 None False False new_progress (Ok b) p' False False"
    using sample_batch by blast
  from this batch_complete [OF this] show ?thesis by auto
qed

text \<open>C15. A cancelled batch keeps what it has: its reports and errors are those of a set of images, in the
  order of the input and none of them twice, each a possible outcome of its image, and the counter
  says how many there are.\<close>

theorem batch_partial:
  assumes "inspect_batch work paths mw None False c p (Ok b) p' c' a'" and "length paths < 2 ^ 64"
  shows "\<exists>os. b = batch_of os \<and> sorted (map fst os) \<and> distinct (map fst os) \<and>
    (\<forall>(i, x, v) \<in> set os. i < length paths \<and> x = paths ! i \<and> work x (outcome_result v)) \<and>
    sn_completed_tasks (take_snapshot p') = length os \<and> \<not> a'"
  using assms(1)
proof (cases rule: inspect_batch.cases)
  case (no_paths a)
  then show ?thesis by (intro exI [of _ "[]"]) (simp add: take_snapshot_def reset_for_batch_def drop_guard_def)
next
  case (joined a s)
  note inv = pool_inv_reach [OF joined(8) reset_batch_progress assms(2)]
  have "pr_completed_tasks (pl_progress s) = length (pl_outcomes s)"
    using inv stopped_sums(2) [OF joined(9)] by (simp add: pool_inv_def counted_def)
  then show ?thesis using results_of_inv [OF inv] joined batch_outcome_work
    by (intro exI [of _ "sorted_outcomes s"])
      (fastforce simp: results_of_def take_snapshot_def drop_guard_def sorted_outcomes_def)
qed

theorem batch_partial_witness:
  "\<exists>p' os. inspect_batch (\<lambda>_ r. r = Err Cancelled) [''/a.raw''] 4 None False False new_progress (Ok (batch_of os)) p' False False \<and>
    sn_completed_tasks (take_snapshot p') = length os"
proof -
  obtain b p' where "inspect_batch (\<lambda>_ r. r = Err Cancelled) [''/a.raw''] 4 None False False new_progress (Ok b) p' False False"
    using sample_batch by blast
  from this batch_partial [OF this] show ?thesis by auto
qed

text \<open>C16. The worker pool always comes to rest: no schedule of its steps goes on for ever, and as long as a
  worker has not stopped some step is possible, so the joins return; this holds for both pools and
  whenever the caller cancels.\<close>

theorem pool_terminates:
  assumes "\<And>x. \<exists>r. work x r"
  shows "wfP (\<lambda>s' s. pool_step work settle s s') \<and>
    (\<forall>s. (\<exists>s'. pool_step work settle s s') \<or> all_stopped s) \<and>
    (\<forall>s. \<exists>s'. pool_reach work settle s s' \<and> all_stopped s')"
proof (intro conjI allI)
  show "wfP (\<lambda>s' s. pool_step work settle s s')" by (rule pool_step_wf)
  fix s
  show "(\<exists>s'. pool_step work settle s s') \<or> all_stopped s" using pool_progress [of work s settle] assms by blast
  show "\<exists>s'. pool_reach work settle s s' \<and> all_stopped s'" using pool_finishes [of work settle s] assms by blast
qed

theorem pool_terminates_witness:
  "\<exists>s. pool_reach (\<lambda>_ r. r = Panic) settle_batch (start_pool 3 [''/a'', ''/b''] False new_progress) s \<and> all_stopped s"
  by (rule spec [OF conjunct2 [OF conjunct2 [OF pool_terminates]]]) simp





text \<open>An image whose inspection panics leaves no trace: \<open>join\<close> drops the panic, and the batch
  succeeds with neither a report nor an error for the image and a counter that stays behind.\<close>

theorem batch_loses_panicking_image:
  "\<exists>p'. inspect_batch (\<lambda>_ r. r = Panic) [x] mw None False False p (Ok \<lparr>br_reports = [], br_errors = []\<rparr>) p' False False \<and>
    sn_completed_tasks (take_snapshot p') = 0"
proof -
  obtain s where s: "pool_reach panics settle_batch (start_pool 1 [x] False (reset_for_batch 1 p)) s" "all_stopped s"
      "\<not> pl_cancel s" "pl_outcomes s = []" "pl_progress s = reset_for_batch 1 p"
    using lone_panic_run by blast
  have "inspect_batch panics [x] mw None False False p (Ok (batch_of (sorted_outcomes s))) (pl_progress s) (pl_cancel s) (drop_guard True)"
    by (rule inspect_batch.joined) (use s in \<open>simp_all add: acquire_cases num_workers_def\<close>)
  then show ?thesis using s
    by (intro exI [of _ "reset_for_batch 1 p"])
      (simp add: batch_of_def sorted_outcomes_def drop_guard_def take_snapshot_def reset_for_batch_def)
qed

end
