(* ===== verification/Cli.thy ===== *)
theory Cli
  imports Inspection Discovery Worker_Pool
begin

text \<open>
  The command line, \<open>src/bin/vmspect.rs\<close>: the parser of the arguments, the dispatch of \<open>main\<close>, and the
  two commands with their exit status and their lines on the two output streams.  The serializer
  \<^verbatim>\<open>serde_json\<close> is a parameter.
\<close>

section \<open>Arguments\<close>

record cli_config =
  cc_target_path :: "path option"
  cc_json_format :: bool
  cc_concurrent :: bool
  cc_force_nbd :: bool
  cc_recursive :: bool
  cc_no_apps :: bool
  cc_no_system :: bool
  cc_include_system :: bool
  cc_max_workers :: "nat option"
  cc_full_report :: bool
  cc_excluded_directories :: "path list"
  cc_max_depth :: "nat option"
  cc_quiet_discovery :: bool

definition default_config :: cli_config where
  "default_config = \<lparr>cc_target_path = None, cc_json_format = False, cc_concurrent = False, cc_force_nbd = False,
     cc_recursive = False, cc_no_apps = False, cc_no_system = False, cc_include_system = False,
     cc_max_workers = None, cc_full_report = False, cc_excluded_directories = [], cc_max_depth = None,
     cc_quiet_discovery = False\<rparr>"

text \<open>The ways parsing ends early: the two options that print and exit, and the errors.\<close>

datatype cli_stop = ShowHelp | ShowVersion | ArgumentError string

definition set_flag :: "string \<Rightarrow> (cli_config \<Rightarrow> cli_config) option" where
  "set_flag = map_of [
     (''--json'', \<lambda>c. c\<lparr>cc_json_format := True\<rparr>),
     (''--concurrent'', \<lambda>c. c\<lparr>cc_concurrent := True\<rparr>),
     (''--force-nbd'', \<lambda>c. c\<lparr>cc_force_nbd := True\<rparr>),
     (''-r'', \<lambda>c. c\<lparr>cc_recursive := True\<rparr>),
     (''--recursive'', \<lambda>c. c\<lparr>cc_recursive := True\<rparr>),
     (''--no-apps'', \<lambda>c. c\<lparr>cc_no_apps := True\<rparr>),
     (''--no-system'', \<lambda>c. c\<lparr>cc_no_system := True\<rparr>),
     (''--include-system'', \<lambda>c. c\<lparr>cc_include_system := True\<rparr>),
     (''--full-report'', \<lambda>c. c\<lparr>cc_full_report := True\<rparr>),
     (''--quiet-discovery'', \<lambda>c. c\<lparr>cc_quiet_discovery := True\<rparr>)]"

definition worker_count :: "string \<Rightarrow> (cli_stop, nat) res" where
  "worker_count value = (case parse_uint 64 10 value of
       None \<Rightarrow> Err (ArgumentError (''Invalid worker count: '' @ quoted value))
     | Some n \<Rightarrow> if n = 0 then Err (ArgumentError ''Worker count must be at least 1'') else Ok n)"

definition depth_limit :: "string \<Rightarrow> (cli_stop, nat) res" where
  "depth_limit value = (case parse_uint 64 10 value of
       None \<Rightarrow> Err (ArgumentError (''Invalid maximum depth: '' @ quoted value))
     | Some n \<Rightarrow> Ok n)"

definition add_exclude :: "cli_config \<Rightarrow> string \<Rightarrow> (cli_stop, cli_config) res" where
  "add_exclude c v = Ok (c\<lparr>cc_excluded_directories := cc_excluded_directories c @ [v]\<rparr>)"

definition set_depth :: "cli_config \<Rightarrow> string \<Rightarrow> (cli_stop, cli_config) res" where
  "set_depth c v = and_then (depth_limit v) (\<lambda>n. Ok (c\<lparr>cc_max_depth := Some n\<rparr>))"

definition set_workers :: "cli_config \<Rightarrow> string \<Rightarrow> (cli_stop, cli_config) res" where
  "set_workers c v = and_then (worker_count v) (\<lambda>n. Ok (c\<lparr>cc_max_workers := Some n\<rparr>))"

text \<open>The options that take the next argument, and what they do with it.\<close>

definition take_value :: "string \<Rightarrow> (string \<times> (cli_config \<Rightarrow> string \<Rightarrow> (cli_stop, cli_config) res)) option" where
  "take_value a =
     (if a = ''--exclude'' then Some (''A directory is required for --exclude'', add_exclude)
      else if a = ''--max-depth'' then Some (''A numeric value is required for --max-depth'', set_depth)
      else if a = ''-w'' \<or> a = ''--workers'' then Some (''A numeric value is required for --workers'', set_workers)
      else None)"

text \<open>The arguments that stand alone: a flag, \<open>--workers=N\<close>, an unknown option, the target.\<close>

definition plain_arg :: "cli_config \<Rightarrow> string \<Rightarrow> (cli_stop, cli_config) res" where
  "plain_arg c a = (case set_flag a of
       Some f \<Rightarrow> Ok (f c)
     | None \<Rightarrow>
         if starts_with a ''--workers=''
         then set_workers c (trim_start_matches ''--workers='' a)
         else if starts_with a ''-''
         then Err (ArgumentError (''Unknown option: '' @ quoted a @ ''. Use --help to see the available options.''))
         else if cc_target_path c = None then Ok (c\<lparr>cc_target_path := Some a\<rparr>)
         else Err (ArgumentError (''Unexpected positional argument: '' @ quoted a)))"

fun parse_args_loop :: "cli_config \<Rightarrow> string list \<Rightarrow> (cli_stop, cli_config) res" where
  "parse_args_loop c [] = Ok c"
| "parse_args_loop c (a # rest) =
     (if a = ''-h'' \<or> a = ''--help'' then Err ShowHelp
      else if a = ''-V'' \<or> a = ''--version'' then Err ShowVersion
      else (case take_value a of
          Some (missing, use) \<Rightarrow> (case rest of
              [] \<Rightarrow> Err (ArgumentError missing)
            | v # rest' \<Rightarrow> and_then (use c v) (\<lambda>c'. parse_args_loop c' rest'))
        | None \<Rightarrow> and_then (plain_arg c a) (\<lambda>c'. parse_args_loop c' rest)))"

definition parse_args_from :: "string list \<Rightarrow> (cli_stop, cli_config) res" where
  "parse_args_from args = parse_args_loop default_config args"

section \<open>The dispatch\<close>

datatype cli_action = Exit nat | InspectFile path options bool | InspectDirectory path cli_config options

definition cli_options :: "cli_config \<Rightarrow> options" where
  "cli_options c = default_options\<lparr>op_force_nbd := cc_force_nbd c, op_no_apps := cc_no_apps c,
     op_no_system := cc_no_system c, op_include_system := cc_include_system c\<rparr>"

definition helper_warning :: string where
  "helper_warning = ''Warning: --force-nbd launches qemu-nbd as an external read-only helper. It does not mount or ''
     @ ''attach the image, but is disabled by default because it adds another I/O layer.''"

text \<open>\<open>main\<close>: what is done next, after the lines on the error stream.\<close>

definition cli_main :: "host \<Rightarrow> string list \<Rightarrow> cli_action \<times> string list" where
  "cli_main h args = (case parse_args_from args of
       Err ShowHelp \<Rightarrow> (Exit 0, [])
     | Err ShowVersion \<Rightarrow> (Exit 0, [])
     | Err (ArgumentError m) \<Rightarrow> (Exit 1, [''Argument error: '' @ m, ''Run 'vmspect --help' for the correct usage.''])
     | Panic \<Rightarrow> (Exit 101, [])
     | Ok c \<Rightarrow> (case cc_target_path c of
         None \<Rightarrow> (Exit 1, [''Error: a path to a disk image or directory is required.'',
           ''Usage: vmspect [OPTIONS] <PATH>'', ''Run 'vmspect --help' for more information.''])
       | Some p \<Rightarrow>
           if \<not> path_exists h p then (Exit 1, [''Error: the supplied path does not exist: '' @ p])
           else (let warn = (if cc_force_nbd c then [helper_warning] else []) in
             if path_is_file h p then (InspectFile p (cli_options c) (cc_json_format c), warn)
             else if path_is_dir h p then (InspectDirectory p c (cli_options c), warn)
             else (Exit 1, warn @ [''Error: the supplied path is neither a file nor a valid directory: '' @ p]))))"

text \<open>The help and version texts; the version is set by the build.\<close>

definition help_lines :: "string \<Rightarrow> string list" where
  "help_lines version = [''vmspect '' @ version @ '' - Static inspection and forensic analysis of virtual disk images'',
     '''',
     ''USAGE:'',
     ''    vmspect [OPTIONS] <PATH>'',
     '''',
     ''ARGUMENTS:'',
     ''    <PATH>                     Path to a virtual disk file (.vmdk, .raw, .qcow2, .vhdx, .vdi, etc.)'',
     ''                               or to a directory containing VM disk images.'',
     '''',
     ''OPTIONS:'',
     ''    --json                     Prints structured JSON output to stdout.'',
     ''    --concurrent               Enables concurrent image processing via ConcurrentProcessor.'',
     ''    --force-nbd                Explicitly permits qemu-nbd for formats without direct support.'',
     ''    -r, --recursive            Searches images recursively when scanning a directory.'',
     ''    --no-apps                  Skips extraction of the installed-software catalog.'',
     ''    --no-system                Skips extraction of guest-OS information and metadata.'',
     ''    --include-system           Also extracts the SYSTEM hive from the Registry on Windows images.'',
     ''    --full-report              Include installed programs in directory JSON output.'',
     ''    --exclude <DIR>            Exclude a directory path or name from recursive discovery.'',
     ''    --max-depth <NUM>          Maximum discovery depth (selected root is depth 0).'',
     ''    --quiet-discovery          Suppress discovery warnings on stderr.'',
     ''    -w, --workers <NUM>        Worker threads for a directory (default: 1 sequential, 2 concurrent).'',
     ''    -h, --help                 Shows this help information.'',
     ''    -V, --version              Shows the current tool version.'',
     '''',
     ''EXAMPLES:'',
     ''    vmspect disk.vmdk'',
     ''    vmspect disk.qcow2 --json'',
     ''    vmspect fixtures --concurrent --recursive'',
     ''    vmspect disk.vmdk --force-nbd'',
     '''']"

definition main_output :: "string \<Rightarrow> string list \<Rightarrow> string list" where
  "main_output version args = (case parse_args_from args of
       Err ShowHelp \<Rightarrow> help_lines version
     | Err ShowVersion \<Rightarrow> [''vmspect '' @ version]
     | _ \<Rightarrow> [])"

section \<open>The two commands\<close>

record cli_output =
  co_exit :: nat
  co_out :: "string list"
  co_err :: "string list"

definition succeeded :: "string list \<Rightarrow> string list \<Rightarrow> cli_output" where
  "succeeded out err = \<lparr>co_exit = 0, co_out = out, co_err = err\<rparr>"

definition failed :: "string list \<Rightarrow> string list \<Rightarrow> cli_output" where
  "failed out err = \<lparr>co_exit = 1, co_out = out, co_err = err\<rparr>"

definition progress_line :: "progress_event \<Rightarrow> string" where
  "progress_line ev = (let n = dec_str (ev_percentage ev);
       start = ''['' @ replicate (3 - length n) (CHR '' '') @ n @ ''%] '' @ ev_stage ev;
       detail = (case ev_detail ev of Some d \<Rightarrow> d | None \<Rightarrow> '''')
     in if detail \<noteq> '''' then start @ '' ('' @ detail @ '')'' else start)"

definition banner :: "path \<Rightarrow> string list" where
  "banner p = [replicate 60 (CHR ''=''), ''  Starting inspection of: '' @ p, replicate 60 (CHR ''='')]"

text \<open>\<open>run_file\<close>: \<open>quiet\<close> is the result of an inspection without a callback and \<open>loud\<close> the one with it
  and its events; \<open>to_json\<close> is the serializer.\<close>

definition run_file where
  "run_file to_json quiet loud elapsed p json =
     (let note = (if is_secondary_extent p \<and> \<not> json then [''Note: '' @ quoted p @ '' looks like a secondary extent ''
            @ ''fragment. If analysis fails, point at the main .vmdk descriptor instead.''] else []) in
      if json then (case quiet of
          Ok rep \<Rightarrow> (case to_json rep of
              Inr s \<Rightarrow> Ok (succeeded [s] note)
            | Inl e \<Rightarrow> Ok (failed [] (note @ [''Error serializing JSON: '' @ e])))
        | Err e \<Rightarrow> Ok (failed [] (note @ [''Inspection error on '' @ quoted p @ '': '' @ display_error e]))
        | Panic \<Rightarrow> Panic)
      else (case loud of (r, evs) \<Rightarrow> (let err = note @ map progress_line evs in
        (case r of
           Ok rep \<Rightarrow> Ok (succeeded (banner p @ print_human_report rep elapsed) err)
         | Err e \<Rightarrow> Ok (failed (banner p) (err @ ['''', ''Error inspecting image '' @ quoted p @ '': '' @ display_error e]))
         | Panic \<Rightarrow> Panic))))"

definition cli_discovery_options :: "cli_config \<Rightarrow> discovery_options" where
  "cli_discovery_options c = \<lparr>do_recursive = cc_recursive c, do_excluded_directories = cc_excluded_directories c,
     do_emit_warnings = \<not> cc_quiet_discovery c, do_max_depth = cc_max_depth c\<rparr>"

definition cli_workers :: "cli_config \<Rightarrow> nat" where
  "cli_workers c = max (case cc_max_workers c of Some n \<Rightarrow> n | None \<Rightarrow> if cc_concurrent c then 2 else 1) 1"

definition cli_batch_options :: "cli_config \<Rightarrow> options \<Rightarrow> options" where
  "cli_batch_options c o' = (if \<not> cc_full_report c then o'\<lparr>op_no_apps := True\<rparr> else o')"

text \<open>The three documents of the directory command.\<close>

datatype directory_json =
    NoImagesJson "string list" "path list"
  | FullJson "report list" "image_error list" "string list" "path list"
  | SummaryJson "summary list" "image_error list" "string list" "path list"

definition image_warning :: "image_error \<Rightarrow> string" where
  "image_warning e = ''Warning: analysis of '' @ quoted (ie_path e) @ '': '' @ display_error (ie_error e)"

definition directory_summary :: "batch_result \<Rightarrow> nat \<Rightarrow> string" where
  "directory_summary b elapsed = ''Processed '' @ dec_str (length (br_reports b)) @ ''/''
     @ dec_str (length (br_reports b) + length (br_errors b)) @ '' images in '' @ dec_str elapsed @ '' ms with ''
     @ dec_str (length (br_errors b)) @ '' errors.''"

text \<open>\<open>run_directory\<close>: \<open>listed\<close> is what \<open>list_vms_with_options\<close> returns for these discovery options, with its
  lines on the error stream, and \<open>batch\<close> what \<open>inspect_batch\<close> returns for images, workers and options.\<close>

definition run_directory where
  "run_directory to_json listed batch elapsed dir c o' =
     (case listed (cli_discovery_options c) of (r, err) \<Rightarrow> (case r of
        Err e \<Rightarrow> Ok (failed [] (err @ [''Error listing images in '' @ quoted dir @ '': '' @ display_error e]))
      | Panic \<Rightarrow> Panic
      | Ok disc \<Rightarrow>
          if dp_images disc = [] then
            (if cc_json_format c then (case to_json (NoImagesJson (dp_warnings disc) (dp_inaccessible disc)) of
                 Inr s \<Rightarrow> Ok (succeeded [s] err) | Inl e \<Rightarrow> Panic)
             else Ok (succeeded [''No virtual disk images were found in '' @ quoted dir @ ''.''] err))
          else (case batch (dp_images disc) (cli_workers c) (cli_batch_options c o') of
              Ok b \<Rightarrow>
                if cc_json_format c then
                  (case to_json (if cc_full_report c
                      then FullJson (br_reports b) (br_errors b) (dp_warnings disc) (dp_inaccessible disc)
                      else SummaryJson (map report_summary (br_reports b)) (br_errors b) (dp_warnings disc) (dp_inaccessible disc)) of
                     Inr s \<Rightarrow> Ok (succeeded [s] err)
                   | Inl e \<Rightarrow> Ok (failed [] (err @ [''Error serializing JSON: '' @ e])))
                else Ok (succeeded (concat (map (\<lambda>rep. print_human_report rep (st_duration_ms (rp_stats rep))) (br_reports b))
                    @ [directory_summary b elapsed]) (err @ map image_warning (br_errors b)))
            | Err e \<Rightarrow> Ok (failed [] (err @ [''Error during batch processing: '' @ display_error e]))
            | Panic \<Rightarrow> Panic)))"

section \<open>The parser and its inverse\<close>

text \<open>The configurations the parser can return, and arguments that give one.\<close>

definition config_ok :: "cli_config \<Rightarrow> bool" where
  "config_ok c = ((case cc_target_path c of Some p \<Rightarrow> \<not> starts_with p ''-'' | None \<Rightarrow> True) \<and>
     (case cc_max_workers c of Some n \<Rightarrow> 0 < n \<and> n < 2 ^ 64 | None \<Rightarrow> True) \<and>
     (case cc_max_depth c of Some n \<Rightarrow> n < 2 ^ 64 | None \<Rightarrow> True))"

definition flag_args :: "cli_config \<Rightarrow> string list" where
  "flag_args c = (if cc_json_format c then [''--json''] else []) @ (if cc_concurrent c then [''--concurrent''] else [])
     @ (if cc_force_nbd c then [''--force-nbd''] else []) @ (if cc_recursive c then [''--recursive''] else [])
     @ (if cc_no_apps c then [''--no-apps''] else []) @ (if cc_no_system c then [''--no-system''] else [])
     @ (if cc_include_system c then [''--include-system''] else []) @ (if cc_full_report c then [''--full-report''] else [])
     @ (if cc_quiet_discovery c then [''--quiet-discovery''] else [])"

definition cli_args :: "cli_config \<Rightarrow> string list" where
  "cli_args c = flag_args c @ concat (map (\<lambda>d. [''--exclude'', d]) (cc_excluded_directories c))
     @ (case cc_max_depth c of Some n \<Rightarrow> [''--max-depth'', dec_str n] | None \<Rightarrow> [])
     @ (case cc_max_workers c of Some n \<Rightarrow> [''--workers'', dec_str n] | None \<Rightarrow> [])
     @ (case cc_target_path c of Some p \<Rightarrow> [p] | None \<Rightarrow> [])"

lemma digit_value_char: "d < 10 \<Longrightarrow> digit_value 10 (char_of (48 + d)) = Some d"
  by (simp add: digit_value_def Let_def)

lemma digits_value_append:
  "digits_value r a (s @ t) = (case digits_value r a s of None \<Rightarrow> None | Some v \<Rightarrow> digits_value r v t)"
  by (induction s arbitrary: a) (auto split: option.splits)

lemma dec_digits: "digits_value 10 0 (dec_str n) = Some n"
proof (induction n rule: dec_str.induct)
  case (1 n)
  show ?case
  proof (cases "n < 10")
    case True
    then show ?thesis by (simp add: dec_str.simps [of n] digit_value_char)
  next
    case False
    then show ?thesis using 1 by (subst dec_str.simps) (simp add: digits_value_append digit_value_char)
  qed
qed

lemma dec_str_shape: "dec_str n \<noteq> [] \<and> hd (dec_str n) \<noteq> CHR ''+''"
proof (induction n rule: dec_str.induct)
  case (1 n)
  have "char_of (48 + d) \<noteq> CHR ''+''" if "d < (10 :: nat)" for d
  proof -
    have "code (char_of (48 + d)) = 48 + d" using that by simp
    moreover have "code CHR ''+'' = 43" by simp
    ultimately show ?thesis by force
  qed
  then show ?case using 1 by (subst (1 2) dec_str.simps) auto
qed

lemma parse_dec_str: "n < 2 ^ bits \<Longrightarrow> parse_uint bits 10 (dec_str n) = Some n"
  using dec_str_shape [of n] dec_digits [of n]
  by (auto simp: parse_uint_def Let_def split: list.splits)

lemma parse_flag:
  "parse_args_loop c ((if b then [''--json''] else []) @ r) = parse_args_loop (c\<lparr>cc_json_format := b \<or> cc_json_format c\<rparr>) r"
  "parse_args_loop c ((if b then [''--concurrent''] else []) @ r) = parse_args_loop (c\<lparr>cc_concurrent := b \<or> cc_concurrent c\<rparr>) r"
  "parse_args_loop c ((if b then [''--force-nbd''] else []) @ r) = parse_args_loop (c\<lparr>cc_force_nbd := b \<or> cc_force_nbd c\<rparr>) r"
  "parse_args_loop c ((if b then [''--recursive''] else []) @ r) = parse_args_loop (c\<lparr>cc_recursive := b \<or> cc_recursive c\<rparr>) r"
  "parse_args_loop c ((if b then [''--no-apps''] else []) @ r) = parse_args_loop (c\<lparr>cc_no_apps := b \<or> cc_no_apps c\<rparr>) r"
  "parse_args_loop c ((if b then [''--no-system''] else []) @ r) = parse_args_loop (c\<lparr>cc_no_system := b \<or> cc_no_system c\<rparr>) r"
  "parse_args_loop c ((if b then [''--include-system''] else []) @ r) = parse_args_loop (c\<lparr>cc_include_system := b \<or> cc_include_system c\<rparr>) r"
  "parse_args_loop c ((if b then [''--full-report''] else []) @ r) = parse_args_loop (c\<lparr>cc_full_report := b \<or> cc_full_report c\<rparr>) r"
  "parse_args_loop c ((if b then [''--quiet-discovery''] else []) @ r) = parse_args_loop (c\<lparr>cc_quiet_discovery := b \<or> cc_quiet_discovery c\<rparr>) r"
  by (cases b; simp add: take_value_def plain_arg_def set_flag_def)+

lemma parse_flags:
  "parse_args_loop default_config (flag_args c @ r) = parse_args_loop (default_config\<lparr>cc_json_format := cc_json_format c,
     cc_concurrent := cc_concurrent c, cc_force_nbd := cc_force_nbd c, cc_recursive := cc_recursive c,
     cc_no_apps := cc_no_apps c, cc_no_system := cc_no_system c, cc_include_system := cc_include_system c,
     cc_full_report := cc_full_report c, cc_quiet_discovery := cc_quiet_discovery c\<rparr>) r"
  unfolding flag_args_def append_assoc parse_flag by (simp add: default_config_def)

lemma parse_excludes:
  "parse_args_loop c (concat (map (\<lambda>d. [''--exclude'', d]) ds) @ r) =
    parse_args_loop (c\<lparr>cc_excluded_directories := cc_excluded_directories c @ ds\<rparr>) r"
  by (induction ds arbitrary: c) (simp_all add: take_value_def add_exclude_def)

lemma parse_depth:
  "n < 2 ^ 64 \<Longrightarrow> parse_args_loop c (''--max-depth'' # dec_str n # r) = parse_args_loop (c\<lparr>cc_max_depth := Some n\<rparr>) r"
  by (simp add: take_value_def set_depth_def depth_limit_def parse_dec_str)

lemma parse_workers:
  "0 < n \<Longrightarrow> n < 2 ^ 64 \<Longrightarrow>
    parse_args_loop c (''--workers'' # dec_str n # r) = parse_args_loop (c\<lparr>cc_max_workers := Some n\<rparr>) r"
  by (simp add: take_value_def set_workers_def worker_count_def parse_dec_str)

lemma not_an_option:
  assumes "\<not> starts_with p ''-''"
  shows "p \<noteq> CHR ''-'' # s" "take_value p = None" "set_flag p = None" "\<not> starts_with p (CHR ''-'' # s)"
  using assms by (cases p; auto simp: starts_with_def take_value_def set_flag_def)+

lemma parse_target:
  "\<not> starts_with p ''-'' \<Longrightarrow> cc_target_path c = None \<Longrightarrow> parse_args_loop c [p] = Ok (c\<lparr>cc_target_path := Some p\<rparr>)"
  by (simp add: not_an_option plain_arg_def)

lemma parse_cli_args:
  assumes "config_ok c"
  shows "parse_args_from (cli_args c) = Ok c"
proof -
  have depth: "parse_args_loop d ((case m of Some n \<Rightarrow> [''--max-depth'', dec_str n] | None \<Rightarrow> []) @ r) =
      parse_args_loop (d\<lparr>cc_max_depth := m\<rparr>) r" if "case m of Some n \<Rightarrow> n < 2 ^ 64 | None \<Rightarrow> True" "cc_max_depth d = None" for d m r
    using that by (cases m; cases d) (simp_all add: parse_depth del: parse_args_loop.simps)
  have workers: "parse_args_loop d ((case m of Some n \<Rightarrow> [''--workers'', dec_str n] | None \<Rightarrow> []) @ r) =
      parse_args_loop (d\<lparr>cc_max_workers := m\<rparr>) r"
    if "case m of Some n \<Rightarrow> 0 < n \<and> n < 2 ^ 64 | None \<Rightarrow> True" "cc_max_workers d = None" for d m r
    using that by (cases m; cases d) (simp_all add: parse_workers del: parse_args_loop.simps)
  have target: "parse_args_loop d (case m of Some p \<Rightarrow> [p] | None \<Rightarrow> []) = Ok (d\<lparr>cc_target_path := m\<rparr>)"
    if "case m of Some p \<Rightarrow> \<not> starts_with p ''-'' | None \<Rightarrow> True" "cc_target_path d = None" for d m
    using that by (cases m; cases d) (simp_all add: parse_target del: parse_args_loop.simps(2))
  show ?thesis using assms
    unfolding parse_args_from_def cli_args_def parse_flags parse_excludes config_ok_def
    by (simp add: depth workers target default_config_def)
qed

lemma worker_count_ok: "worker_count v = Ok n \<Longrightarrow> 0 < n \<and> n < 2 ^ 64"
  by (auto simp: worker_count_def dest: parse_uint_bound split: option.splits if_splits)

lemma depth_limit_ok: "depth_limit v = Ok n \<Longrightarrow> n < 2 ^ 64"
  by (auto simp: depth_limit_def dest: parse_uint_bound split: option.splits)

lemma set_flag_cases: "set_flag a = Some f \<Longrightarrow> config_ok (f c) = config_ok c"
  by (auto simp: set_flag_def config_ok_def split: if_splits)

lemma set_value_ok:
  "add_exclude c v = Ok c' \<Longrightarrow> config_ok c \<Longrightarrow> config_ok c'"
  "set_depth c v = Ok c' \<Longrightarrow> config_ok c \<Longrightarrow> config_ok c'"
  "set_workers c v = Ok c' \<Longrightarrow> config_ok c \<Longrightarrow> config_ok c'"
  by (auto simp: add_exclude_def set_depth_def set_workers_def res_simps config_ok_def
      dest: worker_count_ok depth_limit_ok)

lemma take_value_ok:
  assumes "take_value a = Some (m, f)" "f c v = Ok c'" "config_ok c"
  shows "config_ok c'"
proof -
  have "f = add_exclude \<or> f = set_depth \<or> f = set_workers"
    using assms(1) by (simp add: take_value_def split: if_splits)
  then show ?thesis using assms(2,3) set_value_ok by blast
qed

lemma plain_arg_ok:
  assumes "plain_arg c a = Ok c'" "config_ok c"
  shows "config_ok c'"
proof (cases "set_flag a")
  case (Some f)
  then show ?thesis using assms set_flag_cases [OF Some, of c] by (simp add: plain_arg_def)
next
  case None
  then show ?thesis using assms set_value_ok(3) by (auto simp: plain_arg_def config_ok_def split: if_splits)
qed

lemma parse_ok: "parse_args_loop c args = Ok c' \<Longrightarrow> config_ok c \<Longrightarrow> config_ok c'"
proof (induction c args rule: parse_args_loop.induct)
  case (2 c a rest)
  then show ?case using take_value_ok plain_arg_ok
    by (auto simp: res_simps split: if_splits option.splits list.splits)
qed simp

text \<open>The helper's flag only comes from its option.\<close>

lemma set_value_force:
  "add_exclude c v = Ok c' \<Longrightarrow> cc_force_nbd c' = cc_force_nbd c"
  "set_depth c v = Ok c' \<Longrightarrow> cc_force_nbd c' = cc_force_nbd c"
  "set_workers c v = Ok c' \<Longrightarrow> cc_force_nbd c' = cc_force_nbd c"
  by (auto simp: add_exclude_def set_depth_def set_workers_def res_simps)

lemma take_value_force: "take_value a = Some (m, f) \<Longrightarrow> f c v = Ok c' \<Longrightarrow> cc_force_nbd c' = cc_force_nbd c"
  using set_value_force [of c v c'] by (auto simp: take_value_def split: if_splits)

lemma plain_arg_force: "plain_arg c a = Ok c' \<Longrightarrow> a \<noteq> ''--force-nbd'' \<Longrightarrow> cc_force_nbd c' = cc_force_nbd c"
proof (cases "set_flag a")
  case (Some f)
  assume a: "plain_arg c a = Ok c'" "a \<noteq> ''--force-nbd''"
  have "cc_force_nbd (f c) = cc_force_nbd c" using a(2) Some by (auto simp: set_flag_def split: if_splits)
  then show ?thesis using a(1) Some by (simp add: plain_arg_def)
next
  case None
  assume "plain_arg c a = Ok c'"
  then show ?thesis using None set_value_force(3) by (auto simp: plain_arg_def split: if_splits)
qed

lemma parse_force:
  "parse_args_loop c args = Ok c' \<Longrightarrow> ''--force-nbd'' \<notin> set args \<Longrightarrow> cc_force_nbd c' = cc_force_nbd c"
proof (induction c args rule: parse_args_loop.induct)
  case (2 c a rest)
  show ?case
  proof (cases "take_value a")
    case None
    then obtain c1 where "plain_arg c a = Ok c1" "parse_args_loop c1 rest = Ok c'"
      using 2(3) by (auto simp: res_simps split: if_splits)
    then show ?thesis using 2(1) [OF _ _ None] 2(3,4) plain_arg_force by (auto split: if_splits)
  next
    case (Some mf)
    obtain m f where mf: "mf = (m, f)" by fastforce
    then obtain v rest' c1 where "rest = v # rest'" "f c v = Ok c1" "parse_args_loop c1 rest' = Ok c'"
      using 2(3) Some by (auto simp: res_simps split: if_splits list.splits)
    then show ?thesis using 2(2) [OF _ _ Some mf [symmetric]] 2(3,4) Some mf take_value_force by (auto split: if_splits)
  qed
qed simp

section \<open>Properties\<close>

text \<open>C23. The argument parser and its printer are inverse: the configurations that some command line
  parses to are exactly the well-formed ones -- a target that does not look like an option, at least
  one worker, counts of 64 bits -- and each is what its canonical command line parses to.\<close>

theorem cli_roundtrip:
  "((\<exists>args. parse_args_from args = Ok c) \<longleftrightarrow> config_ok c) \<and> (config_ok c \<longrightarrow> parse_args_from (cli_args c) = Ok c)"
proof -
  have "config_ok default_config" by (simp add: config_ok_def default_config_def)
  then have "config_ok c" if "parse_args_from args = Ok c" for args
    using parse_ok that by (simp add: parse_args_from_def)
  then show ?thesis using parse_cli_args by blast
qed

definition sample_config :: cli_config where
  "sample_config = default_config\<lparr>cc_target_path := Some ''vms'', cc_recursive := True, cc_max_workers := Some 8,
     cc_excluded_directories := [''--json'', ''tmp''], cc_max_depth := Some 2\<rparr>"

theorem cli_roundtrip_witness:
  "parse_args_from [''--recursive'', ''--exclude'', ''--json'', ''--exclude'', ''tmp'', ''--max-depth'', ''2'',
     ''--workers'', ''8'', ''vms''] = Ok sample_config"
proof -
  have "config_ok sample_config" by code_simp
  moreover have "cli_args sample_config = [''--recursive'', ''--exclude'', ''--json'', ''--exclude'', ''tmp'', ''--max-depth'', ''2'',
     ''--workers'', ''8'', ''vms'']" by code_simp
  ultimately show ?thesis using cli_roundtrip [of sample_config] by simp
qed

text \<open>C28. On the command line the external helper is opt-in: an inspection is only allowed to use it
  when \<open>--force-nbd\<close> is among the arguments, and then the warning is printed first; and only an
  existing file or directory is inspected.\<close>

theorem cli_helper_opt_in:
  assumes "cli_main h args = (act, err)" and "act = InspectFile p o' json \<or> act = InspectDirectory p c o'"
  shows "path_exists h p \<and> (op_force_nbd o' \<longrightarrow> ''--force-nbd'' \<in> set args \<and> helper_warning \<in> set err)"
proof -
  obtain c' where c': "parse_args_from args = Ok c'"
    using assms by (auto simp: cli_main_def split: res.splits cli_stop.splits)
  then have main: "cc_target_path c' = Some p" "path_exists h p" "o' = cli_options c'"
      "err = (if cc_force_nbd c' then [helper_warning] else [])"
    using assms by (auto simp: cli_main_def Let_def split: option.splits if_splits)
  have "''--force-nbd'' \<in> set args" if "cc_force_nbd c'"
    using parse_force [of default_config args c'] c' that by (auto simp: parse_args_from_def default_config_def)
  then show ?thesis using main by (simp add: cli_options_def)
qed

theorem cli_helper_opt_in_witness:
  "cli_main small_host [''--force-nbd'', ''disk''] =
     (InspectFile ''disk'' (cli_options (default_config\<lparr>cc_target_path := Some ''disk'', cc_force_nbd := True\<rparr>)) False, [helper_warning]) \<and>
   path_exists small_host ''disk''"
proof -
  have m: "cli_main small_host [''--force-nbd'', ''disk''] =
     (InspectFile ''disk'' (cli_options (default_config\<lparr>cc_target_path := Some ''disk'', cc_force_nbd := True\<rparr>)) False, [helper_warning])"
    by code_simp
  show ?thesis using cli_helper_opt_in [OF m] m by blast
qed

end
