(* ===== verification/Batch.thy ===== *)
theory Batch
  imports Inspection Worker_Pool
begin

text \<open>
  The worker pools run inspections: \<open>inspect_batch\<close> and \<open>inspect_images\<close> of \<open>src/engine/mod.rs\<close> with
  the task they run, and the batch as a function of the bytes of its disks.
\<close>

section \<open>A batch of inspections\<close>

text \<open>One task of an uncancelled batch: a new engine with the batch's options inspects the image.\<close>

definition engine_work where
  "engine_work oc ie x nt h opts p r \<longleftrightarrow>
     r = fst (engine_inspect oc ie x nt h opts False p (new_engine (opts\<lparr>op_cancel_token := None\<rparr>)))"

text \<open>\<open>ConcurrentProcessor::inspect_images\<close> runs the same task in the other pool, without a progress record to
  report to.\<close>

definition inspect_images where
  "inspect_images oc ie x nt h opts paths c max_workers k r \<longleftrightarrow>
     (\<exists>p c'. process_in_parallel (engine_work oc ie x nt h opts) paths c new_progress max_workers k r p c')"

text \<open>The image at a path opens as a reader that shows a disk, and the partitions on it lie in the address
  space.\<close>

definition image_shows where
  "image_shows oc ie opts p img sz disk \<longleftrightarrow>
     (\<exists>md. host_metadata (ie_host ie) p = Ok md) \<and> identify_image oc (ie_host ie) p = Ok img \<and>
     (\<exists>rd tok. open_with_options_diagnostic oc (ie_host ie) (ie_resolved ie) (ie_nbd ie) img
        (opts\<lparr>op_cancel_token := None\<rparr>) = (Ok rd, tok) \<and> reader_live sz disk rd \<and> chunk_size_of opts rd \<le> 2 ^ 31) \<and>
     (\<forall>dd. fst (detect_with_progress oc (pure_driver sz disk) (\<lambda>u. u) ()) = Ok dd \<longrightarrow>
        (\<forall>q \<in> set (dd_partitions dd). pt_start q + pt_size q \<le> 2 ^ 64))"

lemma inspect_shown:
  assumes "image_shows oc ie opts p img sz disk"
  obtains r e' where "engine_inspect oc ie x nt h opts cb p (new_engine (opts\<lparr>op_cancel_token := None\<rparr>)) = (r, e')"
    "without_stats r = report_of_bytes oc x nt h sz disk opts img"
proof -
  let ?e = "new_engine (opts\<lparr>op_cancel_token := None\<rparr>)"
  have fresh: "eg_token ?e = None" "\<not> pr_cancelled (eg_progress ?e)"
    by (simp_all add: new_engine_def progress_with_token_def new_progress_def)
  obtain md rd tok where "host_metadata (ie_host ie) p = Ok md" "identify_image oc (ie_host ie) p = Ok img"
      "open_with_options_diagnostic oc (ie_host ie) (ie_resolved ie) (ie_nbd ie) img (opts\<lparr>op_cancel_token := None\<rparr>) = (Ok rd, tok)"
      "reader_live sz disk rd" "chunk_size_of opts rd \<le> 2 ^ 31"
      "\<forall>dd. fst (detect_with_progress oc (pure_driver sz disk) (\<lambda>u. u) ()) = Ok dd \<longrightarrow>
        (\<forall>q \<in> set (dd_partitions dd). pt_start q + pt_size q \<le> 2 ^ 64)"
    using assms unfolding image_shows_def by blast
  from inspect_with_reader [OF this(1,2) fresh this(3,4,6,5), of x nt h cb] show thesis using that by blast
qed

lemma engine_work_of_bytes:
  assumes "image_shows oc ie opts p img sz disk" "engine_work oc ie x nt h opts p r"
  shows "without_stats r = report_of_bytes oc x nt h sz disk opts img"
  using inspect_shown [OF assms(1), of x nt h False] assms(2) unfolding engine_work_def by (metis fst_conv)

lemma without_stats_cases:
  "without_stats (outcome_result v) = r \<Longrightarrow>
    map (\<lambda>rep. rep\<lparr>rp_stats := default_stats\<rparr>) (case v of Inr rep \<Rightarrow> [rep] | Inl _ \<Rightarrow> []) =
      (case r of Ok rep \<Rightarrow> [rep] | _ \<Rightarrow> []) \<and>
    (case v of Inl e \<Rightarrow> [ImageError p e] | Inr _ \<Rightarrow> []) = (case r of Err e \<Rightarrow> [ImageError p e] | _ \<Rightarrow> [])"
  by (cases v) (auto simp: without_stats_def)

lemma concat_positions:
  assumes "\<And>i. i < length xs \<Longrightarrow> f i = g (xs ! i)"
  shows "concat (map f [0..<length xs]) = concat (map g xs)"
proof -
  have "map f [0..<length xs] = map g xs" by (rule nth_equalityI) (simp_all add: assms)
  then show ?thesis by simp
qed

text \<open>What a specification of single images promises for a list of them.\<close>

definition reports_of :: "('p \<Rightarrow> ('e, 'r) res) \<Rightarrow> 'p list \<Rightarrow> 'r list" where
  "reports_of spec paths = concat (map (\<lambda>p. case spec p of Ok rep \<Rightarrow> [rep] | _ \<Rightarrow> []) paths)"

definition errors_of :: "(path \<Rightarrow> (vm_error, 'r) res) \<Rightarrow> path list \<Rightarrow> image_error list" where
  "errors_of spec paths = concat (map (\<lambda>p. case spec p of Err e \<Rightarrow> [ImageError p e] | _ \<Rightarrow> []) paths)"

lemma batch_of_bytes:
  assumes "inspect_batch (engine_work oc ie x nt h opts) paths mw None False False pr r pr' False a'"
    and "paths \<noteq> []" and "length paths < 2 ^ 64"
    and "\<forall>p \<in> set paths. image_shows oc ie opts p (img p) (sz p) (disk p)"
    and "\<forall>p \<in> set paths. report_of_bytes oc x nt h (sz p) (disk p) opts (img p) \<noteq> Panic"
  shows "\<exists>b. r = Ok b \<and>
    map (\<lambda>rep. rep\<lparr>rp_stats := default_stats\<rparr>) (br_reports b) =
      reports_of (\<lambda>p. report_of_bytes oc x nt h (sz p) (disk p) opts (img p)) paths \<and>
    br_errors b = errors_of (\<lambda>p. report_of_bytes oc x nt h (sz p) (disk p) opts (img p)) paths"
proof -
  let ?spec = "\<lambda>p. report_of_bytes oc x nt h (sz p) (disk p) opts (img p)"
  have spec: "without_stats q = ?spec p" if "p \<in> set paths" "engine_work oc ie x nt h opts p q" for p q
    using that assms(4) engine_work_of_bytes by blast
  have "\<forall>p \<in> set paths. \<not> engine_work oc ie x nt h opts p Panic"
  proof (intro ballI notI)
    fix p
    assume p: "p \<in> set paths" "engine_work oc ie x nt h opts p Panic"
    have "report_of_bytes oc x nt h (sz p) (disk p) opts (img p) = Panic" using spec [OF p] by (simp add: without_stats_def)
    then show False using p(1) assms(5) by blast
  qed
  then obtain vs where vs: "length vs = length paths" "r = Ok (batch_of (map (\<lambda>i. (i, paths ! i, vs ! i)) [0..<length paths]))"
      "\<And>i. i < length paths \<Longrightarrow> engine_work oc ie x nt h opts (paths ! i) (outcome_result (vs ! i))"
    using batch_results [OF assms(1) not_False_eq_True [THEN iffD2, OF TrueI] assms(3) _ assms(2)] by blast
  have "without_stats (outcome_result (vs ! i)) = ?spec (paths ! i)" if "i < length paths" for i
    using spec vs(3) that by simp
  note each = without_stats_cases [OF this]
  let ?b = "batch_of (map (\<lambda>i. (i, paths ! i, vs ! i)) [0..<length paths])"
  have "map (\<lambda>rep. rep\<lparr>rp_stats := default_stats\<rparr>) (br_reports ?b) =
      concat (map (\<lambda>i. map (\<lambda>rep. rep\<lparr>rp_stats := default_stats\<rparr>) (case vs ! i of Inr rep \<Rightarrow> [rep] | Inl _ \<Rightarrow> [])) [0..<length paths])"
    by (simp add: batch_of_def comp_def map_concat)
  also have "\<dots> = concat (map (\<lambda>p. case ?spec p of Ok rep \<Rightarrow> [rep] | _ \<Rightarrow> []) paths)"
    by (rule concat_positions) (rule conjunct1 [OF each])
  finally have reports: "map (\<lambda>rep. rep\<lparr>rp_stats := default_stats\<rparr>) (br_reports ?b) =
      concat (map (\<lambda>p. case ?spec p of Ok rep \<Rightarrow> [rep] | _ \<Rightarrow> []) paths)" .
  have "br_errors ?b = concat (map (\<lambda>i. case vs ! i of Inl e \<Rightarrow> [ImageError (paths ! i) e] | Inr _ \<Rightarrow> []) [0..<length paths])"
    by (simp add: batch_of_def comp_def)
  also have "\<dots> = concat (map (\<lambda>p. case ?spec p of Err e \<Rightarrow> [ImageError p e] | _ \<Rightarrow> []) paths)"
    by (rule concat_positions) (rule conjunct2 [OF each])
  finally show ?thesis using vs(2) reports unfolding reports_of_def errors_of_def by blast
qed

text \<open>A batch that is not cancelled has a schedule that ends with every worker joined.\<close>

lemma batch_runs:
  assumes "\<And>p. \<exists>q. work p q" "paths \<noteq> []"
  obtains b pr' where "inspect_batch work paths mw None False False pr (Ok b) pr' False False"
proof -
  let ?s = "start_pool (num_workers mw (length paths)) paths False (reset_for_batch (length paths) pr)"
  obtain s where s: "pool_reach work settle_batch ?s s" "all_stopped s" "\<not> pl_cancel s"
    using pool_finishes [of work settle_batch ?s, OF assms(1)] by (auto simp: start_pool_def)
  have "inspect_batch work paths mw None False False pr (Ok (batch_of (sorted_outcomes s))) (pl_progress s) (pl_cancel s) (drop_guard True)"
    by (rule inspect_batch.joined) (use s assms(2) in \<open>simp_all add: acquire_cases\<close>)
  then show thesis using that s(3) by (simp add: drop_guard_def)
qed

lemma engine_batch_runs:
  assumes "paths \<noteq> []"
  shows "\<exists>b pr'. inspect_batch (engine_work oc ie x nt h opts) paths mw None False False pr (Ok b) pr' False False"
proof -
  have total: "\<exists>q. engine_work oc ie x nt h opts p q" for p by (simp add: engine_work_def)
  show ?thesis by (rule batch_runs [where work = "engine_work oc ie x nt h opts" and paths = paths, OF total assms]) blast
qed

lemma small_shown: "image_shows True small_env default_options ''disk'' small_image 4 (\<lambda>_. 0)"
  unfolding image_shows_def using small_identified small_parts small_reader by metis

end
