(* ===== verification/Vmspect.thy ===== *)
theory Vmspect
  imports Cli Batch
begin

text \<open>
  The whole program: \<open>main\<close> of \<open>src/bin/vmspect.rs\<close> from the arguments to the exit status and the two
  output streams, with the inspection, the discovery and the batch it runs.  \<open>vmspect\<close> is a relation
  because a batch may be scheduled in many ways; the outcome \<open>None\<close> is a panic of the main thread.

  The environment \<open>ie\<close> holds the host, \<open>rd\<close> its directories, \<open>x\<close>, \<open>nt\<close> and \<open>h\<close> are the crates,
  \<open>tj\<close> and \<open>tjd\<close> the serializer on a report and on the document of a directory, \<open>ms\<close> the elapsed time,
  \<open>spawn\<close> the worker thread that cannot be created, if any.  Nothing cancels the run and no other
  operation holds the process-wide slot.
\<close>

section \<open>Running the program\<close>

definition vmspect_file where
  "vmspect_file oc ie x nt h tj ms p o' json = (run_file :: _ \<Rightarrow> _ \<Rightarrow> _ \<Rightarrow> _ \<Rightarrow> _ \<Rightarrow> _ \<Rightarrow> (unit, cli_output) res)
     tj (fst (engine_inspect oc ie x nt h o' False p (new_engine o')))
       (lib_inspect_with_progress oc ie x nt h o' p) ms p json"

definition of_run :: "string list \<Rightarrow> (unit, cli_output) res \<Rightarrow> cli_output option" where
  "of_run err r = (case r of Ok out \<Rightarrow> Some (out\<lparr>co_err := err @ co_err out\<rparr>) | _ \<Rightarrow> None)"

inductive vmspect for oc ie rd x nt h tj tjd ms spawn version where
  stop: "cli_main (ie_host ie) args = (Exit n, err) \<Longrightarrow>
    vmspect oc ie rd x nt h tj tjd ms spawn version args
      (Some \<lparr>co_exit = n, co_out = main_output version args, co_err = err\<rparr>)"
| inspect_one: "cli_main (ie_host ie) args = (InspectFile p o' json, err) \<Longrightarrow>
    vmspect oc ie rd x nt h tj tjd ms spawn version args (of_run err (vmspect_file oc ie x nt h tj ms p o' json))"
| list_only: "cli_main (ie_host ie) args = (InspectDirectory d c o', err) \<Longrightarrow>
    list_vms_with_options (ie_host ie) rd d (cli_discovery_options c) False = Some ((lr, hints), a) \<Longrightarrow>
    (\<And>disc. lr = Ok disc \<Longrightarrow> dp_images disc = []) \<Longrightarrow>
    vmspect oc ie rd x nt h tj tjd ms spawn version args
      (of_run err (run_directory tjd (\<lambda>_. (lr, hints)) (\<lambda>_ _ _. Panic) ms d c o'))"
| list_and_inspect: "cli_main (ie_host ie) args = (InspectDirectory d c o', err) \<Longrightarrow>
    list_vms_with_options (ie_host ie) rd d (cli_discovery_options c) False = Some ((Ok disc, hints), a) \<Longrightarrow>
    dp_images disc \<noteq> [] \<Longrightarrow>
    inspect_batch (engine_work oc ie x nt h (cli_batch_options c o')) (dp_images disc) (cli_workers c) spawn a False
      (eg_progress (new_engine (cli_batch_options c o'))) br pr False a' \<Longrightarrow>
    vmspect oc ie rd x nt h tj tjd ms spawn version args
      (of_run err (run_directory tjd (\<lambda>_. (Ok disc, hints)) (\<lambda>_ _ _. br) ms d c o'))"

inductive_cases vmspectE: "vmspect oc ie rd x nt h tj tjd ms spawn version args r"

section \<open>The dispatch\<close>

lemma cli_main_file:
  assumes "parse_args_from args = Ok c" "cc_target_path c = Some p" "path_is_file host p"
  obtains err where "cli_main host args = (InspectFile p (cli_options c) (cc_json_format c), err)"
  using assms by (auto simp: cli_main_def path_is_file_def path_exists_def is_ok_def Let_def split: res.splits)

lemma cli_main_directory:
  assumes "parse_args_from args = Ok c" "cc_target_path c = Some d" "path_is_dir host d" "\<not> path_is_file host d"
  obtains err where "cli_main host args = (InspectDirectory d c (cli_options c), err)"
  using assms by (auto simp: cli_main_def path_is_dir_def path_exists_def is_ok_def Let_def split: res.splits)

lemma cli_main_configured:
  assumes "parse_args_from args = Ok c" "cli_main host args = (act, err)"
  shows "(\<exists>n. act = Exit n \<and> n = 1) \<or> (\<exists>p. act = InspectFile p (cli_options c) (cc_json_format c)) \<or>
    (\<exists>d. act = InspectDirectory d c (cli_options c))"
  using assms by (auto simp: cli_main_def Let_def split: option.splits if_splits)

lemma main_output_configured: "parse_args_from args = Ok c \<Longrightarrow> main_output version args = []"
  by (simp add: main_output_def)

section \<open>Machine-readable output\<close>

text \<open>One document and success, or no output and failure.\<close>

definition document_or_failure :: "cli_output \<Rightarrow> bool" where
  "document_or_failure out \<longleftrightarrow>
     co_exit out = 0 \<and> length (co_out out) = 1 \<or> co_exit out = 1 \<and> co_out out = []"

lemma of_run_document:
  assumes "of_run err r = Some out" "\<And>o'. r = Ok o' \<Longrightarrow> document_or_failure o'"
  shows "document_or_failure out"
  using assms by (cases r) (auto simp: of_run_def document_or_failure_def)

lemma run_file_document: "run_file tj quiet loud ms p True = Ok out \<Longrightarrow> document_or_failure out"
  by (auto simp: run_file_def document_or_failure_def succeeded_def failed_def Let_def split: res.splits sum.splits)

lemma run_directory_document:
  "cc_json_format c \<Longrightarrow> run_directory tjd listed batch ms d c o' = Ok out \<Longrightarrow> document_or_failure out"
  by (auto simp: run_directory_def document_or_failure_def succeeded_def failed_def Let_def
      split: res.splits sum.splits prod.splits if_splits)

section \<open>Inspecting a file\<close>

text \<open>What is printed for a report.\<close>

definition shown_report where
  "shown_report tj ms p json rep err =
     (if json then (case tj rep of
          Inr s \<Rightarrow> \<lparr>co_exit = 0, co_out = [s], co_err = err\<rparr>
        | Inl e \<Rightarrow> \<lparr>co_exit = 1, co_out = [], co_err = err\<rparr>)
      else \<lparr>co_exit = 0, co_out = banner p @ print_human_report rep ms, co_err = err\<rparr>)"

lemma cli_options_uncancelled: "(cli_options c)\<lparr>op_cancel_token := None\<rparr> = cli_options c"
  by (simp add: cli_options_def default_options_def)

lemma vmspect_file_shown:
  assumes "image_shows oc ie (cli_options c) p img sz disk"
    and "report_of_bytes oc x nt h sz disk (cli_options c) img = Ok rep"
  obtains rep' err where "vmspect_file oc ie x nt h tj ms p (cli_options c) json = Ok (shown_report tj ms p json rep' err)"
    "rep'\<lparr>rp_stats := default_stats\<rparr> = rep"
proof -
  obtain r e' where r: "engine_inspect oc ie x nt h (cli_options c) (\<not> json) p (new_engine (cli_options c)) = (r, e')"
      "without_stats r = report_of_bytes oc x nt h sz disk (cli_options c) img"
    using inspect_shown [OF assms(1), of x nt h "\<not> json"] unfolding cli_options_uncancelled by blast
  then obtain rep' where rep': "r = Ok rep'" "rep'\<lparr>rp_stats := default_stats\<rparr> = rep"
    using assms(2) by (cases r) (auto simp: without_stats_def)
  have "\<exists>err. vmspect_file oc ie x nt h tj ms p (cli_options c) json = Ok (shown_report tj ms p json rep' err)"
    using r(1) rep'(1)
    by (cases json; cases "tj rep'")
      (auto simp: vmspect_file_def run_file_def lib_inspect_with_progress_def shown_report_def succeeded_def failed_def Let_def)
  then show thesis using that rep'(2) by blast
qed

lemma of_run_shown: "\<exists>err'. of_run e (Ok (shown_report tj ms p json rep err)) = Some (shown_report tj ms p json rep err')"
  by (auto simp: of_run_def shown_report_def split: sum.split)

text \<open>On a file there is one outcome.\<close>

lemma vmspect_on_file:
  assumes "cli_main (ie_host ie) args = (InspectFile p o' json, err)"
  shows "vmspect oc ie rd x nt h tj tjd ms spawn version args r \<longleftrightarrow> r = of_run err (vmspect_file oc ie x nt h tj ms p o' json)"
  using assms by (auto elim!: vmspectE intro: vmspect.inspect_one)

lemma vmspect_file_outcome:
  fixes p :: path
  assumes "parse_args_from args = Ok c" "cc_target_path c = Some p" "path_is_file (ie_host ie) p"
    and "image_shows oc ie (cli_options c) p img sz disk"
    and "report_of_bytes oc x nt h sz disk (cli_options c) img = Ok rep"
  shows "\<exists>rep' err. rep'\<lparr>rp_stats := default_stats\<rparr> = rep \<and>
    (\<forall>r. vmspect oc ie rd x nt h tj tjd ms spawn version args r \<longleftrightarrow> r = Some (shown_report tj ms p (cc_json_format c) rep' err))"
proof -
  obtain e where main: "cli_main (ie_host ie) args = (InspectFile p (cli_options c) (cc_json_format c), e)"
    using cli_main_file [OF assms(1-3)] by blast
  obtain rep' err where "vmspect_file oc ie x nt h tj ms p (cli_options c) (cc_json_format c) =
      Ok (shown_report tj ms p (cc_json_format c) rep' err)" "rep'\<lparr>rp_stats := default_stats\<rparr> = rep"
    using vmspect_file_shown [OF assms(4,5)] by blast
  moreover obtain err' where "of_run e (Ok (shown_report tj ms p (cc_json_format c) rep' err)) =
      Some (shown_report tj ms p (cc_json_format c) rep' err')" using of_run_shown by blast
  ultimately show ?thesis by (intro exI [of _ rep'] exI [of _ err']) (simp add: vmspect_on_file [OF main])
qed

section \<open>Inspecting a directory\<close>

text \<open>The document of a directory, as it is printed.\<close>

definition shown_documents where
  "shown_documents tjd doc err = (case tjd doc of
       Inr s \<Rightarrow> \<lparr>co_exit = 0, co_out = [s], co_err = err\<rparr>
     | Inl e \<Rightarrow> \<lparr>co_exit = 1, co_out = [], co_err = err\<rparr>)"

lemma vmspect_on_directory:
  assumes "cli_main (ie_host ie) args = (InspectDirectory d c o', err)"
    and "list_vms_with_options (ie_host ie) rd d (cli_discovery_options c) False = Some ((Ok disc, hints), a)"
    and "dp_images disc \<noteq> []"
    and "vmspect oc ie rd x nt h tj tjd ms spawn version args r"
  obtains br pr a' where "inspect_batch (engine_work oc ie x nt h (cli_batch_options c o')) (dp_images disc) (cli_workers c)
      spawn a False (eg_progress (new_engine (cli_batch_options c o'))) br pr False a'"
    "r = of_run err (run_directory tjd (\<lambda>_. (Ok disc, hints)) (\<lambda>_ _ _. br) ms d c o')"
  using assms(4) assms(1-3) by (cases rule: vmspectE) auto

lemma run_directory_full:
  assumes "cc_json_format c" "cc_full_report c" "dp_images disc \<noteq> []"
  shows "\<exists>err'. of_run err (run_directory tjd (\<lambda>_. (Ok disc, hints)) (\<lambda>_ _ _. Ok b) ms d c o') =
    Some (shown_documents tjd (FullJson (br_reports b) (br_errors b) (dp_warnings disc) (dp_inaccessible disc)) err')"
  using assms
  by (cases "tjd (FullJson (br_reports b) (br_errors b) (dp_warnings disc) (dp_inaccessible disc))")
    (auto simp: run_directory_def of_run_def shown_documents_def succeeded_def failed_def)

lemma batch_options_full: "cc_full_report c \<Longrightarrow> cli_batch_options c o' = o'"
  by (simp add: cli_batch_options_def)

lemma listed_tree:
  assumes "names_ok rd" "height_le rd opts n 0 d" "dir_readable rd d" "validate_discovery_root host d = Ok ()"
  obtains disc hints where "list_vms_with_options host rd d opts False = Some ((Ok disc, hints), False)"
    "mset (dp_images disc) = mset (concat (map (dir_images rd) (tree_dirs rd opts n 0 d)))"
    "sorted (map path_key (dp_images disc))"
    "mset (dp_inaccessible disc) = mset (filter (\<lambda>q. \<not> dir_readable rd q) (tree_dirs rd opts n 0 d))"
proof -
  obtain disc where disc: "discover host rd d opts = Some (Ok disc,
        if do_emit_warnings opts then map (\<lambda>m. ''Warning: '' @ m) (dp_warnings disc) else [])"
      "mset (dp_images disc) = mset (concat (map (dir_images rd) (tree_dirs rd opts n 0 d)))"
      "sorted (map path_key (dp_images disc))"
      "mset (dp_inaccessible disc) = mset (filter (\<lambda>q. \<not> dir_readable rd q) (tree_dirs rd opts n 0 d))"
    using discover_tree [OF assms] by blast
  show thesis by (rule that [OF _ disc(2-4)]) (simp add: list_vms_with_options_def disc(1))
qed

text \<open>A directory with images is inspected to the end under some schedule, and under every schedule its
  document is that of a batch over the images.\<close>

lemma vmspect_directory_runs:
  assumes "cli_main (ie_host ie) args = (InspectDirectory d c o', err)"
    and "list_vms_with_options (ie_host ie) rd d (cli_discovery_options c) False = Some ((Ok disc, hints), False)"
    and "dp_images disc \<noteq> []"
  shows "\<exists>r. vmspect oc ie rd x nt h tj tjd ms None version args r"
proof -
  obtain b pr' where "inspect_batch (engine_work oc ie x nt h (cli_batch_options c o')) (dp_images disc) (cli_workers c) None
      False False (eg_progress (new_engine (cli_batch_options c o'))) (Ok b) pr' False False"
    using engine_batch_runs [OF assms(3)] by blast
  from vmspect.list_and_inspect [OF assms this] show ?thesis by blast
qed

lemma vmspect_directory_document:
  assumes "cli_main (ie_host ie) args = (InspectDirectory d c (cli_options c), err)" "cc_json_format c" "cc_full_report c"
    and "list_vms_with_options (ie_host ie) rd d (cli_discovery_options c) False = Some ((Ok disc, hints), False)"
    and "dp_images disc \<noteq> []" "length (dp_images disc) < 2 ^ 64"
    and "\<forall>p \<in> set (dp_images disc). image_shows oc ie (cli_options c) p (img p) (sz p) (disk p)"
    and "\<forall>p \<in> set (dp_images disc). report_of_bytes oc x nt h (sz p) (disk p) (cli_options c) (img p) \<noteq> Panic"
    and "vmspect oc ie rd x nt h tj tjd ms None version args r"
  obtains reps err' where
    "r = Some (shown_documents tjd (FullJson reps
        (errors_of (\<lambda>p. report_of_bytes oc x nt h (sz p) (disk p) (cli_options c) (img p)) (dp_images disc))
        (dp_warnings disc) (dp_inaccessible disc)) err')"
    "map (\<lambda>rep. rep\<lparr>rp_stats := default_stats\<rparr>) reps =
      reports_of (\<lambda>p. report_of_bytes oc x nt h (sz p) (disk p) (cli_options c) (img p)) (dp_images disc)"
proof -
  have opts: "cli_batch_options c (cli_options c) = cli_options c" by (rule batch_options_full [OF assms(3)])
  obtain br pr a' where
    run: "inspect_batch (engine_work oc ie x nt h (cli_options c)) (dp_images disc) (cli_workers c) None False False
      (eg_progress (new_engine (cli_options c))) br pr False a'"
    and r: "r = of_run err (run_directory tjd (\<lambda>_. (Ok disc, hints)) (\<lambda>_ _ _. br) ms d c (cli_options c))"
    using vmspect_on_directory [OF assms(1,4,5,9)] unfolding opts by blast
  obtain b where b: "br = Ok b"
      "map (\<lambda>rep. rep\<lparr>rp_stats := default_stats\<rparr>) (br_reports b) =
        reports_of (\<lambda>p. report_of_bytes oc x nt h (sz p) (disk p) (cli_options c) (img p)) (dp_images disc)"
      "br_errors b = errors_of (\<lambda>p. report_of_bytes oc x nt h (sz p) (disk p) (cli_options c) (img p)) (dp_images disc)"
    using batch_of_bytes [OF run assms(5-8)] by blast
  obtain err' where "r = Some (shown_documents tjd (FullJson (br_reports b) (br_errors b) (dp_warnings disc) (dp_inaccessible disc)) err')"
    using run_directory_full [OF assms(2,3,5), of err tjd hints b ms d "cli_options c"] r b(1) by blast
  then show thesis using that b(2,3) by simp
qed

section \<open>A small directory\<close>

text \<open>A directory with one raw image of four zero bytes.\<close>

definition tree_env :: inspect_env where
  "tree_env = small_env\<lparr>ie_host := small_host\<lparr>h_meta := (\<lambda>p. Inr (if p = ''/v''
     then \<lparr>md_is_file = False, md_is_dir = True, md_len = 0\<rparr> else \<lparr>md_is_file = True, md_is_dir = False, md_len = 4\<rparr>))\<rparr>\<rparr>"

definition one_image :: dir_reader where
  "one_image p = (if p = ''/v'' then Inr [sample_file ''a.raw'' 4] else Inl (IoError NotFound ''none''))"

definition tree_image :: image_info where
  "tree_image = small_image\<lparr>im_path := ''/v/a.raw''\<rparr>"

definition tree_config :: cli_config where
  "tree_config = default_config\<lparr>cc_json_format := True, cc_full_report := True, cc_target_path := Some ''/v''\<rparr>"

text \<open>Serializers that print the paths of the images, and one that fails.\<close>

definition path_json :: "report \<Rightarrow> string + string" where
  "path_json rep = Inr (im_path (rp_image rep))"

definition paths_json :: "directory_json \<Rightarrow> string + string" where
  "paths_json doc = (case doc of FullJson reps bad w closed \<Rightarrow> Inr (concat (map (im_path \<circ> rp_image) reps)) | _ \<Rightarrow> Inr ''other'')"

definition failing_json :: "report \<Rightarrow> string + string" where
  "failing_json rep = Inl ''not serializable''"

lemma tree_args: "parse_args_from [''--json'', ''--full-report'', ''/v''] = Ok tree_config"
  by code_simp

lemma file_args: "parse_args_from [''--json'', ''disk''] = Ok (default_config\<lparr>cc_json_format := True, cc_target_path := Some ''disk''\<rparr>)"
  by code_simp

lemma plain_options:
  "cli_options tree_config = default_options"
  "cli_options (default_config\<lparr>cc_json_format := True, cc_target_path := Some p\<rparr>) = default_options"
  by (simp_all add: cli_options_def tree_config_def default_config_def default_options_def)

lemma small_is_file: "path_is_file (ie_host small_env) ''disk''"
  by code_simp

lemma tree_is_dir: "path_is_dir (ie_host tree_env) ''/v''" "\<not> path_is_file (ie_host tree_env) ''/v''"
  by code_simp+

lemma tree_listed:
  "names_ok one_image" "height_le one_image (cli_discovery_options tree_config) 0 0 ''/v''" "dir_readable one_image ''/v''"
  "validate_discovery_root (ie_host tree_env) ''/v'' = Ok ()"
  "concat (map (dir_images one_image) (tree_dirs one_image (cli_discovery_options tree_config) 0 0 ''/v'')) = [''/v/a.raw'']"
proof -
  show "names_ok one_image" by (auto simp: names_ok_def one_image_def sample_file_def valid_name_def split: if_splits)
qed code_simp+

lemma tree_shown: "image_shows True tree_env default_options ''/v/a.raw'' tree_image 4 (\<lambda>_. 0)"
proof -
  let ?f = "fresh_file (replicate 4 0)"
  have f: "f_data ?f = replicate 4 0" by (simp add: fresh_file_def)
  have "host_metadata (ie_host tree_env) ''/v/a.raw'' = Ok \<lparr>md_is_file = True, md_is_dir = False, md_len = 4\<rparr>"
    "identify_image True (ie_host tree_env) ''/v/a.raw'' = Ok tree_image"
    by code_simp+
  moreover have "open_read_file (ie_host tree_env) (im_path tree_image) = Ok ?f"
    by (simp add: open_read_file_def tree_env_def small_host_def)
  then obtain rd where "open_with_options_diagnostic True (ie_host tree_env) (ie_resolved tree_env) (ie_nbd tree_env) tree_image
      (default_options\<lparr>op_cancel_token := None\<rparr>) = (Ok rd, None)" "reader_live 4 (\<lambda>_. 0) rd" "dk_backend rd = RawFile ?f"
    by (rule raw_reader_live [where o' = "default_options\<lparr>op_cancel_token := None\<rparr>" and oc = True and img = tree_image
        and h = "ie_host tree_env" and resolved = "ie_resolved tree_env" and env = "ie_nbd tree_env" and f = ?f])
      (simp_all add: f small_disk tree_image_def small_image_def default_options_def)
  moreover from this(3) have "chunk_size_of default_options rd \<le> 2 ^ 31"
    by (simp add: default_options_def chunk_size_of_def recommended_chunk_size_def)
  ultimately show ?thesis unfolding image_shows_def using small_parts by blast
qed

lemma tree_of_bytes: "\<exists>rep. report_of_bytes True x nt h 4 (\<lambda>_. 0) default_options tree_image = Ok rep \<and> rp_image rep = tree_image"
  by (simp add: report_of_bytes_def guest_of_bytes_def zero_detect [simplified] get_inspector_def unknown_analyze_def io_bind_def
      io_map_err_def default_options_def should_analyze_system_def tree_image_def small_image_def)

end
