(* ===== verification/Nbd_Process.thy ===== *)
theory Nbd_Process
  imports Nbd
begin

text \<open>
  \<open>src/vms/nbd.rs\<close>: the helper process of an NBD session, with the clock.

  \<open>Nbd\<close> runs \<open>open_with_options\<close> over a scripted environment.  Here the same function and
  the destructor of \<open>NbdReader\<close> run on a host with a clock in milliseconds, a child process
  whose status is a function of the time and of the moment it was killed, connection attempts that
  take time, and a log of what the session does to the host: permit, socket file, process and
  connection.  The polling loops are recursive functions that end because sleeping moves the clock.

  The log is judged by \<open>lifecycle\<close>, the protocol every session has to follow: no process
  without a permit, only a read-only helper, no permit returned while the process has neither been
  seen to exit nor been killed, no socket file removed under a live process.  The laws show that a
  session follows it from the first step to the last, that the cleanup loop is bounded, and that
  every timed run is a run of \<open>nbd_open\<close>.
\<close>

section \<open>The host\<close>

definition DEFAULT_NBD_TIMEOUT :: nat where
  "DEFAULT_NBD_TIMEOUT = 3000"

definition PROCESS_CLEANUP_TIMEOUT :: nat where
  "PROCESS_CLEANUP_TIMEOUT = 200"

datatype nbd_effect = PermitTaken | SocketRemoved path | Spawned "string list" | SawExit
  | KilledChild | Disconnected | PermitReleased

text \<open>What one address of the server gives: the attempt fails, the socket cannot be configured, or
  the connection is there.\<close>

datatype dialled = DialFailed io_error | NoDelayFailed io_error | Dialled transport

text \<open>\<open>nh_waits\<close> are the times spent waiting for a session slot, one for each time none is free.
  \<open>nh_lag\<close> is the time the scheduler adds to a pause.  \<open>nh_child\<close> is the answer
  of \<open>try_wait\<close> for the time the process was killed, if it was, and the time of the call.
  \<open>nh_resolve\<close> gives the addresses of a host name with the duration and the outcome of
  each attempt, \<open>nh_unix\<close> those of a socket path, \<open>nh_handshake\<close> the duration of
  the handshake.\<close>

record nbd_host =
  nh_now :: nat
  nh_lag :: "nat \<Rightarrow> nat"
  nh_child :: "nat option \<Rightarrow> nat \<Rightarrow> child_status"
  nh_killed :: "nat option"
  nh_stderr :: "string option"
  nh_waits :: "nat list"
  nh_port :: "io_error + nat"
  nh_spawn :: "io_error + unit"
  nh_resolve :: "string \<Rightarrow> nat \<Rightarrow> io_error + (nat \<times> dialled) list"
  nh_unix :: "path \<Rightarrow> nat \<Rightarrow> (io_error + transport) \<times> nat"
  nh_handshake :: "nat \<Rightarrow> nat"
  nh_log :: "nbd_effect list"

definition log_effect :: "nbd_effect \<Rightarrow> nbd_host \<Rightarrow> nbd_host" where
  "log_effect e h = h\<lparr>nh_log := nh_log h @ [e]\<rparr>"

definition elapse :: "nat \<Rightarrow> nbd_host \<Rightarrow> nbd_host" where
  "elapse d h = h\<lparr>nh_now := nh_now h + d\<rparr>"

definition sleep :: "nat \<Rightarrow> nbd_host \<Rightarrow> nbd_host" where
  "sleep d h = elapse (d + nh_lag h (nh_now h)) h"

text \<open>Waiting for a process that has exited also removes it from the process table.\<close>

definition try_wait :: "nbd_host \<Rightarrow> child_status \<times> nbd_host" where
  "try_wait h = (case nh_child h (nh_killed h) (nh_now h) of
       Exited c \<Rightarrow> (Exited c, log_effect SawExit h)
     | s \<Rightarrow> (s, h))"

definition kill_child :: "nbd_host \<Rightarrow> nbd_host" where
  "kill_child h = log_effect KilledChild
     (h\<lparr>nh_killed := Some (case nh_killed h of None \<Rightarrow> nh_now h | Some t \<Rightarrow> t)\<rparr>)"

definition read_child_stderr :: "nbd_host \<Rightarrow> string \<times> nbd_host" where
  "read_child_stderr h = (case nh_stderr h of None \<Rightarrow> [] | Some s \<Rightarrow> trim s, h\<lparr>nh_stderr := None\<rparr>)"

lemma nh_now_simps [simp]:
  "nh_now (log_effect e h) = nh_now h" "nh_now (elapse d h) = nh_now h + d"
  "nh_now (sleep d h) = nh_now h + d + nh_lag h (nh_now h)"
  "nh_now (kill_child h) = nh_now h" "nh_now (snd (try_wait h)) = nh_now h"
  "nh_now (snd (read_child_stderr h)) = nh_now h"
  by (simp_all add: log_effect_def elapse_def sleep_def kill_child_def try_wait_def read_child_stderr_def
      split: child_status.split)

section \<open>Ending the process\<close>

function reap_until :: "nat \<Rightarrow> nbd_host \<Rightarrow> bool \<times> nbd_host" where
  "reap_until deadline h =
     (case try_wait h of
        (Exited _, h') \<Rightarrow> (True, h')
      | (_, h') \<Rightarrow> if nh_now h < deadline then reap_until deadline (sleep 10 h) else (False, h'))"
  by pat_completeness auto
termination by (relation "measure (\<lambda>(d, h). d - nh_now h)") auto

declare reap_until.simps [simp del]

definition terminate_and_reap :: "nbd_host \<Rightarrow> bool \<times> nbd_host" where
  "terminate_and_reap h = (case try_wait h of
       (Exited _, h') \<Rightarrow> (True, h')
     | (_, h') \<Rightarrow> let h'' = kill_child h' in reap_until (nh_now h'' + PROCESS_CLEANUP_TIMEOUT) h'')"

definition terminate_and_collect_stderr :: "nbd_host \<Rightarrow> string \<times> nbd_host" where
  "terminate_and_collect_stderr h = (case terminate_and_reap h of
       (True, h') \<Rightarrow> read_child_stderr h'
     | (False, h') \<Rightarrow> ([], h'))"

section \<open>Connecting\<close>

datatype nbd_transport = TcpTransport string | UnixTransport path

definition unix_socket :: "nbd_transport \<Rightarrow> path option" where
  "unix_socket tr = (case tr of UnixTransport p \<Rightarrow> Some p | TcpTransport _ \<Rightarrow> None)"

definition timed_handshake :: "transport \<Rightarrow> nbd_host \<Rightarrow> (io_error, nbd_stream) res \<times> nbd_host" where
  "timed_handshake t h = (fst (handshake t), elapse (nh_handshake h (nh_now h)) h)"

fun dial_addresses :: "nat \<Rightarrow> (nat \<times> dialled) list \<Rightarrow> io_error option \<Rightarrow> nbd_host
    \<Rightarrow> (io_error, nbd_stream) res \<times> nbd_host" where
  "dial_addresses deadline [] last_error h =
     (Err (case last_error of Some e \<Rightarrow> e
           | None \<Rightarrow> IoError AddrNotAvailable ''NBD address did not resolve''), h)"
| "dial_addresses deadline ((d, answer) # rest) last_error h =
     (if deadline \<le> nh_now h then (Err (timed_out ''connecting to NBD server''), h)
      else (case answer of
          Dialled t \<Rightarrow> timed_handshake t (elapse d h)
        | NoDelayFailed e \<Rightarrow> (Err e, elapse d h)
        | DialFailed e \<Rightarrow> dial_addresses deadline rest (Some e) (elapse d h)))"

definition connect_tcp_with_timeouts ::
    "string \<Rightarrow> nat \<Rightarrow> nbd_host \<Rightarrow> (io_error, nbd_stream) res \<times> nbd_host" where
  "connect_tcp_with_timeouts address handshake_timeout h =
     (case nh_resolve h address (nh_now h) of
        Inr addresses \<Rightarrow> dial_addresses (nh_now h + handshake_timeout) addresses None h
      | Inl e \<Rightarrow> (Err e, h))"

definition connect_unix_with_timeouts ::
    "path \<Rightarrow> nat \<Rightarrow> nbd_host \<Rightarrow> (io_error, nbd_stream) res \<times> nbd_host" where
  "connect_unix_with_timeouts p handshake_timeout h =
     (case nh_unix h p (nh_now h) of
        (Inr t, d) \<Rightarrow> timed_handshake t (elapse d h)
      | (Inl e, d) \<Rightarrow> (Err e, elapse d h))"

definition nbd_connect :: "nbd_transport \<Rightarrow> nat \<Rightarrow> nbd_host \<Rightarrow> (io_error, nbd_stream) res \<times> nbd_host" where
  "nbd_connect tr deadline h =
     (if deadline \<le> nh_now h then (Err (timed_out ''connecting to qemu-nbd''), h)
      else (case tr of
          UnixTransport p \<Rightarrow> connect_unix_with_timeouts p (deadline - nh_now h) h
        | TcpTransport address \<Rightarrow> connect_tcp_with_timeouts address (deadline - nh_now h) h))"

lemma dial_addresses_elapses: "\<exists>d. snd (dial_addresses deadline as le h) = elapse d h"
proof (induction deadline as le h rule: dial_addresses.induct)
  case (1 deadline le h)
  have "h = elapse 0 h" by (simp add: elapse_def)
  then show ?case by (metis dial_addresses.simps(1) snd_conv)
next
  case (2 deadline d answer rest le h)
  have idle: "h = elapse 0 h" by (simp add: elapse_def)
  have add: "elapse b (elapse a h) = elapse (a + b) h" for a b by (simp add: elapse_def add.assoc)
  show ?case
  proof (cases "deadline \<le> nh_now h")
    case True
    then show ?thesis using idle by auto
  next
    case False
    show ?thesis
      using 2 [OF False] False
      by (cases answer) (auto simp: timed_handshake_def add)
  qed
qed

text \<open>The protocol code does not panic.\<close>

lemma read_exact_until_returns: "fst (read_exact_until ctx n t) \<noteq> Panic"
proof (induction ctx n t rule: read_exact_until.induct)
  case (1 ctx n t)
  show ?case
  proof (cases "n = 0")
    case True
    then show ?thesis by (simp add: read_exact_until.simps)
  next
    case False
    have "fst (recv_some ctx n t) \<noteq> Panic" "fst (recv_some ctx n t) \<noteq> Ok (Some [])"
      by (auto simp: recv_some_def Let_def split: list.split net_event.split)
    moreover obtain r t' where rt: "recv_some ctx n t = (r, t')" by fastforce
    moreover have "fst (read_exact_until ctx (n - length bs) t') \<noteq> Panic" if "r = Ok (Some bs)" "bs \<noteq> []" for bs
      using 1 [OF False, of r t' "Some bs" bs] rt that by simp
    ultimately show ?thesis
      using False
      by (cases "\<exists>bs. r = Ok (Some bs)")
        (auto simp: read_exact_until.simps [of ctx n] case_prod_beta split: option.splits res.splits)
  qed
qed

lemma write_all_until_returns: "fst (write_all_until ctx bs t) \<noteq> Panic"
proof (induction ctx bs t rule: write_all_until.induct)
  case (1 ctx bs t)
  show ?case
  proof (cases "bs = []")
    case True
    then show ?thesis by (simp add: write_all_until.simps flush_transport_def split: list.split net_event.split)
  next
    case False
    have "fst (send_some ctx bs t) \<noteq> Panic"
      by (auto simp: send_some_def split: list.split net_event.split)
    then show ?thesis
      using 1 [OF False] False
      by (cases "send_some ctx bs t"; cases "fst (send_some ctx bs t)") (auto simp: write_all_until.simps [of ctx bs])
  qed
qed

lemma io_bind_returns: "fst (m w) \<noteq> Panic \<Longrightarrow> (\<And>x w'. fst (f x w') \<noteq> Panic) \<Longrightarrow> fst (io_bind m f w) \<noteq> Panic"
  by (auto simp: io_bind_def split: prod.split res.split)

lemma handshake_returns: "fst (handshake t) \<noteq> Panic"
  by (simp add: handshake_def io_bind_returns read_exact_until_returns write_all_until_returns io_err_def)

lemma dial_addresses_returns: "fst (dial_addresses deadline as le h) \<noteq> Panic"
  by (induction deadline as le h rule: dial_addresses.induct)
    (simp_all add: timed_handshake_def handshake_returns split: dialled.split)

lemma connect_returns: "fst (nbd_connect tr deadline h) \<noteq> Panic"
  by (auto simp: nbd_connect_def connect_unix_with_timeouts_def connect_tcp_with_timeouts_def timed_handshake_def
      handshake_returns dial_addresses_returns split: nbd_transport.split sum.split prod.split)

text \<open>A connection attempt only takes time.\<close>

lemma connect_elapses: "\<exists>d. snd (nbd_connect tr deadline h) = elapse d h"
proof -
  have idle: "h = elapse 0 h" by (simp add: elapse_def)
  have add: "elapse b (elapse a h) = elapse (a + b) h" for a b by (simp add: elapse_def add.assoc)
  show ?thesis
    using idle
    by (auto simp: nbd_connect_def connect_unix_with_timeouts_def connect_tcp_with_timeouts_def timed_handshake_def add
        intro: dial_addresses_elapses split: nbd_transport.split sum.split prod.split)
qed

lemma connect_takes_time: "nbd_connect tr deadline h = (r, h') \<Longrightarrow> \<exists>d. h' = elapse d h"
  by (metis connect_elapses snd_conv)

lemma connect_now_mono: "nbd_connect tr deadline h = (r, h') \<Longrightarrow> nh_now h \<le> nh_now h'"
  by (auto dest: connect_takes_time)

section \<open>Opening a session\<close>

text \<open>\<open>NbdReader::open_with_options\<close> from the start of the process on.  The last check of the
  process and the report of the timeout are those after the loop.\<close>

definition give_up :: "path \<Rightarrow> io_error option \<Rightarrow> nbd_host \<Rightarrow> io_error \<times> nbd_host" where
  "give_up p last_error h = (case try_wait h of
       (Exited c, h') \<Rightarrow> (case read_child_stderr h' of (stderr, h'') \<Rightarrow>
          (IoError ConnectionRefused (nbd_exit_message p c stderr), h''))
     | (_, h') \<Rightarrow> (case terminate_and_collect_stderr h' of (stderr, h'') \<Rightarrow>
          (IoError TimedOut (with_stderr
            (''Timed out waiting for qemu-nbd '' @ quoted p @ '' to accept connections'') stderr
            @ (case last_error of None \<Rightarrow> [] | Some e \<Rightarrow> ''; last connection error: '' @ io_text e)), h'')))"

function connect_loop :: "path \<Rightarrow> nbd_transport \<Rightarrow> nat \<Rightarrow> io_error option \<Rightarrow> token \<Rightarrow> nbd_host
    \<Rightarrow> (io_error, nbd_stream) res \<times> token \<times> nbd_host" where
  "connect_loop p tr deadline last_error tok h =
     (if nh_now h < deadline then
        (case load_token tok of
           (True, tok') \<Rightarrow> (Err (IoError Interrupted ''Inspection cancelled''), tok', snd (terminate_and_reap h))
         | (False, tok') \<Rightarrow> (case try_wait h of
             (Exited c, h1) \<Rightarrow> (case read_child_stderr h1 of (stderr, h2) \<Rightarrow>
                (Err (IoError ConnectionRefused (nbd_exit_message p c stderr)), tok', h2))
           | (StatusError e, h1) \<Rightarrow> (case terminate_and_collect_stderr h1 of (stderr, h2) \<Rightarrow>
                (Err (IoError OtherKind (with_stderr
                  (''Could not query qemu-nbd '' @ quoted p @ '' process status: '' @ io_text e) stderr)), tok', h2))
           | (Running, h1) \<Rightarrow> (case nbd_connect tr deadline h1 of
                (Ok s, h2) \<Rightarrow> (Ok s, tok', h2)
              | (Panic, h2) \<Rightarrow> (Panic, tok', h2)
              | (Err e, h2) \<Rightarrow>
                  if retryable (kind_of e) then connect_loop p tr deadline (Some e) tok' (sleep 50 h2)
                  else (case terminate_and_collect_stderr h2 of (stderr, h3) \<Rightarrow>
                    (Err (IoError (kind_of e) (with_stderr
                      (''qemu-nbd '' @ quoted p @ '' NBD handshake failed: '' @ io_text e) stderr)), tok', h3)))))
      else (case give_up p last_error h of (e, h') \<Rightarrow> (Err e, tok, h')))"
  by pat_completeness auto
termination
proof (relation "measure (\<lambda>(p, tr, deadline, le, tok, h). deadline - nh_now h)", goal_cases)
  case (2 p tr deadline le tok h b tok' s h1 r h2 e)
  have "nh_now h1 = nh_now h" by (metis 2(4) nh_now_simps(5) snd_conv)
  moreover have "nh_now h1 \<le> nh_now h2" by (metis 2 connect_now_mono)
  ultimately show ?case using 2(1) by simp
qed simp

declare connect_loop.simps [simp del]

record nbd_reader =
  nr_client :: nbd_stream
  nr_unix_socket :: "path option"

text \<open>The choice of the transport: an old socket file is removed, or a free port is asked for.\<close>

definition choose_transport :: "options \<Rightarrow> nbd_host \<Rightarrow> (io_error + nbd_transport \<times> nat) \<times> nbd_host" where
  "choose_transport o' h = (case op_unix_socket o' of
       Some p \<Rightarrow> (Inr (UnixTransport p, 0), log_effect (SocketRemoved p) h)
     | None \<Rightarrow> (case nh_port h of Inl e \<Rightarrow> Inl e
         | Inr port \<Rightarrow> Inr (TcpTransport (''127.0.0.1:'' @ dec_str port), port), h))"

text \<open>\<open>NbdSessionPermit::acquire\<close>: one round for every time the count is found at the limit.\<close>

fun acquire_slot :: "nat \<Rightarrow> nat list \<Rightarrow> token \<Rightarrow> nbd_host \<Rightarrow> (io_error + unit) \<times> token \<times> nbd_host" where
  "acquire_slot deadline [] tok h = (Inr (), tok, log_effect PermitTaken h)"
| "acquire_slot deadline (d # waits) tok h = (case load_token tok of
       (True, tok') \<Rightarrow> (Inl (IoError Interrupted ''Inspection cancelled''), tok', h)
     | (False, tok') \<Rightarrow>
         if deadline \<le> nh_now h then (Inl (timed_out ''waiting for an NBD session slot''), tok', h)
         else acquire_slot deadline waits tok' (elapse d h))"

text \<open>What follows the permit.  A return before the reader is built drops it.\<close>

definition start_helper :: "path \<Rightarrow> image_info \<Rightarrow> options \<Rightarrow> nat \<Rightarrow> token \<Rightarrow> nbd_host
    \<Rightarrow> (io_error, nbd_reader) res \<times> token \<times> nbd_host" where
  "start_helper p info o' deadline tok h = (case choose_transport o' h of
       (Inl e, h1) \<Rightarrow> (Err e, tok, log_effect PermitReleased h1)
     | (Inr (tr, port), h1) \<Rightarrow> (case nh_spawn h1 of
         Inl e \<Rightarrow> (Err (IoError OtherKind (''Could not start qemu-nbd ('' @ p @ ''): '' @ io_text e)), tok,
           log_effect PermitReleased h1)
       | Inr _ \<Rightarrow> (case connect_loop p tr deadline None tok (log_effect (Spawned (nbd_args o' info port)) h1) of
           (Ok s, tok', h2) \<Rightarrow> (Ok \<lparr>nr_client = s, nr_unix_socket = unix_socket tr\<rparr>, tok', h2)
         | (Err e, tok', h2) \<Rightarrow> (Err e, tok', log_effect PermitReleased h2)
         | (Panic, tok', h2) \<Rightarrow> (Panic, tok', log_effect PermitReleased h2))))"

definition nbd_open_timed :: "path \<Rightarrow> image_info \<Rightarrow> options \<Rightarrow> nbd_host
    \<Rightarrow> (io_error, nbd_reader) res \<times> token \<times> nbd_host" where
  "nbd_open_timed p info o' h = (case load_token (op_cancel_token o') of
       (True, tok) \<Rightarrow> (Err (IoError Interrupted ''Inspection cancelled by the user''), tok, h)
     | (False, tok) \<Rightarrow>
        (let deadline = nh_now h + (case op_connection_timeout o' of Some t \<Rightarrow> t | None \<Rightarrow> DEFAULT_NBD_TIMEOUT)
         in case acquire_slot deadline (nh_waits h) tok h of
           (Inl e, tok', h') \<Rightarrow> (Err e, tok', h')
         | (Inr _, tok', h') \<Rightarrow> start_helper p info o' deadline tok' h'))"

text \<open>\<open>NbdReader::open\<close>.\<close>

definition nbd_open_default :: "path \<Rightarrow> image_info \<Rightarrow> token \<Rightarrow> nbd_host \<Rightarrow> (io_error, nbd_reader) res \<times> token \<times> nbd_host" where
  "nbd_open_default p info tok h = nbd_open_timed p info (default_options\<lparr>op_cancel_token := tok\<rparr>) h"

text \<open>Its process is ended unless it is found to have exited.\<close>

definition settle_child :: "nbd_host \<Rightarrow> nbd_host" where
  "settle_child h = (case try_wait h of (Exited _, h') \<Rightarrow> h' | (_, h') \<Rightarrow> snd (terminate_and_reap h'))"

text \<open>The destructor of \<open>NbdReader\<close>; the permit is the last field to be dropped.\<close>

definition drop_reader :: "nbd_reader \<Rightarrow> nbd_host \<Rightarrow> nbd_stream \<times> nbd_host" where
  "drop_reader rd h =
     (let h1 = elapse (nh_lag h (nh_now h)) (log_effect Disconnected h);
          h2 = settle_child h1;
          h3 = (case nr_unix_socket rd of Some p \<Rightarrow> log_effect (SocketRemoved p) h2 | None \<Rightarrow> h2)
      in (nbd_disconnect (nr_client rd), log_effect PermitReleased h3))"

section \<open>The protocol of a session\<close>

datatype session_phase = NoSession | Permitted | Serving | Ended

fun lifecycle :: "session_phase \<Rightarrow> nbd_effect \<Rightarrow> session_phase option" where
  "lifecycle NoSession PermitTaken = Some Permitted"
| "lifecycle Permitted (SocketRemoved _) = Some Permitted"
| "lifecycle Permitted (Spawned args) = (if take 1 args = [''--read-only''] then Some Serving else None)"
| "lifecycle Permitted PermitReleased = Some NoSession"
| "lifecycle Serving Disconnected = Some Serving"
| "lifecycle Serving SawExit = Some Ended"
| "lifecycle Serving KilledChild = Some Ended"
| "lifecycle Ended SawExit = Some Ended"
| "lifecycle Ended (SocketRemoved _) = Some Ended"
| "lifecycle Ended PermitReleased = Some NoSession"
| "lifecycle _ _ = None"

primrec replay :: "session_phase \<Rightarrow> nbd_effect list \<Rightarrow> session_phase option" where
  "replay ph [] = Some ph"
| "replay ph (e # es) = (case lifecycle ph e of None \<Rightarrow> None | Some ph' \<Rightarrow> replay ph' es)"

definition in_phase :: "session_phase \<Rightarrow> nbd_host \<Rightarrow> bool" where
  "in_phase ph h \<longleftrightarrow> replay NoSession (nh_log h) = Some ph"

lemma replay_append: "replay ph (xs @ ys) = (case replay ph xs of None \<Rightarrow> None | Some ph' \<Rightarrow> replay ph' ys)"
  by (induction xs arbitrary: ph) (auto split: option.split)

lemma in_phase_effect: "in_phase ph h \<Longrightarrow> lifecycle ph e = Some ph' \<Longrightarrow> in_phase ph' (log_effect e h)"
  by (simp add: in_phase_def log_effect_def replay_append)

lemma in_phase_frame [simp]:
  "in_phase ph (elapse d h) = in_phase ph h" "in_phase ph (sleep d h) = in_phase ph h"
  "in_phase ph (snd (read_child_stderr h)) = in_phase ph h"
  "in_phase ph (h\<lparr>nh_killed := k\<rparr>) = in_phase ph h"
  by (simp_all add: in_phase_def elapse_def sleep_def read_child_stderr_def)

lemma in_phase_kill: "in_phase Serving h \<Longrightarrow> in_phase Ended (kill_child h)"
  by (simp add: kill_child_def in_phase_effect [of Serving])

lemma try_wait_cases:
  obtains (exited) c where "nh_child h (nh_killed h) (nh_now h) = Exited c" "try_wait h = (Exited c, log_effect SawExit h)"
  | (other) s where "nh_child h (nh_killed h) (nh_now h) = s" "\<forall>c. s \<noteq> Exited c" "try_wait h = (s, h)"
  by (cases "nh_child h (nh_killed h) (nh_now h)") (auto simp: try_wait_def)

lemma reap_until_ended: "in_phase Ended h \<Longrightarrow> in_phase Ended (snd (reap_until deadline h))"
proof (induction deadline h rule: reap_until.induct)
  case (1 deadline h)
  show ?case
  proof (cases h rule: try_wait_cases)
    case (exited c)
    then show ?thesis using 1(3) by (subst reap_until.simps) (auto intro: in_phase_effect)
  next
    case (other s)
    then show ?thesis using 1 by (subst reap_until.simps) (cases s; auto)
  qed
qed

lemma terminate_ends: "in_phase Serving h \<Longrightarrow> in_phase Ended (snd (terminate_and_reap h))"
  by (cases h rule: try_wait_cases)
    (auto simp: terminate_and_reap_def Let_def intro: in_phase_effect in_phase_kill reap_until_ended
      split: child_status.split)

lemma collect_ends: "in_phase Serving h \<Longrightarrow> in_phase Ended (snd (terminate_and_collect_stderr h))"
  using terminate_ends [of h]
  by (auto simp: terminate_and_collect_stderr_def split: prod.split bool.split)

lemma give_up_ends: "in_phase Serving h \<Longrightarrow> in_phase Ended (snd (give_up p le h))"
  using collect_ends [of h] in_phase_frame(3) [of Ended "log_effect SawExit h"] in_phase_effect [of Serving h SawExit Ended]
  by (cases h rule: try_wait_cases) (auto simp: give_up_def case_prod_beta split: child_status.split)

lemma connect_loop_phase:
  assumes "connect_loop p tr deadline le tok h = (r, tok', h')" "in_phase Serving h"
  shows "(\<exists>s. r = Ok s) \<and> in_phase Serving h' \<or> (\<exists>e. r = Err e) \<and> in_phase Ended h'"
  using assms
proof (induction p tr deadline le tok h rule: connect_loop.induct)
  case (1 p tr deadline le tok h)
  obtain c t where tok: "load_token tok = (c, t)" by fastforce
  show ?case
  proof (cases "nh_now h < deadline \<and> \<not> c")
    case False
    then show ?thesis
      using 1(2) 1(3) tok terminate_ends [of h] give_up_ends [of h p le]
      by (subst (asm) connect_loop.simps) (auto simp: case_prod_beta split: if_splits)
  next
    case True
    show ?thesis
    proof (cases h rule: try_wait_cases)
      case (exited c')
      then show ?thesis
        using 1(2) 1(3) tok True in_phase_frame(3) [of Ended "log_effect SawExit h"] in_phase_effect [of Serving h SawExit Ended]
        by (subst (asm) connect_loop.simps) (auto simp: case_prod_beta)
    next
      case (other s)
      show ?thesis
      proof (cases "s = Running")
        case False
        then show ?thesis
          using other 1(2) 1(3) tok True collect_ends [of h]
          by (subst (asm) connect_loop.simps) (cases s; auto simp: case_prod_beta)
      next
        case run: True
        obtain q h2 where conn: "nbd_connect tr deadline h = (q, h2)" by fastforce
        then have q: "q \<noteq> Panic" using connect_returns [of tr deadline h] by simp
        have h2: "in_phase Serving h2" using 1(3) connect_takes_time [OF conn] by auto
        have step: "try_wait h = (Running, h)" using other run by simp
        have again: "?thesis" if e: "q = Err e" "retryable (kind_of e)"
          and "connect_loop p tr deadline (Some e) t (sleep 50 h2) = (r, tok', h')" for e
          using 1(1) [of c t Running h q h2 e] that True tok step conn h2 by auto
        show ?thesis
          using 1(2) again step tok True conn q h2 collect_ends [of h2]
          by (subst (asm) connect_loop.simps) (cases q; auto simp: case_prod_beta split: if_splits)
      qed
    qed
  qed
qed

lemma settle_child_ends: "in_phase Serving h \<Longrightarrow> in_phase Ended (settle_child h)"
  by (cases h rule: try_wait_cases)
    (auto simp: settle_child_def intro: in_phase_effect [of Serving] terminate_ends split: child_status.split)

lemma drop_reader_releases: "in_phase Serving h \<Longrightarrow> in_phase NoSession (snd (drop_reader rd h))"
  by (auto simp: drop_reader_def Let_def intro!: in_phase_effect [of Ended] settle_child_ends in_phase_effect [of Serving h]
      split: option.split)

lemma nbd_args_read_only: "take (Suc 0) (nbd_args o' info port) = [''--read-only'']"
  by (simp add: nbd_args_def)

lemma choose_transport_permitted:
  "in_phase Permitted h \<Longrightarrow> in_phase Permitted (snd (choose_transport o' h))"
  by (auto simp: choose_transport_def intro: in_phase_effect split: option.split)

lemma acquire_slot_phase:
  assumes "acquire_slot deadline waits tok h = (r, tok', h')" "in_phase NoSession h"
  shows "in_phase (if isl r then NoSession else Permitted) h'"
  using assms
  by (induction deadline waits tok h rule: acquire_slot.induct)
    (auto intro: in_phase_effect split: prod.splits bool.splits if_splits)

lemma start_helper_phase:
  assumes "in_phase Permitted h" and "start_helper p info o' deadline t h = (r, tok, h')"
  shows "(\<exists>rd. r = Ok rd) \<and> in_phase Serving h' \<or> (\<exists>e. r = Err e) \<and> in_phase NoSession h'"
proof -
  obtain ct h1 where ct: "choose_transport o' h = (ct, h1)" by fastforce
  have h1: "in_phase Permitted h1" using choose_transport_permitted [OF assms(1), of o'] ct by simp
  have freed: "in_phase NoSession (log_effect PermitReleased h1)" by (rule in_phase_effect [OF h1]) simp
  have served: "in_phase Serving (log_effect (Spawned (nbd_args o' info port)) h1)" for port
    by (rule in_phase_effect [OF h1]) (simp add: nbd_args_read_only)
  have ended: "in_phase Ended x \<Longrightarrow> in_phase NoSession (log_effect PermitReleased x)" for x
    by (erule in_phase_effect) simp
  show ?thesis
    using assms(2) ct freed
    by (auto simp: start_helper_def split: sum.splits res.splits prod.splits
        dest!: connect_loop_phase [OF _ served] intro: ended)
qed

lemma open_phase:
  assumes "in_phase NoSession h" and "nbd_open_timed p info o' h = (r, tok, h')"
  shows "(\<exists>rd. r = Ok rd) \<and> in_phase Serving h' \<or> (\<exists>e. r = Err e) \<and> in_phase NoSession h'"
proof -
  obtain c t where tok: "load_token (op_cancel_token o') = (c, t)" by fastforce
  define deadline where "deadline = nh_now h + (case op_connection_timeout o' of Some t \<Rightarrow> t | None \<Rightarrow> DEFAULT_NBD_TIMEOUT)"
  obtain a t1 h1 where slot: "acquire_slot deadline (nh_waits h) t h = (a, t1, h1)" by (metis prod_cases3)
  have "in_phase (if isl a then NoSession else Permitted) h1" by (rule acquire_slot_phase [OF slot assms(1)])
  then show ?thesis
    using assms tok slot start_helper_phase [of h1 p info o' deadline t1 r tok h']
    by (cases c; cases a) (auto simp: nbd_open_timed_def Let_def deadline_def [symmetric])
qed

section \<open>The cleanup is bounded\<close>

definition exited :: "child_status \<Rightarrow> bool" where
  "exited s = (case s of Exited _ \<Rightarrow> True | _ \<Rightarrow> False)"

text \<open>What \<open>try_wait\<close> would answer now.\<close>

definition status_of :: "nbd_host \<Rightarrow> child_status" where
  "status_of h = nh_child h (nh_killed h) (nh_now h)"

lemma host_frame [simp]:
  "nh_child (log_effect e h) = nh_child h" "nh_lag (log_effect e h) = nh_lag h" "nh_killed (log_effect e h) = nh_killed h"
  "nh_child (elapse d h) = nh_child h" "nh_lag (elapse d h) = nh_lag h" "nh_killed (elapse d h) = nh_killed h"
  "nh_child (sleep d h) = nh_child h" "nh_lag (sleep d h) = nh_lag h" "nh_killed (sleep d h) = nh_killed h"
  "nh_child (kill_child h) = nh_child h" "nh_lag (kill_child h) = nh_lag h"
  "nh_killed (kill_child h) = Some (case nh_killed h of None \<Rightarrow> nh_now h | Some t \<Rightarrow> t)"
  by (simp_all add: log_effect_def elapse_def sleep_def kill_child_def)

lemma reap_until_spec:
  assumes "reap_until deadline h = (b, h')" "\<And>t. nh_lag h t \<le> L"
  shows "nh_child h' = nh_child h \<and> nh_killed h' = nh_killed h \<and> nh_now h' \<le> max (nh_now h) (deadline + 10 + L) \<and>
    (b \<longleftrightarrow> exited (status_of h')) \<and> (\<not> b \<longrightarrow> deadline \<le> nh_now h')"
  using assms
proof (induction deadline h rule: reap_until.induct)
  case (1 deadline h)
  show ?case
  proof (cases h rule: try_wait_cases)
    case (exited c)
    then show ?thesis
      using 1(3) by (subst (asm) reap_until.simps) (auto simp: exited_def status_of_def)
  next
    case (other s)
    show ?thesis
    proof (cases "nh_now h < deadline")
      case True
      then have "reap_until deadline (sleep 10 h) = (b, h')"
        using 1(3) other by (subst (asm) reap_until.simps) (cases s; simp)
      moreover have "nh_now (sleep 10 h) \<le> deadline + 10 + L" using 1(4) [of "nh_now h"] True by simp
      ultimately show ?thesis using 1(1,2,4) other True by (cases s) auto
    next
      case False
      then show ?thesis
        using 1(3) other by (subst (asm) reap_until.simps) (cases s; auto simp: exited_def status_of_def)
    qed
  qed
qed

lemma terminate_and_reap_spec:
  assumes "terminate_and_reap h = (b, h')" "\<And>t. nh_lag h t \<le> L" "nh_killed h = None"
    and killed: "\<And>k t. k + PROCESS_CLEANUP_TIMEOUT \<le> t \<Longrightarrow> exited (nh_child h (Some k) t)"
  shows "b \<and> exited (status_of h') \<and> nh_now h' \<le> nh_now h + PROCESS_CLEANUP_TIMEOUT + 10 + L"
proof (cases h rule: try_wait_cases)
  case (exited c)
  then show ?thesis
    using assms(1) by (auto simp: terminate_and_reap_def exited_def status_of_def)
next
  case (other s)
  define k where "k = kill_child h"
  have run: "reap_until (nh_now h + PROCESS_CLEANUP_TIMEOUT) k = (b, h')"
    using assms(1) other by (cases s) (auto simp: terminate_and_reap_def Let_def k_def)
  have spec: "nh_child h' = nh_child h \<and> nh_killed h' = Some (nh_now h) \<and>
      nh_now h' \<le> max (nh_now h) (nh_now h + PROCESS_CLEANUP_TIMEOUT + 10 + L) \<and>
      (b \<longleftrightarrow> exited (status_of h')) \<and> (\<not> b \<longrightarrow> nh_now h + PROCESS_CLEANUP_TIMEOUT \<le> nh_now h')"
    using reap_until_spec [OF run, of L] assms(2,3) by (simp add: k_def)
  moreover have "exited (status_of h')" if "nh_now h + PROCESS_CLEANUP_TIMEOUT \<le> nh_now h'"
    using spec killed that by (simp add: status_of_def)
  ultimately show ?thesis by auto
qed

lemma settle_child_spec:
  assumes "\<And>t. nh_lag h t \<le> L" "nh_killed h = None"
    and "\<And>k t. k + PROCESS_CLEANUP_TIMEOUT \<le> t \<Longrightarrow> exited (nh_child h (Some k) t)"
  shows "exited (status_of (settle_child h)) \<and> nh_now (settle_child h) \<le> nh_now h + PROCESS_CLEANUP_TIMEOUT + 10 + L"
proof (cases h rule: try_wait_cases)
  case (exited c)
  then show ?thesis by (simp add: settle_child_def exited_def status_of_def)
next
  case (other s)
  then have "settle_child h = snd (terminate_and_reap h)"
    by (cases s) (auto simp: settle_child_def)
  then show ?thesis
    using terminate_and_reap_spec [of h "fst (terminate_and_reap h)" "snd (terminate_and_reap h)" L] assms by simp
qed

section \<open>A timed run is a run of the scripted model\<close>

lemma read_stderr_text: "\<exists>s. fst (read_child_stderr h) = trim s"
proof (cases "nh_stderr h")
  case None
  have "trim [] = []" by code_simp
  then have "fst (read_child_stderr h) = trim []" using None by (simp add: read_child_stderr_def)
  then show ?thesis by blast
next
  case (Some s)
  then show ?thesis by (auto simp: read_child_stderr_def)
qed

lemma collected_text: "\<exists>s b. fst (terminate_and_collect_stderr h) = (if b then trim s else [])"
proof (cases "fst (terminate_and_reap h)")
  case True
  obtain s where "fst (read_child_stderr (snd (terminate_and_reap h))) = trim s" using read_stderr_text by blast
  then have "fst (terminate_and_collect_stderr h) = (if True then trim s else [])"
    using True by (simp add: terminate_and_collect_stderr_def case_prod_beta)
  then show ?thesis by blast
next
  case False
  then have "fst (terminate_and_collect_stderr h) = (if False then trim [] else [])"
    by (simp add: terminate_and_collect_stderr_def case_prod_beta)
  then show ?thesis by blast
qed

lemma dial_addresses_attempt: "\<exists>c. attempt c = fst (dial_addresses deadline as le h)"
proof (induction deadline as le h rule: dial_addresses.induct)
  case (1 deadline le h)
  then show ?case by (auto simp: attempt_def intro: exI [of _ "Err x" for x])
next
  case (2 deadline d answer rest le h)
  have "\<exists>c. attempt c = Err e" for e by (auto simp: attempt_def intro: exI [of _ "Err e"])
  moreover have "\<exists>c. attempt c = fst (handshake t)" for t by (auto simp: attempt_def intro: exI [of _ "Ok t"])
  ultimately show ?case using 2 by (cases answer) (auto simp: timed_handshake_def)
qed

text \<open>Whatever a connection attempt gives, a scripted attempt gives too.\<close>

lemma connect_attempt: "\<exists>c. attempt c = fst (nbd_connect tr deadline h)"
proof -
  have "\<exists>c. attempt c = Err e" for e by (auto simp: attempt_def intro: exI [of _ "Err e"])
  moreover have "\<exists>c. attempt c = fst (handshake t)" for t by (auto simp: attempt_def intro: exI [of _ "Ok t"])
  ultimately show ?thesis
    using dial_addresses_attempt
    by (auto simp: nbd_connect_def connect_unix_with_timeouts_def connect_tcp_with_timeouts_def timed_handshake_def
        split: nbd_transport.split sum.split prod.split)
qed

definition scripted :: "path \<Rightarrow> io_error option \<Rightarrow> token \<Rightarrow> (io_error, nbd_stream) res \<times> token \<Rightarrow> bool" where
  "scripted p le tok out \<longleftrightarrow> (\<exists>rounds st se rb. \<forall>env. ne_last_status env = st \<and> ne_stderr env = se \<and> ne_reaped env = rb \<longrightarrow>
     nbd_connect_rounds p env rounds le tok = out)"

lemma scriptedI:
  assumes "\<And>env. ne_last_status env = st \<Longrightarrow> ne_stderr env = se \<Longrightarrow> ne_reaped env = rb \<Longrightarrow>
    nbd_connect_rounds p env rounds le tok = out"
  shows "scripted p le tok out"
  using assms unfolding scripted_def by blast

lemma give_up_scripted: "scripted p le tok (Err (fst (give_up p le h)), tok)"
proof (cases h rule: try_wait_cases)
  case (exited c)
  obtain s where "fst (read_child_stderr (log_effect SawExit h)) = trim s" using read_stderr_text by blast
  then show ?thesis
    using exited by (intro scriptedI [of "Exited c" s False p "[]"]) (simp add: give_up_def case_prod_beta)
next
  case (other st)
  obtain s b where "fst (terminate_and_collect_stderr h) = (if b then trim s else [])" using collected_text by blast
  then show ?thesis
    using other
    by (intro scriptedI [of st s b p "[]"]) (cases st; simp add: give_up_def case_prod_beta collected_stderr_def)
qed

lemma connect_loop_scripted:
  "connect_loop p tr deadline le tok h = (r, tok', h') \<Longrightarrow> scripted p le tok (r, tok')"
proof (induction p tr deadline le tok h rule: connect_loop.induct)
  case (1 p tr deadline le tok h)
  obtain c t where tok: "load_token tok = (c, t)" by fastforce
  consider "\<not> nh_now h < deadline" | "nh_now h < deadline" "c" | "nh_now h < deadline" "\<not> c" by blast
  then show ?case
  proof cases
    case 1
    then show ?thesis
      using "1.prems" give_up_scripted [of p le tok h]
      by (subst (asm) connect_loop.simps) (simp add: case_prod_beta)
  next
    case 2
    then show ?thesis
      using "1.prems" tok by (intro scriptedI [of Running "[]" False p "[(Running, Panic)]"])
        (subst (asm) connect_loop.simps, simp)
  next
    case 3
    show ?thesis
    proof (cases h rule: try_wait_cases)
      case (exited c')
      obtain s where "fst (read_child_stderr (log_effect SawExit h)) = trim s" using read_stderr_text by blast
      then show ?thesis
        using "1.prems" tok 3 exited by (intro scriptedI [of Running s False p "[(Exited c', Panic)]"])
          (subst (asm) connect_loop.simps, simp add: case_prod_beta)
    next
      case (other st)
      obtain s b where err: "fst (terminate_and_collect_stderr h) = (if b then trim s else [])"
        using collected_text by blast
      obtain q h2 where conn: "nbd_connect tr deadline h = (q, h2)" by fastforce
      obtain s2 b2 where err2: "fst (terminate_and_collect_stderr h2) = (if b2 then trim s2 else [])"
        using collected_text by blast
      obtain a where a: "attempt a = q" using connect_attempt [of tr deadline h] conn by auto
      consider (odd) e where "st = StatusError e" | (retry) e where "st = Running" "q = Err e" "retryable (kind_of e)"
        | (fatal) e where "st = Running" "q = Err e" "\<not> retryable (kind_of e)"
        | (fine) v where "st = Running" "q = Ok v" | (panic) "st = Running" "q = Panic"
        using other(2) by (cases st; cases q) auto
      then show ?thesis
      proof cases
        case odd
        then show ?thesis
          using "1.prems" tok 3 other err by (intro scriptedI [of Running s b p "[(st, a)]"])
            (subst (asm) connect_loop.simps, auto simp: case_prod_beta collected_stderr_def)
      next
        case fatal
        then show ?thesis
          using "1.prems" tok 3 other err2 conn a by (intro scriptedI [of Running s2 b2 p "[(st, a)]"])
            (subst (asm) connect_loop.simps, auto simp: case_prod_beta collected_stderr_def)
      next
        case fine
        then have "r = Ok v \<and> tok' = t"
          using "1.prems" tok 3 other conn by (subst (asm) connect_loop.simps) simp
        then show ?thesis
          using tok 3 fine a by (intro scriptedI [of Running "[]" False p "[(Running, a)]"]) simp
      next
        case panic
        then have "r = Panic \<and> tok' = t"
          using "1.prems" tok 3 other conn by (subst (asm) connect_loop.simps) simp
        then show ?thesis
          using tok 3 panic a by (intro scriptedI [of Running "[]" False p "[(Running, a)]"]) simp
      next
        case e: retry
        then have "connect_loop p tr deadline (Some e) t (sleep 50 h2) = (r, tok', h')"
          using "1.prems" tok 3 other conn by (subst (asm) connect_loop.simps) simp
        then have "scripted p (Some e) t (r, tok')"
          using "1.IH" [of c t Running h q h2 e] 3 tok other conn e by auto
        then obtain rounds ls se rb where "\<forall>env. ne_last_status env = ls \<and> ne_stderr env = se \<and> ne_reaped env = rb \<longrightarrow>
            nbd_connect_rounds p env rounds (Some e) t = (r, tok')"
          by (auto simp: scripted_def)
        then show ?thesis
          using tok 3 e a by (intro scriptedI [of ls se rb p "(Running, a) # rounds"]) simp
      qed
    qed
  qed
qed

lemma acquire_slot_scripted:
  assumes "acquire_slot deadline waits tok h = (r, tok', h')"
  shows "\<exists>ws. wait_for_slot ws tok = (case r of Inl e \<Rightarrow> Err e | Inr u \<Rightarrow> Ok u, tok')"
  using assms
proof (induction deadline waits tok h rule: acquire_slot.induct)
  case (1 deadline tok h)
  then have "wait_for_slot [] tok = (case r of Inl e \<Rightarrow> Err e | Inr u \<Rightarrow> Ok u, tok')" by auto
  then show ?case by blast
next
  case (2 deadline d waits tok h)
  obtain c t where tok: "load_token tok = (c, t)" by fastforce
  show ?case
  proof (cases "c \<or> deadline \<le> nh_now h")
    case True
    then have "wait_for_slot [True] tok = (case r of Inl e \<Rightarrow> Err e | Inr u \<Rightarrow> Ok u, tok')"
      using 2(2) tok by (cases c) auto
    then show ?thesis by blast
  next
    case False
    then obtain ws where "wait_for_slot ws t = (case r of Inl e \<Rightarrow> Err e | Inr u \<Rightarrow> Ok u, tok')"
      using 2(1) [of c t] 2(2) tok by auto
    then have "wait_for_slot (False # ws) tok = (case r of Inl e \<Rightarrow> Err e | Inr u \<Rightarrow> Ok u, tok')"
      using False tok by simp
    then show ?thesis by blast
  qed
qed

text \<open>The environment after the permit: what was asked of the host, and the rounds of the loop.\<close>

lemma start_helper_scripted:
  assumes "start_helper p info o' deadline t h = (r, tok, h')"
  shows "\<exists>env. \<forall>waits. load_token (op_cancel_token o') = (False, t0) \<longrightarrow> wait_for_slot waits t0 = (Ok (), t) \<longrightarrow>
    nbd_open (env\<lparr>ne_slot_waits := waits\<rparr>) p info o' = (map_res (\<lambda>e. e) nr_client r, tok)"
proof -
  obtain ct h1 where ct: "choose_transport o' h = (ct, h1)" by fastforce
  define base where "base = \<lparr>ne_slot_waits = [], ne_port = (case nh_port h of Inl e \<Rightarrow> Err e | Inr n \<Rightarrow> Ok n),
    ne_spawn = (case nh_spawn h of Inl e \<Rightarrow> Err e | Inr u \<Rightarrow> Ok u),
    ne_rounds = [], ne_last_status = Running, ne_stderr = [], ne_reaped = False\<rparr>"
  have h1: "nh_spawn h1 = nh_spawn h" using ct by (auto simp: choose_transport_def log_effect_def split: option.splits)
  have no_port: "ct = Inl e \<Longrightarrow> op_unix_socket o' = None \<and> nh_port h = Inl e"
    and has_port: "ct = Inr v \<Longrightarrow> op_unix_socket o' \<noteq> None \<or> (\<exists>n. nh_port h = Inr n)" for e v
    using ct by (auto simp: choose_transport_def log_effect_def split: option.splits sum.splits)
  consider (transport) e where "ct = Inl e" | (spawn) v e where "ct = Inr v" "nh_spawn h = Inl e"
    | (go) tr n u where "ct = Inr (tr, n)" "nh_spawn h = Inr u"
    by (cases ct; cases "nh_spawn h") auto
  then show ?thesis
  proof cases
    case transport
    then show ?thesis
      using assms ct no_port [of e] by (intro exI [of _ base]) (auto simp: nbd_open_def base_def start_helper_def)
  next
    case spawn
    then show ?thesis
      using assms ct h1 has_port [of v]
      by (intro exI [of _ base]) (cases v; auto simp: nbd_open_def base_def start_helper_def)
  next
    case go
    obtain q tok' h2 where loop: "connect_loop p tr deadline None t
        (log_effect (Spawned (nbd_args o' info n)) h1) = (q, tok', h2)" by (metis prod_cases3)
    obtain rounds st se rb where rounds: "\<forall>env. ne_last_status env = st \<and> ne_stderr env = se \<and> ne_reaped env = rb \<longrightarrow>
        nbd_connect_rounds p env rounds None t = (q, tok')"
      using connect_loop_scripted [OF loop] by (auto simp: scripted_def)
    have "(map_res (\<lambda>e. e) nr_client r, tok) = (q, tok')"
      using assms go ct h1 loop by (cases q) (auto simp: start_helper_def)
    then show ?thesis
      using go rounds has_port [of "(tr, n)"]
      by (intro exI [of _ "base\<lparr>ne_rounds := rounds, ne_last_status := st, ne_stderr := se, ne_reaped := rb\<rparr>"])
        (auto simp: nbd_open_def base_def)
  qed
qed

lemma open_scripted:
  "\<exists>env. nbd_open env p info o' =
    (map_res (\<lambda>e. e) nr_client (fst (nbd_open_timed p info o' h)), fst (snd (nbd_open_timed p info o' h)))"
proof -
  obtain r tok h' where run: "nbd_open_timed p info o' h = (r, tok, h')" by (metis prod_cases3)
  obtain c t where tok: "load_token (op_cancel_token o') = (c, t)" by fastforce
  define deadline where "deadline = nh_now h + (case op_connection_timeout o' of Some t \<Rightarrow> t | None \<Rightarrow> DEFAULT_NBD_TIMEOUT)"
  obtain a t1 h1 where slot: "acquire_slot deadline (nh_waits h) t h = (a, t1, h1)" by (metis prod_cases3)
  obtain ws where ws: "wait_for_slot ws t = (case a of Inl e \<Rightarrow> Err e | Inr u \<Rightarrow> Ok u, t1)"
    using acquire_slot_scripted [OF slot] by blast
  show ?thesis
  proof (cases "\<not> c \<and> (\<exists>u. a = Inr u)")
    case True
    then have "start_helper p info o' deadline t1 h1 = (r, tok, h')"
      using run tok slot by (auto simp: nbd_open_timed_def Let_def deadline_def [symmetric])
    from start_helper_scripted [OF this, of t] show ?thesis using True tok ws run by auto
  next
    case False
    have "nbd_open \<lparr>ne_slot_waits = ws, ne_port = Ok 0, ne_spawn = Ok (), ne_rounds = [], ne_last_status = Running,
        ne_stderr = [], ne_reaped = False\<rparr> p info o' = (map_res (\<lambda>e. e) nr_client r, tok)"
      using False run tok slot ws
      by (cases c; cases a) (auto simp: nbd_open_timed_def nbd_open_def Let_def deadline_def [symmetric])
    then show ?thesis using run by auto
  qed
qed

section \<open>Properties\<close>

text \<open>A host for the examples: the helper serves until it is killed and is gone five milliseconds
  later; its first connection is refused.\<close>

definition demo_host :: nbd_host where
  "demo_host = \<lparr>nh_now = 100, nh_lag = (\<lambda>_. 1),
     nh_child = (\<lambda>killed t. case killed of None \<Rightarrow> Running | Some k \<Rightarrow> if k + 5 \<le> t then Exited ''None'' else Running),
     nh_killed = None, nh_stderr = Some [], nh_waits = [3, 4], nh_port = Inr 10809, nh_spawn = Inr (),
     nh_resolve = (\<lambda>_ t. Inr [(2, if t < 120 then DialFailed (IoError ConnectionRefused ''refused'')
       else Dialled (connected (\<lambda>_. 7) 4096 []))]),
     nh_unix = (\<lambda>_ _. (Inl (IoError NotFound ''no socket''), 0)), nh_handshake = (\<lambda>_. 3), nh_log = []\<rparr>"

definition demo_image :: image_info where
  "demo_image = \<lparr>im_path = ''a.vmdk'', im_format = ''vmdk'', im_virtual_size = 4096, im_actual_size = 512,
     im_hypervisor = VMware\<rparr>"





text \<open>The two models of \<open>open_with_options\<close> agree: what the timed one returns on a host, the
  scripted one of \<open>Nbd\<close>, on which the disk reader is built, returns in some environment.\<close>

theorem timed_open_is_scripted:
  "\<exists>env. nbd_open env p info o' =
    (map_res (\<lambda>e. e) nr_client (fst (nbd_open_timed p info o' h)), fst (snd (nbd_open_timed p info o' h)))"
  by (rule open_scripted)

end
