(* ===== verification/Spec2Isabelle.thy ===== *)
theory Spec2Isabelle
  imports Vmspect Nbd_Process
begin

text \<open>
  A verification library of \<^verbatim>\<open>vmspect\<close>, a Rust library and command-line tool that inspects virtual-machine
  disk images without booting or mounting them.  Paths below are relative to \<^verbatim>\<open>src/\<close>.

  \<^bold>\<open>The program.\<close>  Discovery (\<^verbatim>\<open>src/vms/discovery.rs\<close>) walks a directory tree and lists the disk images.
  An inspection (\<^verbatim>\<open>src/engine/mod.rs\<close>) identifies one image, opens a reader over it
  (\<^verbatim>\<open>src/vms/stream.rs\<close>: a raw file, a sparse VMDK, the extents of a VMDK descriptor from
  \<^verbatim>\<open>src/vms/vmdk.rs\<close>, or a session with a \<^verbatim>\<open>qemu-nbd\<close> child, \<^verbatim>\<open>src/vms/nbd.rs\<close>), detects the partition
  table, the file systems and the guest family (\<^verbatim>\<open>src/vms/detector.rs\<close>), has a guest parser
  (\<^verbatim>\<open>src/parsers/\<close>) read the guest's files through cached views of the partitions, and builds a report.
  A batch runs inspections in a pool of worker threads that share a queue, a progress record and a
  cancellation flag (\<^verbatim>\<open>src/models/options.rs\<close>); a process-wide slot (\<^verbatim>\<open>src/operation.rs\<close>) lets one
  discovery or batch run at a time.

  \<^bold>\<open>The theories.\<close>
  \<^item> \<^verbatim>\<open>Prelude\<close>: results (\<open>Ok\<close>, \<open>Err\<close>, \<open>Panic\<close>) and world computations, 64-bit arithmetic that
    panics or wraps with the build's overflow checks (the argument \<open>oc\<close>), byte sequences.
  \<^item> \<^verbatim>\<open>Rust_Str\<close>: the part of \<^verbatim>\<open>str\<close> and \<^verbatim>\<open>Path\<close> the program uses, on UTF-8 byte strings.
  \<^item> \<^verbatim>\<open>Models\<close>: \<^verbatim>\<open>src/error.rs\<close> and the records of \<^verbatim>\<open>src/models/\<close>.
  \<^item> \<^verbatim>\<open>Host_File\<close>: files whose reads may be short, be interrupted or fail, as a script says; the host's
    files and metadata.
  \<^item> \<^verbatim>\<open>Options\<close>: cancellation token, progress counters with their separate atomic steps, options,
    report and summary.
  \<^item> \<^verbatim>\<open>Vmdk\<close>: headers, descriptors, sparse extents with the cache of grain tables.  The theorems give the
    extent a byte function and show that \<open>read_at\<close> returns it, also when reads are split, and never a
    wrong byte when they fail.
  \<^item> \<^verbatim>\<open>Nbd\<close>: the NBD protocol over a transport that may split, delay or fail transfers; start-up of the
    helper with its wait for a session slot; session permits as a step relation.
  \<^item> \<^verbatim>\<open>Disk_Reader\<close>: identification, validation and opening of images, and reads.  The locale
    \<open>vm_driver\<close> is the contract of the \<^verbatim>\<open>VmDriver\<close> trait (reads return the bytes of a disk), with the
    extension \<open>reliable_driver\<close> (reads do not fail); it is interpreted on the reader over native
    backends and over NBD.
  \<^item> \<^verbatim>\<open>Virtual_Disk\<close>: the seekable view with its LRU cache, proved transparent over every driver.
  \<^item> \<^verbatim>\<open>Detector\<close>: MBR, extended chains, GPT, signatures.  Detection is proved once over the driver
    contract: over a reader it returns what it returns over the plain bytes.
  \<^item> \<^verbatim>\<open>Operation\<close>: the process-wide slot.  \<^verbatim>\<open>Discovery\<close>: names, directory walk, signature check,
    pre-flight decision, with the tree below a directory as specification.
  \<^item> \<^verbatim>\<open>Worker_Pool\<close>: both pools of the engine as one step relation, with conservation of tasks,
    termination, order of the results and exactness of the progress.
  \<^item> \<^verbatim>\<open>Disk_Program\<close>: a call of a file-system crate as a program over a view of the disk, which can only
    read and seek; panics, errors and their capture (\<open>catch_unwind\<close>).  Its laws, in the driver
    locales, say that no such program can tell one reliable driver from another.
  \<^item> \<^verbatim>\<open>Program_List\<close>: the order and deduplication both guest parsers end with.
  \<^item> \<^verbatim>\<open>Linux_Guest\<close> (\<^verbatim>\<open>src/parsers/linux.rs\<close>): os-release, dpkg with a round trip, tools found by file.
  \<^item> \<^verbatim>\<open>Calendar\<close>, \<^verbatim>\<open>Registry\<close>, \<^verbatim>\<open>Windows_Guest\<close> (\<^verbatim>\<open>src/parsers/windows.rs\<close>): PE time stamps and dates against the
    Gregorian calendar; keys, values and programs of a hive against a tree of keys; NTFS navigation,
    degradation and the file-system fallback, with the proof that the analysis always returns.
  \<^item> \<^verbatim>\<open>Engine\<close> (\<^verbatim>\<open>src/engine/mod.rs\<close>, \<^verbatim>\<open>src/parsers/mod.rs\<close>, \<^verbatim>\<open>src/parsers/desconocido.rs\<close>, \<^verbatim>\<open>src/lib.rs\<close>): the
    stages of one inspection with their checks of the flag, their events and their progress; the locale
    \<open>stable_driver\<close> says what detection and the parsers cannot change.
  \<^item> \<^verbatim>\<open>Inspection\<close>: the laws of a whole inspection.  \<open>reliable_driver\<close> is interpreted on the engine with its
    open reader, so detection and both parsers carry over, and the report is a function of the bytes;
    the possible errors, the events, cancellation.
  \<^item> \<^verbatim>\<open>Nbd_Process\<close> (\<^verbatim>\<open>src/vms/nbd.rs\<close>): opening and dropping a helper session on a host with a clock, a
    child process and a log.  The log follows the protocol \<open>lifecycle\<close> on every path, the cleanup is
    bounded and leaves no process, and every timed run, its wait for a session slot included, is a run of
    \<open>nbd_open\<close>.
  \<^item> \<^verbatim>\<open>Floating\<close>, \<^verbatim>\<open>Human_Report\<close> (\<^verbatim>\<open>src/models/options.rs\<close>, \<^verbatim>\<open>src/models/image.rs\<close>, \<^verbatim>\<open>src/bin/vmspect.rs\<close>): the
    floating-point percentage of a batch, which stays below 100 until the batch is complete, the text of
    a size with its accuracy, and the lines of the human report.
  \<^item> \<^verbatim>\<open>Cli\<close> (\<^verbatim>\<open>src/bin/vmspect.rs\<close>): arguments with their inverse, dispatch, the two commands.
  \<^item> \<^verbatim>\<open>Batch\<close> (\<^verbatim>\<open>src/engine/mod.rs\<close>): pool and engine together.  A batch of images has a schedule that ends, and
    under every schedule it is a function of their disks.
  \<^item> \<^verbatim>\<open>Vmspect\<close> (\<open>main\<close> of \<^verbatim>\<open>src/bin/vmspect.rs\<close>): the whole program as the relation \<open>vmspect\<close> from the arguments
    to the exit status and the two output streams, with dispatch, inspection, discovery and batch.
  \<^item> This theory states the properties that span components: what a batch reports, what the program prints
    for an image and for a directory, and the contract of its machine-readable output.

  \<^bold>\<open>Bounds and fuel.\<close>  \<open>usize\<close> and \<open>u64\<close> are natural numbers below \<open>2 ^ 64\<close>.  The loops over files,
  transports and tables are total functions with a measure; the extended chain has the source's bound
  of 64 rounds and the parent chain its bound of 32.  The directory walk is a partial function, shown
  to return on every tree of finite height and whenever there is a depth limit.  Connection rounds to
  the helper are bounded by the rounds the deadline allows, which the environment gives.

  \<^bold>\<open>What is a parameter.\<close>  The operating system (directories, child processes, threads that may not start,
  times) and third-party crates are arguments of the definitions; hypotheses about them are named
  predicates with concrete instances in the witnesses.

  \<^bold>\<open>Not modelled.\<close>  Serialization (\<^verbatim>\<open>serde\<close>); the socket options (timeouts, \<open>nodelay\<close>, shutdown), whose
  effect is the scripts of the transport and the durations of the host; overflow of an \<open>Instant\<close> by a
  timeout of many years.
\<close>

section \<open>Properties\<close>

text \<open>C2. A whole batch is a function of the bytes of its disks: uncancelled, whatever the schedule of its
  workers, it returns, in the order of the input, the reports and the errors that detection and guest
  analysis give over the bytes each image shows, up to the statistics.\<close>

theorem batch_reports_of_bytes:
  assumes "inspect_batch (engine_work oc ie x nt h opts) paths mw None False False pr r pr' False a'"
    and "paths \<noteq> []" and "length paths < 2 ^ 64"
    and "\<forall>p \<in> set paths. image_shows oc ie opts p (img p) (sz p) (disk p)"
    and "\<forall>p \<in> set paths. report_of_bytes oc x nt h (sz p) (disk p) opts (img p) \<noteq> Panic"
  shows "\<exists>b. r = Ok b \<and>
    map (\<lambda>rep. rep\<lparr>rp_stats := default_stats\<rparr>) (br_reports b) =
      reports_of (\<lambda>p. report_of_bytes oc x nt h (sz p) (disk p) opts (img p)) paths \<and>
    br_errors b = errors_of (\<lambda>p. report_of_bytes oc x nt h (sz p) (disk p) opts (img p)) paths"
  by (rule batch_of_bytes [OF assms])

theorem batch_reports_of_bytes_witness:
  "\<exists>b pr'. inspect_batch (engine_work True small_env sample_ext4 sample_ntfs panicking_hive default_options) [''disk''] 4 None
      False False new_progress (Ok b) pr' False False \<and>
    map (\<lambda>rep. rep\<lparr>rp_stats := default_stats\<rparr>) (br_reports b) = [small_report] \<and> br_errors b = []"
proof -
  obtain b pr' where run: "inspect_batch (engine_work True small_env sample_ext4 sample_ntfs panicking_hive default_options)
      [''disk''] 4 None False False new_progress (Ok b) pr' False False"
    using engine_batch_runs [of "[''disk'']"] by blast
  then show ?thesis
    using batch_reports_of_bytes [OF run, where img = "\<lambda>_. small_image" and sz = "\<lambda>_. 4" and disk = "\<lambda>_ _. 0"]
      small_shown by (auto simp: small_of_bytes reports_of_def errors_of_def)
qed

text \<open>C3. The program, run on a directory with the machine-readable full report, returns, and whatever the
  schedule of its workers the document it prints holds, in the order of the paths, the report or the
  error that detection and guest analysis give over the bytes of each image of the directory tree,
  each once and nothing else, with the unreadable directories.\<close>

theorem vmspect_directory_complete:
  fixes d :: path
  assumes args: "parse_args_from args = Ok c" "cc_json_format c" "cc_full_report c" "cc_target_path c = Some d"
    and root: "path_is_dir (ie_host ie) d" "\<not> path_is_file (ie_host ie) d"
      "validate_discovery_root (ie_host ie) d = Ok ()" "dir_readable rd d"
    and tree: "names_ok rd" "height_le rd (cli_discovery_options c) n 0 d"
      "dirs = tree_dirs rd (cli_discovery_options c) n 0 d" "images = concat (map (dir_images rd) dirs)"
    and images: "images \<noteq> []" "length images < 2 ^ 64"
      "\<forall>p \<in> set images. image_shows oc ie (cli_options c) p (img p) (sz p) (disk p)"
      "\<forall>p \<in> set images. report_of_bytes oc x nt h (sz p) (disk p) (cli_options c) (img p) \<noteq> Panic"
  shows "(\<exists>r. vmspect oc ie rd x nt h tj tjd ms None version args r) \<and>
    (\<forall>r. vmspect oc ie rd x nt h tj tjd ms None version args r \<longrightarrow>
      (\<exists>paths reps bad warnings closed err. r = Some (shown_documents tjd (FullJson reps bad warnings closed) err) \<and>
        mset paths = mset images \<and> sorted (map path_key paths) \<and>
        map (\<lambda>rep. rep\<lparr>rp_stats := default_stats\<rparr>) reps =
          reports_of (\<lambda>p. report_of_bytes oc x nt h (sz p) (disk p) (cli_options c) (img p)) paths \<and>
        bad = errors_of (\<lambda>p. report_of_bytes oc x nt h (sz p) (disk p) (cli_options c) (img p)) paths \<and>
        mset closed = mset (filter (\<lambda>q. \<not> dir_readable rd q) dirs)))"
proof -
  obtain err where main: "cli_main (ie_host ie) args = (InspectDirectory d c (cli_options c), err)"
    using cli_main_directory [OF args(1,4) root(1,2)] by blast
  obtain disc hints where disc: "list_vms_with_options (ie_host ie) rd d (cli_discovery_options c) False =
        Some ((Ok disc, hints), False)"
      "mset (dp_images disc) = mset images" "sorted (map path_key (dp_images disc))"
      "mset (dp_inaccessible disc) = mset (filter (\<lambda>q. \<not> dir_readable rd q) dirs)"
    using listed_tree [OF tree(1,2) root(4,3)] unfolding tree(3,4) by blast
  have same: "set (dp_images disc) = set images" "length (dp_images disc) = length images"
    using disc(2) by (metis set_mset_mset, metis size_mset)
  then have some: "dp_images disc \<noteq> []" using images(1) by auto
  show ?thesis
  proof (intro conjI allI impI)
    show "\<exists>r. vmspect oc ie rd x nt h tj tjd ms None version args r" by (rule vmspect_directory_runs [OF main disc(1) some])
  next
    fix r
    assume "vmspect oc ie rd x nt h tj tjd ms None version args r"
    then obtain reps err' where
      "r = Some (shown_documents tjd (FullJson reps
          (errors_of (\<lambda>p. report_of_bytes oc x nt h (sz p) (disk p) (cli_options c) (img p)) (dp_images disc))
          (dp_warnings disc) (dp_inaccessible disc)) err')"
      "map (\<lambda>rep. rep\<lparr>rp_stats := default_stats\<rparr>) reps =
        reports_of (\<lambda>p. report_of_bytes oc x nt h (sz p) (disk p) (cli_options c) (img p)) (dp_images disc)"
      using vmspect_directory_document [OF main args(2,3) disc(1) some, unfolded same, OF images(2-4)] by blast
    with disc(2-4) show "\<exists>paths reps bad warnings closed err. r = Some (shown_documents tjd (FullJson reps bad warnings closed) err) \<and>
        mset paths = mset images \<and> sorted (map path_key paths) \<and>
        map (\<lambda>rep. rep\<lparr>rp_stats := default_stats\<rparr>) reps =
          reports_of (\<lambda>p. report_of_bytes oc x nt h (sz p) (disk p) (cli_options c) (img p)) paths \<and>
        bad = errors_of (\<lambda>p. report_of_bytes oc x nt h (sz p) (disk p) (cli_options c) (img p)) paths \<and>
        mset closed = mset (filter (\<lambda>q. \<not> dir_readable rd q) dirs)" by blast
  qed
qed

theorem vmspect_directory_complete_witness:
  "\<exists>err. vmspect True tree_env one_image sample_ext4 sample_ntfs panicking_hive path_json
      paths_json 0 None ''0''
      [''--json'', ''--full-report'', ''/v''] (Some \<lparr>co_exit = 0, co_out = [''/v/a.raw''], co_err = err\<rparr>)"
proof -
  obtain rep where rep: "report_of_bytes True sample_ext4 sample_ntfs panicking_hive 4 (\<lambda>_. 0) default_options tree_image = Ok rep"
      "rp_image rep = tree_image" using tree_of_bytes by blast
  have conf: "cc_json_format tree_config" "cc_full_report tree_config" "cc_target_path tree_config = Some ''/v''"
    by (simp_all add: tree_config_def)
  from vmspect_directory_complete [OF tree_args conf tree_is_dir tree_listed(4,3,1,2) refl refl, unfolded tree_listed(5) plain_options,
      where oc = True and x = sample_ext4 and nt = sample_ntfs and h = panicking_hive and img = "\<lambda>_. tree_image" and sz = "\<lambda>_. 4"
        and disk = "\<lambda>_ _. 0" and tj = path_json and tjd = paths_json and ms = 0 and version = "''0''"]
  obtain r reps err where "vmspect True tree_env one_image sample_ext4 sample_ntfs panicking_hive path_json paths_json 0 None ''0''
        [''--json'', ''--full-report'', ''/v''] r"
      "map (\<lambda>rep. rep\<lparr>rp_stats := default_stats\<rparr>) reps = [rep]" "r = Some \<lparr>co_exit = 0, co_out = [concat (map (im_path \<circ> rp_image) reps)], co_err = err\<rparr>"
    using rep(1) tree_shown by (fastforce simp: reports_of_def shown_documents_def paths_json_def)
  moreover from this(2) obtain rep' where "reps = [rep']" "rp_image rep' = tree_image" using rep(2) by auto
  ultimately show ?thesis by (auto simp: tree_image_def)
qed

text \<open>C4. The program, run on a disk image, prints the report that detection and guest analysis give over the
  bytes the image shows, up to the statistics, in the human form or as the serializer writes it (status 1
  and no output when it fails), and the program has no other outcome.\<close>

theorem vmspect_shows_the_disk:
  fixes p :: path
  assumes "parse_args_from args = Ok c" "cc_target_path c = Some p" "path_is_file (ie_host ie) p"
    and "image_shows oc ie (cli_options c) p img sz disk"
    and "report_of_bytes oc x nt h sz disk (cli_options c) img = Ok rep"
  shows "\<exists>rep' err. rep'\<lparr>rp_stats := default_stats\<rparr> = rep \<and>
    (\<forall>r. vmspect oc ie rd x nt h tj tjd ms spawn version args r \<longleftrightarrow> r = Some (shown_report tj ms p (cc_json_format c) rep' err))"
  by (rule vmspect_file_outcome [OF assms])

theorem vmspect_shows_the_disk_witness:
  "\<exists>err. \<forall>r. vmspect True small_env one_image sample_ext4 sample_ntfs panicking_hive path_json
      paths_json 0 None ''0'' [''--json'', ''disk''] r \<longleftrightarrow> r = Some \<lparr>co_exit = 0, co_out = [''disk''], co_err = err\<rparr>"
proof -
  from vmspect_shows_the_disk [where tj = path_json and tjd = paths_json and ms = 0 and spawn = None and version = "''0''"
      and rd = one_image and x = sample_ext4 and nt = sample_ntfs and h = panicking_hive,
      OF file_args _ small_is_file, unfolded plain_options, OF _ small_shown small_of_bytes]
  have "\<exists>rep' err. rep'\<lparr>rp_stats := default_stats\<rparr> = small_report \<and>
      (\<forall>r. vmspect True small_env one_image sample_ext4 sample_ntfs panicking_hive path_json paths_json 0 None ''0''
        [''--json'', ''disk''] r \<longleftrightarrow> r = Some (shown_report path_json 0 ''disk'' True rep' err))" by simp
  then show ?thesis
  proof (elim exE conjE)
    fix rep' err
    assume "rep'\<lparr>rp_stats := default_stats\<rparr> = small_report"
    then have image: "rp_image rep' = small_image" by (cases rep') (simp add: small_report_def)
    assume "\<forall>r. vmspect True small_env one_image sample_ext4 sample_ntfs panicking_hive path_json paths_json 0 None ''0''
        [''--json'', ''disk''] r \<longleftrightarrow> r = Some (shown_report path_json 0 ''disk'' True rep' err)"
    then show ?thesis by (intro exI [of _ err]) (simp add: image shown_report_def path_json_def small_image_def)
  qed
qed

text \<open>C24. With the machine-readable format a run that does not panic either prints one document on the
  standard output and exits with 0, or prints nothing there and exits with 1, whatever the host, the
  disks, the serializer and the schedule.\<close>

theorem vmspect_json_contract:
  assumes "parse_args_from args = Ok c" "cc_json_format c"
    and "vmspect oc ie rd x nt h tj tjd ms spawn version args (Some out)"
  shows "document_or_failure out"
  using assms(3)
proof (cases rule: vmspect.cases)
  case (stop n err)
  then show ?thesis using cli_main_configured [OF assms(1)] main_output_configured [OF assms(1)]
    by (fastforce simp: document_or_failure_def)
next
  case (inspect_one p o' json err)
  then have "json" using cli_main_configured [OF assms(1)] assms(2) by fastforce
  with inspect_one(1) show ?thesis by (auto simp: vmspect_file_def elim!: of_run_document [OF sym] intro: run_file_document)
next
  case (list_only d c' o' err lr hints a)
  then have "c' = c" using cli_main_configured [OF assms(1)] by fastforce
  with list_only(1) show ?thesis using assms(2) by (auto elim!: of_run_document [OF sym] intro: run_directory_document)
next
  case (list_and_inspect d c' o' err disc hints a br pr a')
  then have "c' = c" using cli_main_configured [OF assms(1)] by fastforce
  with list_and_inspect(1) show ?thesis using assms(2) by (auto elim!: of_run_document [OF sym] intro: run_directory_document)
qed

theorem vmspect_json_contract_witness:
  "\<exists>out. vmspect True small_env one_image sample_ext4 sample_ntfs panicking_hive failing_json
      paths_json 0 None ''0'' [''--json'', ''disk''] (Some out) \<and> document_or_failure out"
proof -
  let ?run = "vmspect True small_env one_image sample_ext4 sample_ntfs panicking_hive failing_json
      paths_json 0 None ''0'' [''--json'', ''disk'']"
  from vmspect_file_outcome [where tj = failing_json and tjd = paths_json and ms = 0 and spawn = None
      and version = "''0''" and rd = one_image and x = sample_ext4 and nt = sample_ntfs and h = panicking_hive,
      OF file_args _ small_is_file, unfolded plain_options, OF _ small_shown small_of_bytes]
  obtain out where run: "?run (Some out)" by auto
  then show ?thesis using vmspect_json_contract [OF file_args _ run] by auto
qed
end
